(* ===== verification/Prelude.thy ===== *)
theory Prelude
  imports Main "HOL-Library.Word"
begin

text \<open>
  Shared by every component: the shape of a call's outcome and the \<open>?\<close> operator over it,
  Rust's saturating arithmetic on \<open>u64\<close>, the text helpers that \<open>format!\<close> and
  \<open>[String]::join\<close> need, and general lemmas on lists.

  An outcome of type \<open>('e, 'a, 'w) outcome\<close> is
  \<^item> \<open>None\<close>: the call does not return (it runs for ever, or it unwinds with a panic);
  \<^item> \<open>Some (Inl e, w)\<close>: it returns the error \<open>e\<close>, the world being \<open>w\<close>;
  \<^item> \<open>Some (Inr x, w)\<close>: it returns \<open>Ok x\<close>, the world being \<open>w\<close>.
\<close>

named_theorems outcome_simps \<open>evaluation of the outcome combinators\<close>
named_theorems frame_simps \<open>what an operation leaves unchanged\<close>

type_synonym u8 = "8 word"
type_synonym u32 = "32 word"
type_synonym u64 = "64 word"

type_synonym ('e, 'a, 'w) outcome = "(('e + 'a) \<times> 'w) option"

section \<open>Outcomes\<close>

definition then_ok ::
  "('e, 'a, 'w) outcome \<Rightarrow> ('a \<Rightarrow> 'w \<Rightarrow> ('e, 'b, 'w) outcome) \<Rightarrow> ('e, 'b, 'w) outcome" where
  "then_ok m k = (case m of
       None \<Rightarrow> None
     | Some (Inl e, w) \<Rightarrow> Some (Inl e, w)
     | Some (Inr x, w) \<Rightarrow> k x w)"

lemma then_ok_None [simp, outcome_simps]: "then_ok None k = None"
  by (simp add: then_ok_def)

lemma then_ok_Inl [simp, outcome_simps]: "then_ok (Some (Inl e, w)) k = Some (Inl e, w)"
  by (simp add: then_ok_def)

lemma then_ok_Inr [simp, outcome_simps]: "then_ok (Some (Inr x, w)) k = k x w"
  by (simp add: then_ok_def)

lemma then_ok_Some_Inr:
  "then_ok m k = Some (Inr y, w) \<longleftrightarrow>
     (\<exists>x w'. m = Some (Inr x, w') \<and> k x w' = Some (Inr y, w))"
  by (auto simp: then_ok_def split: option.splits sum.splits)

lemma then_ok_Some:
  "then_ok m k = Some r \<longleftrightarrow>
     (\<exists>e w. m = Some (Inl e, w) \<and> r = (Inl e, w)) \<or>
     (\<exists>x w. m = Some (Inr x, w) \<and> k x w = Some r)"
  by (auto simp: then_ok_def split: option.splits sum.splits)

lemma then_ok_eq_None:
  "then_ok m k = None \<longleftrightarrow> m = None \<or> (\<exists>x w. m = Some (Inr x, w) \<and> k x w = None)"
  by (auto simp: then_ok_def split: option.splits sum.splits)

section \<open>Saturating arithmetic on u64\<close>

definition sat_mul :: "u64 \<Rightarrow> u64 \<Rightarrow> u64" where
  "sat_mul a b = (if unat a * unat b < 2 ^ 64 then a * b else - 1)"

definition sat_add :: "u64 \<Rightarrow> u64 \<Rightarrow> u64" where
  "sat_add a b = (if unat a + unat b < 2 ^ 64 then a + b else - 1)"

definition sat_sub :: "u64 \<Rightarrow> u64 \<Rightarrow> u64" where
  "sat_sub a b = (if b \<le> a then a - b else 0)"

lemma unat_minus_one_u64: "unat (- 1 :: u64) = 2 ^ 64 - 1"
  by (simp add: unsigned_minus_1_eq_mask mask_eq_exp_minus_1)

lemma unat_sat_mul: "unat (sat_mul a b) = min (unat a * unat b) (2 ^ 64 - 1)"
proof (cases "unat a * unat b < 2 ^ 64")
  case True
  then have "unat (a * b) = unat a * unat b"
    by (simp add: unat_word_ariths)
  with True show ?thesis by (simp add: sat_mul_def)
next
  case False
  then show ?thesis by (simp add: sat_mul_def unat_minus_one_u64)
qed

lemma unat_sat_add: "unat (sat_add a b) = min (unat a + unat b) (2 ^ 64 - 1)"
proof (cases "unat a + unat b < 2 ^ 64")
  case True
  then have "unat (a + b) = unat a + unat b"
    by (simp add: unat_word_ariths)
  with True show ?thesis by (simp add: sat_add_def)
next
  case False
  then show ?thesis by (simp add: sat_add_def unat_minus_one_u64)
qed

lemma unat_sat_sub: "unat (sat_sub a b) = unat a - unat b"
  by (simp add: sat_sub_def unat_sub word_le_nat_alt)

section \<open>Text\<close>

definition digit_char :: "nat \<Rightarrow> char" where
  "digit_char d = char_of (48 + d)"

fun show_nat :: "nat \<Rightarrow> string" where
  "show_nat n = (if n < 10 then [digit_char n] else show_nat (n div 10) @ [digit_char (n mod 10)])"

declare show_nat.simps [simp del]

fun join :: "string \<Rightarrow> string list \<Rightarrow> string" where
  "join sep [] = []"
| "join sep [x] = x"
| "join sep (x # y # zs) = x @ sep @ join sep (y # zs)"

text \<open>A text between single quotation marks.\<close>

definition quoted :: "string \<Rightarrow> string" where
  "quoted s = [CHR 0x27] @ s @ [CHR 0x27]"

lemma show_nat_nonempty: "show_nat n \<noteq> []"
  by (subst show_nat.simps) simp

section \<open>Lists\<close>

lemma list_update_map_nth:
  "i < length xs \<Longrightarrow> map f (xs[i := v]) = (map f xs)[i := f v]"
  by (simp add: map_update)

definition last_opt :: "'a list \<Rightarrow> 'a option" where
  "last_opt xs = (if xs = [] then None else Some (last xs))"

lemma last_opt_snoc [simp]: "last_opt (xs @ [x]) = Some x"
  by (simp add: last_opt_def)

lemma last_opt_Nil [simp]: "last_opt [] = None"
  by (simp add: last_opt_def)

lemma last_opt_eq_None [simp]: "last_opt xs = None \<longleftrightarrow> xs = []"
  by (simp add: last_opt_def)

lemma last_opt_in_set: "last_opt xs = Some x \<Longrightarrow> x \<in> set xs"
  by (auto simp: last_opt_def split: if_splits)

lemma list_all2_last: "list_all2 P xs ys \<Longrightarrow> xs \<noteq> [] \<Longrightarrow> P (last xs) (last ys)"
  by (induction rule: list_all2_induct) auto

end
