(* ===== verification/F64.thy ===== *)
theory F64
  imports Prelude Complex_Main
begin

text \<open>
  Rust's \<open>f64\<close> (IEEE 754 binary64), as far as the program computes with it: costs and
  budgets are added, subtracted, multiplied by literals, compared with \<open>>\<close> and printed with
  \<open>{:.4}\<close>. A finite value is the rational number it stands for; every operation rounds its
  exact result to nearest, ties to even, with 53 bits of precision and the subnormal range.
  The two zeros are one value here: no operation of the program tells them apart but the sign
  that \<open>{:.4}\<close> would print.
\<close>

datatype f64 = NaN | Infty bool \<comment> \<open>\<open>True\<close> for minus infinity\<close> | Fin rat

section \<open>Rounding\<close>

fun ilog2_nat :: "nat \<Rightarrow> nat" where
  "ilog2_nat n = (if n < 2 then 0 else Suc (ilog2_nat (n div 2)))"

declare ilog2_nat.simps [simp del]

definition pow2 :: "int \<Rightarrow> rat" where
  "pow2 e = (if 0 \<le> e then 2 ^ nat e else 1 / 2 ^ nat (- e))"

definition ilog2 :: "rat \<Rightarrow> int" where
  "ilog2 r = (case quotient_of r of (n, d) \<Rightarrow>
     (let e = int (ilog2_nat (nat n)) - int (ilog2_nat (nat d))
      in if pow2 e \<le> r then e else e - 1))"

definition round_half_even :: "rat \<Rightarrow> int" where
  "round_half_even x = (let f = floor x; d = x - of_int f in
     if d < 1 / 2 then f else if d > 1 / 2 then f + 1 else if even f then f else f + 1)"

definition round64 :: "rat \<Rightarrow> f64" where
  "round64 r = (if r = 0 then Fin 0 else
     (let a = \<bar>r\<bar>; e = max (ilog2 a) (- 1022); u = pow2 (e - 52);
          v = of_int (round_half_even (a / u)) * u
      in if pow2 1024 \<le> v then Infty (r < 0) else Fin (if r < 0 then - v else v)))"

section \<open>Operations\<close>

fun fneg :: "f64 \<Rightarrow> f64" where
  "fneg NaN = NaN"
| "fneg (Infty s) = Infty (\<not> s)"
| "fneg (Fin x) = Fin (- x)"

fun fadd :: "f64 \<Rightarrow> f64 \<Rightarrow> f64" where
  "fadd (Fin x) (Fin y) = round64 (x + y)"
| "fadd (Infty s) (Infty t) = (if s = t then Infty s else NaN)"
| "fadd (Infty s) (Fin y) = Infty s"
| "fadd (Fin x) (Infty t) = Infty t"
| "fadd _ _ = NaN"

definition fsub :: "f64 \<Rightarrow> f64 \<Rightarrow> f64" where
  "fsub a b = fadd a (fneg b)"

fun fmul :: "f64 \<Rightarrow> f64 \<Rightarrow> f64" where
  "fmul (Fin x) (Fin y) = round64 (x * y)"
| "fmul (Infty s) (Infty t) = Infty (s \<noteq> t)"
| "fmul (Infty s) (Fin y) = (if y = 0 then NaN else Infty (s \<noteq> (y < 0)))"
| "fmul (Fin x) (Infty t) = (if x = 0 then NaN else Infty (t \<noteq> (x < 0)))"
| "fmul _ _ = NaN"

text \<open>\<open>a > b\<close>: false whenever an operand is a NaN.\<close>

fun fgt :: "f64 \<Rightarrow> f64 \<Rightarrow> bool" where
  "fgt (Fin x) (Fin y) = (y < x)"
| "fgt (Infty s) (Infty t) = (\<not> s \<and> t)"
| "fgt (Infty s) (Fin y) = (\<not> s)"
| "fgt (Fin x) (Infty t) = t"
| "fgt _ _ = False"

definition fge :: "f64 \<Rightarrow> f64 \<Rightarrow> bool" where
  "fge a b \<longleftrightarrow> fgt a b \<or> a = b \<and> a \<noteq> NaN"

definition f64_of_u32 :: "u32 \<Rightarrow> f64" where
  "f64_of_u32 n = Fin (of_nat (unat n))"

section \<open>Printing with four decimals\<close>

definition pad4 :: "nat \<Rightarrow> string" where
  "pad4 n = [digit_char (n div 1000 mod 10), digit_char (n div 100 mod 10),
             digit_char (n div 10 mod 10), digit_char (n mod 10)]"

fun fmt4 :: "f64 \<Rightarrow> string" where
  "fmt4 NaN = ''NaN''"
| "fmt4 (Infty s) = (if s then ''-inf'' else ''inf'')"
| "fmt4 (Fin x) = (let q = nat (round_half_even (\<bar>x\<bar> * 10000)) in
     (if x < 0 then ''-'' else []) @ show_nat (q div 10000) @ ''.'' @ pad4 (q mod 10000))"

text \<open>\<open>{:.2}\<close>, which the payment example prints with.\<close>

fun fmt2 :: "f64 \<Rightarrow> string" where
  "fmt2 NaN = ''NaN''"
| "fmt2 (Infty s) = (if s then ''-inf'' else ''inf'')"
| "fmt2 (Fin x) = (let q = nat (round_half_even (\<bar>x\<bar> * 100)) in
     (if x < 0 then ''-'' else []) @ show_nat (q div 100) @ ''.'' @
     [digit_char (q div 10 mod 10), digit_char (q mod 10)])"

section \<open>Facts\<close>

lemma fgt_NaN [simp]: "\<not> fgt NaN b" "\<not> fgt a NaN"
  by simp_all

lemma fgt_irrefl [simp]: "\<not> fgt a a"
  by (cases a) auto

lemma fgt_asym: "fgt a b \<Longrightarrow> \<not> fgt b a"
  by (cases a; cases b) auto

lemma fgt_trans: "fgt a b \<Longrightarrow> fgt b c \<Longrightarrow> fgt a c"
  by (cases a; cases b; cases c) auto

lemma fadd_commute: "fadd a b = fadd b a"
  by (cases a; cases b) (auto simp: add.commute)

lemma fmul_commute: "fmul a b = fmul b a"
  by (cases a; cases b) (auto simp: mult.commute)

end
