(* ===== verification/Runtime.thy ===== *)
theory Runtime
  imports F64
begin

text \<open>
  What the program takes from its surroundings. The third party crates (\<open>uuid\<close>,
  \<open>serde_json\<close>, \<open>sha2\<close>/\<open>hex\<close>, \<open>rand\<close>) and the wall clock are the fields of an
  environment record \<open>env\<close>, which every definition that uses them takes as an argument; the
  counters of the readings and draws made so far are the record \<open>sys\<close>, which is threaded.
  A \<open>serde_json::Value\<close> is the datatype \<open>json\<close>, because the program matches on its
  constructors; an object is the list of its entries in the order of the keys, the order of the
  \<open>BTreeMap\<close> that holds them, so that equal values are equal terms. \<open>Duration\<close> is a number of nanoseconds, with the text \<open>{:?}\<close> prints for it.
\<close>

section \<open>JSON values\<close>

datatype json_number = JInt int | JFloat f64

datatype json =
    JNull
  | JBool bool
  | JNumber json_number
  | JString string
  | JArray "json list"
  | JObject "(string \<times> json) list"

fun json_get :: "string \<Rightarrow> json \<Rightarrow> json option" where
  "json_get k (JObject m) = map_of m k"
| "json_get k _ = None"

fun json_as_str :: "json \<Rightarrow> string option" where
  "json_as_str (JString s) = Some s"
| "json_as_str _ = None"

fun json_as_array :: "json \<Rightarrow> json list option" where
  "json_as_array (JArray xs) = Some xs"
| "json_as_array _ = None"

fun json_is_i64 :: "json_number \<Rightarrow> bool" where
  "json_is_i64 (JInt i) = (- (2 ^ 63) \<le> i \<and> i < 2 ^ 63)"
| "json_is_i64 (JFloat _) = False"

fun json_is_u64 :: "json_number \<Rightarrow> bool" where
  "json_is_u64 (JInt i) = (0 \<le> i \<and> i < 2 ^ 64)"
| "json_is_u64 (JFloat _) = False"

section \<open>The environment\<close>

text \<open>A UUID is the number its 128 bits spell; a point in time is nanoseconds since the epoch.\<close>

type_synonym uuid = nat
type_synonym timestamp = int
type_synonym duration = nat

record 's env =
  e_overflow_checks :: bool       \<comment> \<open>the build profile: does integer overflow panic or wrap?\<close>
  e_now :: "nat \<Rightarrow> timestamp"     \<comment> \<open>the n-th reading of \<open>Utc::now\<close>\<close>
  e_min_time :: timestamp         \<comment> \<open>the least \<open>DateTime<Utc>\<close>\<close>
  e_rand :: "nat \<Rightarrow> u64"          \<comment> \<open>the n-th \<open>rand::random::<u64>\<close>\<close>
  e_uuid4 :: "nat \<Rightarrow> uuid"        \<comment> \<open>the n-th \<open>Uuid::new_v4\<close>\<close>
  e_uuid5 :: "string \<Rightarrow> uuid"     \<comment> \<open>\<open>Uuid::new_v5\<close> in the OID namespace\<close>
  e_uuid_text :: "uuid \<Rightarrow> string" \<comment> \<open>\<open>Uuid::to_string\<close>\<close>
  e_from_std :: "duration \<Rightarrow> string + duration" \<comment> \<open>\<open>chrono::Duration::from_std\<close>\<close>
  e_to_value :: "'s \<Rightarrow> string + json"    \<comment> \<open>\<open>serde_json::to_value\<close> of a state\<close>
  e_from_value :: "json \<Rightarrow> string + 's"  \<comment> \<open>\<open>serde_json::from_value\<close> to a state\<close>
  e_state_text :: "'s \<Rightarrow> string option"  \<comment> \<open>\<open>serde_json::to_string\<close> of a state\<close>
  e_value_text :: "json \<Rightarrow> string option" \<comment> \<open>\<open>serde_json::to_string\<close> of a value\<close>
  e_sha256_hex :: "string \<Rightarrow> string"     \<comment> \<open>\<open>hex::encode\<close> of \<open>Sha256\<close>\<close>
  e_debug_json :: "json \<Rightarrow> string"       \<comment> \<open>\<open>{:?}\<close> of a value\<close>
  e_debug_str :: "string \<Rightarrow> string"      \<comment> \<open>\<open>{:?}\<close> of a string\<close>

record sys =
  now_reads :: nat
  uuid_draws :: nat
  rand_draws :: nat

definition utc_now :: "'s env \<Rightarrow> sys \<Rightarrow> timestamp \<times> sys" where
  "utc_now env y = (e_now env (now_reads y), y\<lparr>now_reads := Suc (now_reads y)\<rparr>)"

definition new_v4 :: "'s env \<Rightarrow> sys \<Rightarrow> uuid \<times> sys" where
  "new_v4 env y = (e_uuid4 env (uuid_draws y), y\<lparr>uuid_draws := Suc (uuid_draws y)\<rparr>)"

definition random_u64 :: "'s env \<Rightarrow> sys \<Rightarrow> u64 \<times> sys" where
  "random_u64 env y = (e_rand env (rand_draws y), y\<lparr>rand_draws := Suc (rand_draws y)\<rparr>)"

text \<open>Distinct draws give distinct UUIDs, and their texts differ: what \<open>uuid\<close> documents.\<close>

definition uuids_fresh :: "'s env \<Rightarrow> bool" where
  "uuids_fresh env \<longleftrightarrow> inj (e_uuid4 env) \<and> inj (e_uuid_text env)"

section \<open>The text of a duration\<close>

fun drop_zeros :: "nat \<Rightarrow> nat \<Rightarrow> nat list" where
  \<comment> \<open>the decimal digits of a fraction of \<open>w\<close> places, without trailing zeros\<close>
  "drop_zeros 0 n = []"
| "drop_zeros (Suc w) n =
     (if n = 0 then [] else n div 10 ^ w # drop_zeros w (n mod 10 ^ w))"

definition fmt_decimal :: "nat \<Rightarrow> nat \<Rightarrow> nat \<Rightarrow> string" where
  "fmt_decimal i fr w =
     show_nat i @ (if fr = 0 then [] else ''.'' @ map digit_char (drop_zeros w fr))"

definition debug_duration :: "duration \<Rightarrow> string" where
  "debug_duration d =
     (let secs = d div 1000000000; nanos = d mod 1000000000 in
      if 0 < secs then fmt_decimal secs nanos 9 @ ''s''
      else if 1000000 \<le> nanos then fmt_decimal (nanos div 1000000) (nanos mod 1000000) 6 @ ''ms''
      else if 1000 \<le> nanos then
        fmt_decimal (nanos div 1000) (nanos mod 1000) 3 @ [CHR 0xC2, CHR 0xB5] @ ''s''
      else fmt_decimal nanos 0 1 @ ''ns'')"

definition debug_list :: "('a \<Rightarrow> string) \<Rightarrow> 'a list \<Rightarrow> string" where
  "debug_list f xs = ''['' @ join '', '' (map f xs) @ '']''"

definition euro :: string where
  "euro = [CHR 0xE2, CHR 0x82, CHR 0xAC]"

section \<open>Progress\<close>

text \<open>No reading of the clock and no draw of an identifier is taken back.\<close>

definition later :: "sys \<Rightarrow> sys \<Rightarrow> bool" where
  "later y y' \<longleftrightarrow> now_reads y \<le> now_reads y' \<and> uuid_draws y \<le> uuid_draws y'"

lemma later_refl [simp, intro]: "later y y"
  by (simp add: later_def)

lemma later_trans [trans]: "later y y' \<Longrightarrow> later y' y'' \<Longrightarrow> later y y''"
  by (simp add: later_def)

lemma later_counters:
  "later y (snd (new_v4 env y))" "later y (snd (utc_now env y))"
  by (simp_all add: later_def new_v4_def utc_now_def)

section \<open>A sample environment\<close>

text \<open>
  An instance of the environment for the witnesses, over states that are numbers: every law that
  a property asks of its environment holds of it.
\<close>

definition sample_env :: "nat env" where
  "sample_env = \<lparr>e_overflow_checks = True, e_now = (\<lambda>n. int n), e_min_time = - (10 ^ 24),
     e_rand = (\<lambda>n. of_nat (n * 7919)), e_uuid4 = (\<lambda>n. n), e_uuid5 = length,
     e_uuid_text = (\<lambda>u. replicate u (CHR ''u'')), e_from_std = Inr,
     e_to_value = (\<lambda>s. Inr (JNumber (JInt (int s)))),
     e_from_value = (\<lambda>v. case v of JNumber (JInt i) \<Rightarrow> Inr (nat i) | _ \<Rightarrow> Inl ''invalid type''),
     e_state_text = (\<lambda>s. Some (show_nat s)), e_value_text = (\<lambda>_. Some ''value''),
     e_sha256_hex = (\<lambda>t. t), e_debug_json = (\<lambda>_. ''value''), e_debug_str = (\<lambda>s. s)\<rparr>"

definition sample_sys :: sys where
  "sample_sys = \<lparr>now_reads = 0, uuid_draws = 0, rand_draws = 0\<rparr>"

lemma sample_env_fresh: "uuids_fresh sample_env"
proof -
  have "inj (\<lambda>u :: nat. replicate u (CHR ''u''))"
    by (rule injI) (metis length_replicate)
  then show ?thesis by (simp add: uuids_fresh_def sample_env_def)
qed

end
