(* ===== verification/Hitl.thy ===== *)
theory Hitl
  imports Runtime
begin

text \<open>
  \<open>src/hitl.rs\<close>: the structured request a node yields, how it is resumed, the audit record of
  a resume and the hash of the response.
\<close>

datatype ResumeMode = ReEntry | Handoff

record YieldRequest =
  yr_interrupt_id :: string
  yr_message :: string
  yr_schema :: "json option"
  yr_resume_mode :: ResumeMode
  yr_payload_ref :: "string option"

definition resume_mode_default :: ResumeMode where
  "resume_mode_default = ReEntry"

definition yield_simple :: "string \<Rightarrow> YieldRequest" where
  "yield_simple msg = \<lparr>yr_interrupt_id = msg, yr_message = msg, yr_schema = None,
     yr_resume_mode = resume_mode_default, yr_payload_ref = None\<rparr>"

definition yield_new :: "string \<Rightarrow> string \<Rightarrow> YieldRequest" where
  "yield_new i msg = \<lparr>yr_interrupt_id = i, yr_message = msg, yr_schema = None,
     yr_resume_mode = resume_mode_default, yr_payload_ref = None\<rparr>"

definition with_schema :: "json \<Rightarrow> YieldRequest \<Rightarrow> YieldRequest" where
  "with_schema s r = r\<lparr>yr_schema := Some s\<rparr>"

definition with_resume_mode :: "ResumeMode \<Rightarrow> YieldRequest \<Rightarrow> YieldRequest" where
  "with_resume_mode m r = r\<lparr>yr_resume_mode := m\<rparr>"

definition with_payload_ref :: "string \<Rightarrow> YieldRequest \<Rightarrow> YieldRequest" where
  "with_payload_ref p r = r\<lparr>yr_payload_ref := Some p\<rparr>"

definition display_yield :: "YieldRequest \<Rightarrow> string" where
  "display_yield r = ''['' @ yr_interrupt_id r @ ''] '' @ yr_message r"

record ResumeContext =
  rc_actor :: "string option"
  rc_metadata :: "json option"

definition resume_context_new :: "string \<Rightarrow> ResumeContext" where
  "resume_context_new a = \<lparr>rc_actor = Some a, rc_metadata = None\<rparr>"

definition resume_context_with_metadata :: "json \<Rightarrow> ResumeContext \<Rightarrow> ResumeContext" where
  "resume_context_with_metadata m c = c\<lparr>rc_metadata := Some m\<rparr>"

record ResumeRecord =
  rr_interrupt_id :: string
  rr_thread_id :: string
  rr_node_name :: string
  rr_actor :: "string option"
  rr_resumed_at :: timestamp
  rr_response_hash :: string

text \<open>\<open>serde_json::to_string(input).unwrap_or_default()\<close>, hashed.\<close>

definition compute_response_hash :: "'s env \<Rightarrow> json \<Rightarrow> string" where
  "compute_response_hash env input =
     e_sha256_hex env (case e_value_text env input of None \<Rightarrow> [] | Some t \<Rightarrow> t)"

end
