(* ===== verification/Errors.thy ===== *)
theory Errors
  imports Hitl
begin

text \<open>
  \<open>src/error.rs\<close>: the signals a node returns and the errors the runner returns, with the texts
  their \<open>Display\<close> implementations give.
\<close>

datatype GraphError =
    Retryable string
  | Fatal string
  | Yield YieldRequest
  | GBudgetExceeded (g_spent: f64) (g_limit: f64)
  | YieldInDynamicNode string

datatype TakelnError =
    NodeNotFound string
  | CheckpointError string
  | BudgetExceeded (spent_eur: f64) (limit_eur: f64)
  | DAGDeadlock string
  | JoinError string
  | ExecutionError string
  | SerializationError string
  | DeserializationError string
  | RecursionLimitExceeded u8 u8
  | PartialWaveFailure (succeeded: "string list") (failed: "(string \<times> string) list")
  | NothingToResume string
  | InvalidResume string
  | SchemaValidationFailed (sv_interrupt_id: string) (sv_reason: string)
  | StepLimitExceeded (sl_steps: nat) (sl_limit: nat)

definition display_budget :: "f64 \<Rightarrow> f64 \<Rightarrow> string" where
  "display_budget spent limit =
     ''Budget exceeded: spent '' @ fmt4 spent @ euro @ '' of '' @ fmt4 limit @ euro @ '' limit''"

fun display_graph_error :: "GraphError \<Rightarrow> string" where
  "display_graph_error (Retryable m) = ''Retryable error: '' @ m"
| "display_graph_error (Fatal m) = ''Fatal error: '' @ m"
| "display_graph_error (Yield r) = ''Suspended/Yielded: '' @ display_yield r"
| "display_graph_error (GBudgetExceeded s l) = display_budget s l"
| "display_graph_error (YieldInDynamicNode i) =
     ''HITL yield inside dynamic node is not supported (interrupt: '' @ quoted i @
     ''). Move the yielding node to a top-level graph node.''"

definition debug_pair :: "'s env \<Rightarrow> string \<times> string \<Rightarrow> string" where
  "debug_pair env p =
     ''('' @ e_debug_str env (fst p) @ '', '' @ e_debug_str env (snd p) @ '')''"

fun display_takeln_error :: "'s env \<Rightarrow> TakelnError \<Rightarrow> string" where
  "display_takeln_error env (NodeNotFound n) = ''Node '' @ quoted n @ '' not found in graph registry''"
| "display_takeln_error env (CheckpointError m) = ''Checkpoint failure: '' @ m"
| "display_takeln_error env (BudgetExceeded s l) = display_budget s l"
| "display_takeln_error env (DAGDeadlock m) =
     ''DAG deadlock '' @ [CHR 0xE2, CHR 0x80, CHR 0x94] @
     '' pending nodes with no satisfied dependencies: '' @ m"
| "display_takeln_error env (JoinError m) = ''JoinSet panic: '' @ m"
| "display_takeln_error env (ExecutionError m) = ''Execution error: '' @ m"
| "display_takeln_error env (SerializationError m) = ''Serialization error: '' @ m"
| "display_takeln_error env (DeserializationError m) = ''Deserialization error: '' @ m"
| "display_takeln_error env (RecursionLimitExceeded d l) =
     ''DAG recursion depth '' @ show_nat (unat d) @ '' exceeds global cap '' @ show_nat (unat l)"
| "display_takeln_error env (PartialWaveFailure s f) =
     ''Partial wave failure: '' @ debug_list (e_debug_str env) s @ '' succeeded, '' @
     debug_list (debug_pair env) f @ '' failed''"
| "display_takeln_error env (NothingToResume t) =
     ''Nothing to resume for thread '' @ quoted t"
| "display_takeln_error env (InvalidResume m) = ''Invalid resume: '' @ m"
| "display_takeln_error env (SchemaValidationFailed i r) =
     ''Schema validation failed for interrupt '' @ quoted i @ '': '' @ r"
| "display_takeln_error env (StepLimitExceeded n l) =
     ''Sequential step limit exceeded: '' @ show_nat n @ '' steps (limit: '' @ show_nat l @ '')''"

end
