(* ===== verification/Dag.thy ===== *)
theory Dag
  imports Errors "HOL-Library.List_Lexorder" "HOL-Library.Char_ord"
begin

text \<open>
  \<open>src/dag.rs\<close>: the DAG a wave scheduler executes, its builder with string-based
  dependencies, and the check for cycles (Kahn's algorithm on in-degrees). A \<open>usize\<close> in-degree
  is a natural number whose decrement at 0 panics or wraps, as the build profile says; Rust's
  vectors are shorter than \<open>2 ^ 64\<close>, so nothing else in the file can overflow.
\<close>

section \<open>Data\<close>

datatype NodeStatus = Pending | Running | Done | Failed | Yielded

record DAGNode =
  dn_id :: uuid
  dn_step_type :: string
  dn_depends_on :: "uuid list"
  dn_status :: NodeStatus

record DAG =
  dag_id :: uuid
  dag_nodes :: "DAGNode list"
  dag_created_at :: timestamp

definition dag_new :: "'s env \<Rightarrow> sys \<Rightarrow> DAG \<times> sys" where
  "dag_new env y =
     (let (i, y) = new_v4 env y; (t, y) = utc_now env y
      in (\<lparr>dag_id = i, dag_nodes = [], dag_created_at = t\<rparr>, y))"

definition dag_add_node ::
  "'s env \<Rightarrow> string \<Rightarrow> uuid list \<Rightarrow> DAG \<Rightarrow> sys \<Rightarrow> uuid \<times> DAG \<times> sys" where
  "dag_add_node env st deps d y =
     (let (i, y) = new_v4 env y in
      (i, d\<lparr>dag_nodes := dag_nodes d @ [\<lparr>dn_id = i, dn_step_type = st,
          dn_depends_on = deps, dn_status = NodeStatus.Pending\<rparr>]\<rparr>, y))"

text \<open>Collecting pairs into a \<open>HashMap\<close>: a later pair replaces an earlier one.\<close>

definition status_map :: "DAGNode list \<Rightarrow> uuid \<rightharpoonup> NodeStatus" where
  "status_map ns = fold (\<lambda>n m. m(dn_id n \<mapsto> dn_status n)) ns Map.empty"

definition restore_node :: "(uuid \<rightharpoonup> NodeStatus) \<Rightarrow> DAGNode \<Rightarrow> DAGNode" where
  "restore_node m n = (case m (dn_id n) of None \<Rightarrow> n | Some s \<Rightarrow> n\<lparr>dn_status := s\<rparr>)"

definition restore_statuses :: "DAG \<Rightarrow> DAG \<Rightarrow> DAG" where
  "restore_statuses d checkpointed =
     d\<lparr>dag_nodes := map (restore_node (status_map (dag_nodes checkpointed))) (dag_nodes d)\<rparr>"

section \<open>The builder\<close>

type_synonym entry = "string \<times> string list"

record DAGBuilder =
  db_entries :: "entry list"
  db_allowed :: "string list option"  \<comment> \<open>a \<open>BTreeSet\<close>: sorted, without repetition\<close>

definition dag_builder :: DAGBuilder where
  "dag_builder = \<lparr>db_entries = [], db_allowed = None\<rparr>"

definition allow_step_types :: "string list \<Rightarrow> DAGBuilder \<Rightarrow> DAGBuilder" where
  "allow_step_types ts b = b\<lparr>db_allowed := Some (sort (remdups ts))\<rparr>"

definition builder_node :: "string \<Rightarrow> string list \<Rightarrow> DAGBuilder \<Rightarrow> DAGBuilder" where
  "builder_node st deps b = b\<lparr>db_entries := db_entries b @ [(st, deps)]\<rparr>"

definition offenders :: "entry list \<Rightarrow> string list \<Rightarrow> string list" where
  "offenders es allowed = filter (\<lambda>st. st \<notin> set allowed) (map fst es)"

definition check_step_types :: "DAGBuilder \<Rightarrow> string option" where
  "check_step_types b = (case db_allowed b of
       None \<Rightarrow> None
     | Some allowed \<Rightarrow>
         (let off = offenders (db_entries b) allowed;
              declared = (if allowed = [] then ''none declared'' else join '', '' allowed)
          in if off = [] then None
             else Some (''step type(s) not allowed: '' @ join '', '' off @
                        '' (allowed: '' @ declared @ '')'')))"

fun assign_ids :: "'s env \<Rightarrow> entry list \<Rightarrow> (string \<rightharpoonup> uuid) \<Rightarrow> sys \<Rightarrow> (string \<rightharpoonup> uuid) \<times> sys" where
  "assign_ids env [] m y = (m, y)"
| "assign_ids env ((st, _) # es) m y =
     (let (i, y) = new_v4 env y in assign_ids env es (m(st \<mapsto> i)) y)"

definition missing_dependency :: "string \<Rightarrow> string \<Rightarrow> string" where
  "missing_dependency dep st =
     ''Dependency '' @ quoted dep @ '' not found for node '' @ quoted st"

fun resolve_deps :: "(string \<rightharpoonup> uuid) \<Rightarrow> string \<Rightarrow> string list \<Rightarrow> string + uuid list" where
  "resolve_deps m st [] = Inr []"
| "resolve_deps m st (d # ds) = (case m d of
       None \<Rightarrow> Inl (missing_dependency d st)
     | Some i \<Rightarrow> (case resolve_deps m st ds of Inl e \<Rightarrow> Inl e | Inr is \<Rightarrow> Inr (i # is)))"

text \<open>
  The second pass. \<open>None\<close> is the panic of the indexing \<open>name_to_id[step_type]\<close>.
\<close>

fun resolve_nodes ::
  "(string \<rightharpoonup> uuid) \<Rightarrow> entry list \<Rightarrow> (string + DAGNode list) option" where
  "resolve_nodes m [] = Some (Inr [])"
| "resolve_nodes m ((st, deps) # es) = (case resolve_deps m st deps of
       Inl e \<Rightarrow> Some (Inl e)
     | Inr is \<Rightarrow> (case m st of
           None \<Rightarrow> None
         | Some i \<Rightarrow> (case resolve_nodes m es of
               None \<Rightarrow> None
             | Some (Inl e) \<Rightarrow> Some (Inl e)
             | Some (Inr ns) \<Rightarrow> Some (Inr (\<lparr>dn_id = i, dn_step_type = st,
                   dn_depends_on = is, dn_status = NodeStatus.Pending\<rparr> # ns)))))"

subsection \<open>Kahn's algorithm\<close>

text \<open>\<open>in_degree[i] -= 1\<close> on \<open>usize\<close>.\<close>

definition dec_usize :: "bool \<Rightarrow> nat \<Rightarrow> nat option" where
  "dec_usize checked d =
     (if d = 0 then (if checked then None else Some (2 ^ 64 - 1)) else Some (d - 1))"

fun relax :: "bool \<Rightarrow> uuid \<Rightarrow> DAGNode list \<Rightarrow> nat \<Rightarrow> nat list \<Rightarrow> nat list \<Rightarrow>
    (nat list \<times> nat list) option" where
  "relax checked u [] i deg q = Some (deg, q)"
| "relax checked u (n # ns) i deg q =
     (if u \<in> set (dn_depends_on n)
      then (case dec_usize checked (deg ! i) of
          None \<Rightarrow> None
        | Some d \<Rightarrow> relax checked u ns (Suc i) (deg[i := d]) (if d = 0 then q @ [i] else q))
      else relax checked u ns (Suc i) deg q)"

partial_function (option) kahn ::
  "bool \<Rightarrow> DAGNode list \<Rightarrow> nat list \<Rightarrow> nat list \<Rightarrow> nat \<Rightarrow> nat option" where
  "kahn checked ns q deg visited = (case q of
       [] \<Rightarrow> Some visited
     | idx # q' \<Rightarrow> (case relax checked (dn_id (ns ! idx)) ns 0 deg q' of
           None \<Rightarrow> None
         | Some (deg', q'') \<Rightarrow> kahn checked ns q'' deg' (Suc visited)))"

definition in_degrees :: "DAGNode list \<Rightarrow> nat list" where
  "in_degrees ns = map (length \<circ> dn_depends_on) ns"

definition kahn_visited :: "bool \<Rightarrow> DAGNode list \<Rightarrow> nat option" where
  "kahn_visited checked ns =
     (let deg = in_degrees ns
      in kahn checked ns (filter (\<lambda>i. deg ! i = 0) [0..<length ns]) deg 0)"

definition build :: "'s env \<Rightarrow> DAGBuilder \<Rightarrow> sys \<Rightarrow> (string, DAG, sys) outcome" where
  "build env b y = (case check_step_types b of
       Some msg \<Rightarrow> Some (Inl msg, y)
     | None \<Rightarrow>
         (let (dag, y) = dag_new env y;
              (name_to_id, y) = assign_ids env (db_entries b) Map.empty y
          in case resolve_nodes name_to_id (db_entries b) of
               None \<Rightarrow> None
             | Some (Inl e) \<Rightarrow> Some (Inl e, y)
             | Some (Inr ns) \<Rightarrow> (case kahn_visited (e_overflow_checks env) ns of
                   None \<Rightarrow> None
                 | Some visited \<Rightarrow>
                     if visited \<noteq> length ns then Some (Inl ''Cycle detected in DAG'', y)
                     else Some (Inr (dag\<lparr>dag_nodes := ns\<rparr>), y))))"

end
