(* ===== verification/Checkpoint.thy ===== *)
theory Checkpoint
  imports Dag
begin

text \<open>
  \<open>src/checkpoint.rs\<close> and \<open>src/checkpoint_meta.rs\<close>: what a checkpoint is and the
  \<open>Checkpointer\<close> trait as a record of operations over a store, with the trait's default methods.
  The contract every store of the repository keeps is the locale \<open>checkpoint_journal\<close>: the store
  is a journal of entries per thread, a save appends, a load reads the last entry, and a claim is
  the compare-and-swap \<open>journal_claim\<close>.
\<close>

section \<open>Data\<close>

datatype CheckpointStatus = Complete | Running | Yielded | Failed | Interrupted

record CheckpointMeta =
  cm_checkpoint_id :: string
  cm_thread_id :: string
  cm_next_node :: string
  cm_graph_version :: "string option"
  cm_state_schema_version :: "string option"
  cm_status :: CheckpointStatus
  cm_created_at :: timestamp
  cm_yield_request :: "YieldRequest option"
  cm_claimed_interrupt :: "string option"
  cm_resolved_interrupt :: "string option"

datatype RetentionPolicy = KeepAll | KeepLast nat | OlderThan duration

datatype CrashRecoveryPolicy = ResetToPending | FailFast | SkipAndContinue

datatype ClaimResult = Claimed | InProgress | AlreadyCompleted

record CheckpointProof =
  pr_authorization_hash :: "string option"
  pr_receipt_chain_count :: u64
  pr_receipt_chain_head :: "string option"
  pr_expected_head :: "string option"

datatype CheckpointSave =
  Created string | Advanced string | IdempotentReplay string | Conflict "string option"

fun save_checkpoint_id :: "CheckpointSave \<Rightarrow> string option" where
  "save_checkpoint_id (Created c) = Some c"
| "save_checkpoint_id (Advanced c) = Some c"
| "save_checkpoint_id (IdempotentReplay c) = Some c"
| "save_checkpoint_id (Conflict _) = None"

text \<open>The text \<open>{:?}\<close> prints for a status.\<close>

fun debug_status :: "CheckpointStatus \<Rightarrow> string" where
  "debug_status CheckpointStatus.Complete = ''Complete''"
| "debug_status CheckpointStatus.Running = ''Running''"
| "debug_status CheckpointStatus.Yielded = ''Yielded''"
| "debug_status CheckpointStatus.Failed = ''Failed''"
| "debug_status CheckpointStatus.Interrupted = ''Interrupted''"

section \<open>The trait\<close>

text \<open>The arguments of \<open>save_state\<close>.\<close>

record 's save_args =
  sa_thread_id :: string
  sa_state :: 's
  sa_next_node :: string
  sa_dag :: "DAG option"
  sa_status :: CheckpointStatus
  sa_yield_request :: "YieldRequest option"
  sa_claimed_interrupt :: "string option"
  sa_resolved_interrupt :: "string option"

type_synonym 's loaded = "('s \<times> CheckpointMeta \<times> DAG option) option"

type_synonym ('a, 'st) store_op = "'st \<times> sys \<Rightarrow> (TakelnError, 'a, 'st \<times> sys) outcome"

record ('s, 'st) checkpointer =
  ck_current_head :: "string \<Rightarrow> (string option, 'st) store_op"
  ck_save_state_bound :: "'s save_args \<Rightarrow> CheckpointProof \<Rightarrow> (CheckpointSave, 'st) store_op"
  ck_save_state :: "'s save_args \<Rightarrow> (string, 'st) store_op"
  ck_load_state :: "string \<Rightarrow> ('s loaded, 'st) store_op"
  ck_load_version :: "string \<Rightarrow> string \<Rightarrow> ('s loaded, 'st) store_op"
  ck_list_checkpoints :: "string \<Rightarrow> (CheckpointMeta list, 'st) store_op"
  ck_delete_checkpoints :: "string \<Rightarrow> RetentionPolicy \<Rightarrow> (nat, 'st) store_op"
  ck_claim_interrupt :: "string \<Rightarrow> string \<Rightarrow> (ClaimResult, 'st) store_op"

text \<open>The default methods: a store without optimistic concurrency has no head and ignores the proof.\<close>

definition default_current_head :: "string \<Rightarrow> (string option, 'st) store_op" where
  "default_current_head thread_id w = Some (Inr None, w)"

definition default_save_state_bound ::
  "('s save_args \<Rightarrow> (string, 'st) store_op) \<Rightarrow>
   's save_args \<Rightarrow> CheckpointProof \<Rightarrow> (CheckpointSave, 'st) store_op" where
  "default_save_state_bound save_state args proof w =
     then_ok (save_state args w) (\<lambda>checkpoint_id w. Some (Inr (Created checkpoint_id), w))"

section \<open>The abstract journal\<close>

record 'v journal_entry =
  je_checkpoint_id :: string
  je_state :: 'v
  je_next_node :: string
  je_dag :: "DAG option"
  je_status :: CheckpointStatus
  je_created_at :: timestamp
  je_yield_request :: "YieldRequest option"
  je_claimed_interrupt :: "string option"
  je_resolved_interrupt :: "string option"

definition entry_of :: "'s save_args \<Rightarrow> 'v \<Rightarrow> string \<Rightarrow> timestamp \<Rightarrow> 'v journal_entry" where
  "entry_of a v i t = \<lparr>je_checkpoint_id = i, je_state = v, je_next_node = sa_next_node a,
     je_dag = sa_dag a, je_status = sa_status a, je_created_at = t,
     je_yield_request = sa_yield_request a, je_claimed_interrupt = sa_claimed_interrupt a,
     je_resolved_interrupt = sa_resolved_interrupt a\<rparr>"

definition meta_of :: "string \<Rightarrow> 'v journal_entry \<Rightarrow> CheckpointMeta" where
  "meta_of t e = \<lparr>cm_checkpoint_id = je_checkpoint_id e, cm_thread_id = t,
     cm_next_node = je_next_node e, cm_graph_version = None, cm_state_schema_version = None,
     cm_status = je_status e, cm_created_at = je_created_at e,
     cm_yield_request = je_yield_request e, cm_claimed_interrupt = je_claimed_interrupt e,
     cm_resolved_interrupt = je_resolved_interrupt e\<rparr>"

definition load_entry ::
  "('v \<Rightarrow> TakelnError + 's) \<Rightarrow> string \<Rightarrow> 'v journal_entry option \<Rightarrow> TakelnError + 's loaded" where
  "load_entry dec t eo = (case eo of
       None \<Rightarrow> Inr None
     | Some e \<Rightarrow> (case dec (je_state e) of
           Inl err \<Rightarrow> Inl err
         | Inr s \<Rightarrow> Inr (Some (s, meta_of t e, je_dag e))))"

text \<open>What a claim decides, whatever the store puts in its error texts.\<close>

datatype verdict = Won | Busy | Settled | Refused

fun verdict_of :: "TakelnError + ClaimResult \<Rightarrow> verdict" where
  "verdict_of (Inr Claimed) = Won"
| "verdict_of (Inr InProgress) = Busy"
| "verdict_of (Inr AlreadyCompleted) = Settled"
| "verdict_of (Inl _) = Refused"

definition resolved_in :: "string \<Rightarrow> 'v journal_entry list \<Rightarrow> bool" where
  "resolved_in i es \<longleftrightarrow> (\<exists>e \<in> set es. je_resolved_interrupt e = Some i)"

definition awaits :: "string \<Rightarrow> 'v journal_entry \<Rightarrow> bool" where
  "awaits i e \<longleftrightarrow> je_status e = CheckpointStatus.Yielded \<and>
     (\<exists>r. je_yield_request e = Some r \<and> yr_interrupt_id r = i)"

definition claim_entry :: "string \<Rightarrow> 'v journal_entry \<Rightarrow> 'v journal_entry" where
  "claim_entry i e = e\<lparr>je_status := CheckpointStatus.Running, je_claimed_interrupt := Some i\<rparr>"

definition journal_claim :: "string \<Rightarrow> 'v journal_entry list \<Rightarrow> verdict \<times> 'v journal_entry list" where
  "journal_claim i es =
     (if resolved_in i es then (Settled, es)
      else case last_opt es of
          None \<Rightarrow> (Refused, es)
        | Some e \<Rightarrow>
            if je_status e = CheckpointStatus.Running \<and> je_claimed_interrupt e = Some i then (Busy, es)
            else if awaits i e then (Won, butlast es @ [claim_entry i e])
            else (Refused, es))"

text \<open>
  Several callers claim interrupts of one thread, one after the other (each claim holds the
  store's lock): what each of them gets.
\<close>

fun run_claims :: "(string \<Rightarrow> (ClaimResult, 'st) store_op) \<Rightarrow> string list \<Rightarrow> 'st \<times> sys \<Rightarrow>
    ((TakelnError + ClaimResult) list \<times> 'st \<times> sys) option" where
  "run_claims claim [] w = Some ([], w)"
| "run_claims claim (i # is) w = (case claim i w of
       None \<Rightarrow> None
     | Some (r, w) \<Rightarrow> (case run_claims claim is w of
           None \<Rightarrow> None
         | Some (rs, w) \<Rightarrow> Some (r # rs, w)))"

definition wins :: "(TakelnError + ClaimResult) list \<Rightarrow> nat" where
  "wins rs = length (filter (\<lambda>r. r = Inr Claimed) rs)"

lemma verdict_of_Won [simp]: "verdict_of r = Won \<longleftrightarrow> r = Inr Claimed"
  by (cases r rule: verdict_of.cases) auto

definition yielded_last :: "'v journal_entry list \<Rightarrow> bool" where
  "yielded_last es \<longleftrightarrow> (\<exists>e. last_opt es = Some e \<and> je_status e = CheckpointStatus.Yielded)"

lemma journal_claim_Won_last:
  "fst (journal_claim i es) = Won \<Longrightarrow> yielded_last es \<and> \<not> yielded_last (snd (journal_claim i es))"
  by (auto simp: journal_claim_def yielded_last_def awaits_def claim_entry_def
      split: if_splits option.splits)

lemma journal_claim_lost: "fst (journal_claim i es) \<noteq> Won \<Longrightarrow> snd (journal_claim i es) = es"
  by (auto simp: journal_claim_def split: if_splits option.splits)

text \<open>
  The store is looked at together with the counters of what was drawn so far, because a store may
  rest on identifiers and times being new: \<open>usable\<close> is a property of both, and it survives further
  draws by others (\<open>later\<close>).
\<close>

locale checkpoint_journal =
  fixes save :: "'s save_args \<Rightarrow> (string, 'st) store_op"
    and load :: "string \<Rightarrow> ('s loaded, 'st) store_op"
    and claim :: "string \<Rightarrow> string \<Rightarrow> (ClaimResult, 'st) store_op"
    and journal :: "'st \<Rightarrow> string \<Rightarrow> 'v journal_entry list"
    and usable :: "'st \<times> sys \<Rightarrow> bool"
    and enc :: "'s \<Rightarrow> TakelnError + 'v"
    and dec :: "'v \<Rightarrow> TakelnError + 's"
  assumes save_ok: "usable p \<Longrightarrow> enc (sa_state a) = Inr v \<Longrightarrow>
      \<exists>i t p'. save a p = Some (Inr i, p') \<and> usable p' \<and> journal (fst p') =
        (journal (fst p))(sa_thread_id a := journal (fst p) (sa_thread_id a) @ [entry_of a v i t])"
    and save_err: "usable p \<Longrightarrow> enc (sa_state a) = Inl e \<Longrightarrow>
      \<exists>p'. save a p = Some (Inl e, p') \<and> usable p' \<and> journal (fst p') = journal (fst p)"
    and load_spec: "usable p \<Longrightarrow>
      \<exists>p'. load t p = Some (load_entry dec t (last_opt (journal (fst p) t)), p') \<and> usable p' \<and>
        journal (fst p') = journal (fst p)"
    and claim_spec: "usable p \<Longrightarrow>
      \<exists>r p'. claim t i p = Some (r, p') \<and> usable p' \<and>
        verdict_of r = fst (journal_claim i (journal (fst p) t)) \<and>
        journal (fst p') = (journal (fst p))(t := snd (journal_claim i (journal (fst p) t)))"
    and usable_later: "usable (st, y) \<Longrightarrow> later y y' \<Longrightarrow> usable (st, y')"
begin

lemma save_effect:
  assumes "usable p" and "save a p = Some (r, p')"
  shows "usable p' \<and> (\<exists>es. journal (fst p') =
     (journal (fst p))(sa_thread_id a := journal (fst p) (sa_thread_id a) @ es))"
proof (cases "enc (sa_state a)")
  case (Inl e)
  from save_err[OF assms(1) Inl] assms(2) have "usable p'" "journal (fst p') = journal (fst p)" by auto
  then show ?thesis by (intro conjI exI[of _ "[]"]) simp_all
next
  case (Inr v)
  from save_ok[OF assms(1) Inr] assms(2) show ?thesis by auto
qed

lemma save_usable: "usable p \<Longrightarrow> save a p = Some (r, p') \<Longrightarrow> usable p'"
  using save_effect by blast

lemma save_then_load:
  assumes "usable p" and "save a p = Some (Inr i, p')"
    and "enc (sa_state a) = Inr v" and "dec v = Inr s"
  shows "\<exists>t p''. load (sa_thread_id a) p' =
     Some (Inr (Some (s, meta_of (sa_thread_id a) (entry_of a v i t), sa_dag a)), p'')"
proof -
  from save_ok[OF assms(1,3)] assms(2) obtain t where u: "usable p'"
    and "journal (fst p') = (journal (fst p))(sa_thread_id a :=
       journal (fst p) (sa_thread_id a) @ [entry_of a v i t])"
    by auto
  then show ?thesis
    using load_spec[OF u, of "sa_thread_id a"] assms(4) by (auto simp: load_entry_def entry_of_def)
qed

lemma save_other_thread:
  assumes "usable p" and "save a p = Some (r, p')" and "t \<noteq> sa_thread_id a"
  shows "journal (fst p') t = journal (fst p) t"
  using save_effect[OF assms(1,2)] assms(3) by auto

lemma save_keeps_history:
  assumes "usable p" and "save a p = Some (r, p')"
  shows "\<exists>es. journal (fst p') t = journal (fst p) t @ es"
proof (cases "t = sa_thread_id a")
  case True
  then show ?thesis using save_effect[OF assms] by auto
next
  case False
  from save_other_thread[OF assms this] show ?thesis by simp
qed

lemma claim_effect:
  assumes "usable p" and "claim t i p = Some (r, p')"
  shows "usable p'" and "verdict_of r = fst (journal_claim i (journal (fst p) t))"
    and "journal (fst p') = (journal (fst p))(t := snd (journal_claim i (journal (fst p) t)))"
  using claim_spec[OF assms(1), of t i] assms(2) by auto

lemma claim_returns: "usable p \<Longrightarrow> \<exists>r p'. claim t i p = Some (r, p')"
  using claim_spec by blast

text \<open>The single winner: once a claim has won, the same claim is refused as busy.\<close>

lemma claim_single_winner:
  assumes "usable p" and "claim t i p = Some (Inr Claimed, p1)"
    and "usable p2" and "journal (fst p2) = journal (fst p1)" and "claim t i p2 = Some (r, p3)"
  shows "r = Inr InProgress" and "journal (fst p3) = journal (fst p1)"
proof -
  let ?J = "journal (fst p) t"
  note e1 = claim_effect[OF assms(1,2)]
  note e2 = claim_effect[OF assms(3,5)]
  from e1(2) obtain e where nr: "\<not> resolved_in i ?J" and lst: "last_opt ?J = Some e" and aw: "awaits i e"
    and j: "snd (journal_claim i ?J) = butlast ?J @ [claim_entry i e]"
    by (auto simp: journal_claim_def split: if_splits option.splits)
  from e1(3) j have j': "journal (fst p1) t = butlast ?J @ [claim_entry i e]" by simp
  have "\<not> resolved_in i (journal (fst p1) t)"
    using nr lst by (auto simp: resolved_in_def j' claim_entry_def last_opt_def
        split: if_splits dest: in_set_butlastD)
  then have v: "journal_claim i (journal (fst p2) t) = (Busy, journal (fst p1) t)"
    by (simp add: journal_claim_def assms(4) j' claim_entry_def)
  with e2(2) show "r = Inr InProgress"
    by (cases r rule: verdict_of.cases) auto
  from e2(3) v assms(4) show "journal (fst p3) = journal (fst p1)" by auto
qed

text \<open>Once an interrupt is resolved in a thread it stays so: no later claim of it can win.\<close>

lemma resolved_stays_save:
  assumes "usable p" and "save a p = Some (r, p')" and "resolved_in i (journal (fst p) t)"
  shows "resolved_in i (journal (fst p') t)"
  using save_keeps_history[OF assms(1,2), of t] assms(3) by (auto simp: resolved_in_def)

lemma resolved_claim_settled:
  assumes "usable p" and "resolved_in i (journal (fst p) t)" and "claim t i p = Some (r, p')"
  shows "r = Inr AlreadyCompleted" and "journal (fst p') = journal (fst p)"
proof -
  note e = claim_effect[OF assms(1,3)]
  from assms(2) have v: "journal_claim i (journal (fst p) t) = (Settled, journal (fst p) t)"
    by (simp add: journal_claim_def)
  with e(2) show "r = Inr AlreadyCompleted" by (cases r rule: verdict_of.cases) auto
  from e(3) v show "journal (fst p') = journal (fst p)" by auto
qed

lemma claim_wins_iff:
  assumes "usable p" and "claim t i p = Some (r, p')"
  shows "r = Inr Claimed \<longleftrightarrow> \<not> resolved_in i (journal (fst p) t) \<and>
     (\<exists>e. last_opt (journal (fst p) t) = Some e \<and> awaits i e)"
proof -
  have "r = Inr Claimed \<longleftrightarrow> verdict_of r = Won" by (cases r rule: verdict_of.cases) auto
  also have "\<dots> \<longleftrightarrow> fst (journal_claim i (journal (fst p) t)) = Won"
    using claim_effect(2)[OF assms] by simp
  finally show ?thesis
    by (auto simp: journal_claim_def awaits_def split: option.splits if_splits)
qed

lemma run_claims_returns: "usable p \<Longrightarrow> \<exists>rs p'. run_claims (claim t) is p = Some (rs, p')"
proof (induction "is" arbitrary: p)
  case (Cons i "is")
  obtain r p1 where c: "claim t i p = Some (r, p1)"
    using claim_returns[OF Cons.prems] by blast
  from Cons.IH[OF claim_effect(1)[OF Cons.prems c]] c show ?case by auto
qed simp

lemma run_claims_wins:
  "usable p \<Longrightarrow> run_claims (claim t) is p = Some (rs, p') \<Longrightarrow>
     wins rs \<le> (if yielded_last (journal (fst p) t) then 1 else 0)"
proof (induction "is" arbitrary: p rs)
  case Nil
  then show ?case by (simp add: wins_def)
next
  case (Cons i "is")
  from claim_returns[OF Cons.prems(1)] obtain r p1 where c: "claim t i p = Some (r, p1)"
    by blast
  note e = claim_effect[OF Cons.prems(1) c]
  from Cons.prems(2) c obtain rs' where r: "run_claims (claim t) is p1 = Some (rs', p')"
    and rs: "rs = r # rs'" by (auto split: option.splits)
  from Cons.IH[OF e(1) r] have IH: "wins rs' \<le> (if yielded_last (journal (fst p1) t) then 1 else 0)" .
  have j: "journal (fst p1) t = snd (journal_claim i (journal (fst p) t))" using e(3) by simp
  show ?case
  proof (cases "r = Inr Claimed")
    case True
    then have "fst (journal_claim i (journal (fst p) t)) = Won" using e(2) by simp
    from journal_claim_Won_last[OF this] IH True show ?thesis by (simp add: rs wins_def j)
  next
    case False
    then have "fst (journal_claim i (journal (fst p) t)) \<noteq> Won" using e(2) by auto
    from journal_claim_lost[OF this] IH False show ?thesis by (simp add: rs wins_def j)
  qed
qed

end

end
