(* ===== verification/Graph_Config.thy ===== *)
theory Graph_Config
  imports Checkpoint
begin

text \<open>
  What a graph is made of: \<open>src/resource_limits.rs\<close>, \<open>src/context.rs\<close>, \<open>src/history.rs\<close>, the
  data of \<open>src/emitter.rs\<close>, and from \<open>src/graph.rs\<close> the retry policy, node configuration,
  node output and metadata, edges, events, the \<open>Graph\<close> record and the methods and builder that
  configure it. A node is user code: a parameter, as is what it does to the outside world, of
  type \<open>'x\<close>. The emitter, the event channel and the metrics hook only observe; what they are told
  is the list of observations \<open>obs\<close>.
\<close>

section \<open>Resource limits\<close>

record ResourceLimits =
  max_concurrent_nodes :: nat
  max_execution_records :: nat
  max_checkpoint_bytes :: nat
  max_dag_nodes :: nat
  max_sequential_steps :: nat

definition resource_limits_default :: ResourceLimits where
  "resource_limits_default = \<lparr>max_concurrent_nodes = 64, max_execution_records = 10000,
     max_checkpoint_bytes = 10 * 1024 * 1024, max_dag_nodes = 10000, max_sequential_steps = 1000\<rparr>"

definition with_max_concurrent_nodes :: "nat \<Rightarrow> ResourceLimits \<Rightarrow> ResourceLimits" where
  "with_max_concurrent_nodes n l = l\<lparr>max_concurrent_nodes := n\<rparr>"

definition with_max_execution_records :: "nat \<Rightarrow> ResourceLimits \<Rightarrow> ResourceLimits" where
  "with_max_execution_records n l = l\<lparr>max_execution_records := n\<rparr>"

definition with_max_checkpoint_bytes :: "nat \<Rightarrow> ResourceLimits \<Rightarrow> ResourceLimits" where
  "with_max_checkpoint_bytes n l = l\<lparr>max_checkpoint_bytes := n\<rparr>"

definition with_max_dag_nodes :: "nat \<Rightarrow> ResourceLimits \<Rightarrow> ResourceLimits" where
  "with_max_dag_nodes n l = l\<lparr>max_dag_nodes := n\<rparr>"

definition with_max_sequential_steps :: "nat \<Rightarrow> ResourceLimits \<Rightarrow> ResourceLimits" where
  "with_max_sequential_steps n l = l\<lparr>max_sequential_steps := n\<rparr>"

section \<open>Retry policy\<close>

record RetryPolicy =
  max_attempts :: u8
  base_delay_ms :: u64
  max_delay_ms :: u64
  jitter :: bool

definition retry_policy_default :: RetryPolicy where
  "retry_policy_default =
     \<lparr>max_attempts = 3, base_delay_ms = 500, max_delay_ms = 30000, jitter = True\<rparr>"

definition delay_base :: "RetryPolicy \<Rightarrow> u8 \<Rightarrow> u64" where
  "delay_base p attempt = sat_mul (base_delay_ms p) (push_bit (unat (min attempt 10)) 1)"

definition delay_capped :: "RetryPolicy \<Rightarrow> u8 \<Rightarrow> u64" where
  "delay_capped p attempt = min (delay_base p attempt) (max_delay_ms p)"

text \<open>\<open>delay_for\<close> in milliseconds; with jitter, and a positive range, it draws one random number.\<close>

definition delay_ms :: "'s env \<Rightarrow> RetryPolicy \<Rightarrow> u8 \<Rightarrow> sys \<Rightarrow> u64 \<times> sys" where
  "delay_ms env p attempt y =
     (let capped = delay_capped p attempt in
      if jitter p then
        (let jitter_range = capped div 4;
             (j, y) = (if 0 < jitter_range
                       then (let (r, y) = random_u64 env y in (r mod jitter_range, y))
                       else (0, y))
         in (sat_add (sat_sub capped (jitter_range div 2)) j, y))
      else (capped, y))"

definition delay_for :: "'s env \<Rightarrow> RetryPolicy \<Rightarrow> u8 \<Rightarrow> sys \<Rightarrow> duration \<times> sys" where
  "delay_for env p attempt y =
     (let (ms, y) = delay_ms env p attempt y in (unat ms * 1000000, y))"

record NodeConfig =
  nc_retry_policy :: "RetryPolicy option"
  nc_timeout :: "duration option"
  nc_budget_eur :: "f64 option"

datatype WaveFailurePolicy = FailFast | ContinueOnError

section \<open>Node input and output\<close>

record NodeMeta =
  nm_tokens_in :: "u32 option"
  nm_tokens_out :: "u32 option"
  nm_cost_eur :: "f64 option"
  nm_model :: "string option"

definition node_meta_default :: NodeMeta where
  "node_meta_default = \<lparr>nm_tokens_in = None, nm_tokens_out = None, nm_cost_eur = None, nm_model = None\<rparr>"

text \<open>The literals are the doubles nearest to 0.00000015 and 0.0000006.\<close>

definition node_meta_llm :: "u32 \<Rightarrow> u32 \<Rightarrow> string \<Rightarrow> NodeMeta" where
  "node_meta_llm tokens_in tokens_out model =
     (let cost = fadd (fmul (f64_of_u32 tokens_in) (round64 (15 / 10 ^ 8)))
                      (fmul (f64_of_u32 tokens_out) (round64 (6 / 10 ^ 7)))
      in \<lparr>nm_tokens_in = Some tokens_in, nm_tokens_out = Some tokens_out,
          nm_cost_eur = Some cost, nm_model = Some model\<rparr>)"

text \<open>\<open>meta.cost_eur.unwrap_or(0.0)\<close>.\<close>

definition cost_or_zero :: "NodeMeta \<Rightarrow> f64" where
  "cost_or_zero m = (case nm_cost_eur m of None \<Rightarrow> Fin 0 | Some c \<Rightarrow> c)"

record 's NodeOutput =
  no_state :: 's
  no_event :: "string option"
  no_meta :: NodeMeta

definition node_output_bare :: "'s \<Rightarrow> 's NodeOutput" where
  "node_output_bare s = \<lparr>no_state = s, no_event = None, no_meta = node_meta_default\<rparr>"

definition node_output_with_llm :: "'s \<Rightarrow> u32 \<Rightarrow> u32 \<Rightarrow> string \<Rightarrow> 's NodeOutput" where
  "node_output_with_llm s i out model =
     \<lparr>no_state = s, no_event = None, no_meta = node_meta_llm i out model\<rparr>"

definition with_event :: "string \<Rightarrow> 's NodeOutput \<Rightarrow> 's NodeOutput" where
  "with_event e out = out\<lparr>no_event := Some e\<rparr>"

text \<open>
  A cancellation token, as a run sees it: for the k-th wait of the program under a token, how long
  after the start of the wait the token is cancelled (if it is), and which of two branches that are
  ready at the same time \<open>select!\<close> polls first.
\<close>

record cancel_token =
  ct_after :: "nat \<Rightarrow> duration option"
  ct_first :: "nat \<Rightarrow> bool"

record NodeContext =
  cx_thread_id :: string
  cx_node_name :: string
  cx_attempt :: u8
  cx_execution_id :: string
  cx_attempt_id :: string
  cx_last_checkpoint_id :: "string option"
  cx_budget_remaining_eur :: "f64 option"
  cx_cancellation :: "cancel_token option"
  cx_resumed_input :: "json option"

definition execution_seed :: "string \<Rightarrow> string \<Rightarrow> string option \<Rightarrow> string" where
  "execution_seed thread_id node_name last_checkpoint_id =
     thread_id @ '':'' @ node_name @ '':'' @
     (case last_checkpoint_id of None \<Rightarrow> ''initial'' | Some c \<Rightarrow> c)"

definition node_context_new ::
  "'s env \<Rightarrow> string \<Rightarrow> string \<Rightarrow> u8 \<Rightarrow> string option \<Rightarrow> f64 option \<Rightarrow> cancel_token option \<Rightarrow>
   json option \<Rightarrow> sys \<Rightarrow> NodeContext \<times> sys" where
  "node_context_new env thread_id node_name attempt last_checkpoint_id budget cancellation input y =
     (let execution_id =
            e_uuid_text env (e_uuid5 env (execution_seed thread_id node_name last_checkpoint_id));
          (u, y) = new_v4 env y
      in (\<lparr>cx_thread_id = thread_id, cx_node_name = node_name, cx_attempt = attempt,
           cx_execution_id = execution_id, cx_attempt_id = e_uuid_text env u,
           cx_last_checkpoint_id = last_checkpoint_id, cx_budget_remaining_eur = budget,
           cx_cancellation = cancellation, cx_resumed_input = input\<rparr>, y))"

definition node_context_default :: "'s env \<Rightarrow> sys \<Rightarrow> NodeContext \<times> sys" where
  "node_context_default env y =
     (let (u1, y) = new_v4 env y; (u2, y) = new_v4 env y
      in (\<lparr>cx_thread_id = ''default'', cx_node_name = ''default'', cx_attempt = 0,
           cx_execution_id = e_uuid_text env u1, cx_attempt_id = e_uuid_text env u2,
           cx_last_checkpoint_id = None, cx_budget_remaining_eur = None,
           cx_cancellation = None, cx_resumed_input = None\<rparr>, y))"

text \<open>
  What awaiting a node's future comes to: it is never ready, it panics after a while, or it is ready
  after a while with a result.
\<close>

datatype 'r future = Never | Panics duration string | Ready duration 'r

type_synonym 's node_result = "GraphError + 's NodeOutput"

type_synonym ('s, 'x) node = "NodeContext \<Rightarrow> 's \<Rightarrow> 'x \<Rightarrow> 's node_result future \<times> 'x"

type_synonym ('s, 'x) runner =
  "string \<Rightarrow> NodeContext \<Rightarrow> 's \<Rightarrow> 'x \<times> sys \<Rightarrow> 's node_result future \<times> ('x \<times> sys)"

type_synonym ('s, 'x) dynamic_node =
  "NodeContext \<Rightarrow> 's \<Rightarrow> ('s, 'x) runner \<Rightarrow> 'x \<times> sys \<Rightarrow> 's node_result future \<times> ('x \<times> sys)"

datatype 's Edge = Unconditional string | Conditional "'s \<Rightarrow> string"

fun follow_edge :: "'s Edge \<Rightarrow> 's \<Rightarrow> string" where
  "follow_edge (Unconditional target) s = target"
| "follow_edge (Conditional f) s = f s"

section \<open>Observations\<close>

datatype GraphEvent =
    NodeStarted string string timestamp u64
  | NodeFinished string string u64 string "f64 option" u64
  | GraphFinished string f64 u64

datatype SpanStatus = Success | Error | Cancelled | Retrying

record SpanContext =
  sc_thread_id :: string
  sc_node_name :: string
  sc_checkpoint_id :: "string option"
  sc_attempt :: u8
  sc_duration_ms :: u64
  sc_cost_eur :: "f64 option"
  sc_status :: SpanStatus
  sc_dag_id :: "string option"
  sc_error :: "string option"
  sc_meta :: NodeMeta

record ExecutionRecord =
  er_node_name :: string
  er_started_at :: timestamp
  er_duration_ms :: u64
  er_status :: string
  er_cost_eur :: "f64 option"
  er_checkpoint_id :: "string option"
  er_attempts :: u8
  er_actor :: "string option"
  er_response_hash :: "string option"
  er_tokens_in :: "u32 option"
  er_tokens_out :: "u32 option"

datatype obs =
    OEvent GraphEvent
  | OSpan SpanContext
  | ONodeComplete string u64 SpanStatus
  | OGraphComplete string f64 u64
  | OCheckpointSaved string string
  | OResume ResumeRecord
  | OSleep duration

section \<open>The graph\<close>

record ('s, 'x) graph =
  g_nodes :: "string \<rightharpoonup> ('s, 'x) node"
  g_dynamic_nodes :: "string \<rightharpoonup> ('s, 'x) dynamic_node"
  g_edges :: "string \<rightharpoonup> 's Edge"
  g_retry_policy :: RetryPolicy
  g_budget_eur :: "f64 option"
  g_interrupt_before :: "string set"
  g_interrupt_after :: "string set"
  g_crash_recovery_policy :: CrashRecoveryPolicy
  g_node_configs :: "string \<rightharpoonup> NodeConfig"
  g_wave_failure_policy :: WaveFailurePolicy
  g_resource_limits :: ResourceLimits

definition graph_new :: "('s, 'x) graph" where
  "graph_new = \<lparr>g_nodes = Map.empty, g_dynamic_nodes = Map.empty, g_edges = Map.empty,
     g_retry_policy = retry_policy_default, g_budget_eur = None, g_interrupt_before = {},
     g_interrupt_after = {}, g_crash_recovery_policy = CrashRecoveryPolicy.ResetToPending,
     g_node_configs = Map.empty, g_wave_failure_policy = WaveFailurePolicy.FailFast,
     g_resource_limits = resource_limits_default\<rparr>"

definition add_interrupt_before :: "string \<Rightarrow> ('s, 'x) graph \<Rightarrow> ('s, 'x) graph" where
  "add_interrupt_before n g = g\<lparr>g_interrupt_before := insert n (g_interrupt_before g)\<rparr>"

definition add_interrupt_after :: "string \<Rightarrow> ('s, 'x) graph \<Rightarrow> ('s, 'x) graph" where
  "add_interrupt_after n g = g\<lparr>g_interrupt_after := insert n (g_interrupt_after g)\<rparr>"

definition set_crash_recovery_policy :: "CrashRecoveryPolicy \<Rightarrow> ('s, 'x) graph \<Rightarrow> ('s, 'x) graph" where
  "set_crash_recovery_policy p g = g\<lparr>g_crash_recovery_policy := p\<rparr>"

definition set_retry_policy :: "RetryPolicy \<Rightarrow> ('s, 'x) graph \<Rightarrow> ('s, 'x) graph" where
  "set_retry_policy p g = g\<lparr>g_retry_policy := p\<rparr>"

definition set_budget_eur :: "f64 \<Rightarrow> ('s, 'x) graph \<Rightarrow> ('s, 'x) graph" where
  "set_budget_eur b g = g\<lparr>g_budget_eur := Some b\<rparr>"

definition add_node :: "string \<Rightarrow> ('s, 'x) node \<Rightarrow> ('s, 'x) graph \<Rightarrow> ('s, 'x) graph" where
  "add_node n f g = g\<lparr>g_nodes := (g_nodes g)(n \<mapsto> f)\<rparr>"

definition add_node_with_config ::
  "string \<Rightarrow> ('s, 'x) node \<Rightarrow> NodeConfig \<Rightarrow> ('s, 'x) graph \<Rightarrow> ('s, 'x) graph" where
  "add_node_with_config n f c g =
     g\<lparr>g_nodes := (g_nodes g)(n \<mapsto> f), g_node_configs := (g_node_configs g)(n \<mapsto> c)\<rparr>"

definition set_wave_failure_policy :: "WaveFailurePolicy \<Rightarrow> ('s, 'x) graph \<Rightarrow> ('s, 'x) graph" where
  "set_wave_failure_policy p g = g\<lparr>g_wave_failure_policy := p\<rparr>"

definition add_edge :: "string \<Rightarrow> string \<Rightarrow> ('s, 'x) graph \<Rightarrow> ('s, 'x) graph" where
  "add_edge src target g = g\<lparr>g_edges := (g_edges g)(src \<mapsto> Unconditional target)\<rparr>"

definition add_conditional_edge ::
  "string \<Rightarrow> ('s \<Rightarrow> string) \<Rightarrow> ('s, 'x) graph \<Rightarrow> ('s, 'x) graph" where
  "add_conditional_edge src f g = g\<lparr>g_edges := (g_edges g)(src \<mapsto> Conditional f)\<rparr>"

text \<open>A closure is the node it makes.\<close>

definition add_fn_node :: "string \<Rightarrow> ('s, 'x) node \<Rightarrow> ('s, 'x) graph \<Rightarrow> ('s, 'x) graph" where
  "add_fn_node n f g = g\<lparr>g_nodes := (g_nodes g)(n \<mapsto> f)\<rparr>"

text \<open>A closure without context: the wrapper ignores the context it is given.\<close>

definition add_simple_fn_node ::
  "string \<Rightarrow> ('s \<Rightarrow> 'x \<Rightarrow> 's node_result future \<times> 'x) \<Rightarrow> ('s, 'x) graph \<Rightarrow> ('s, 'x) graph" where
  "add_simple_fn_node n f g = add_node n (\<lambda>_ s. f s) g"

definition add_dynamic_node ::
  "string \<Rightarrow> ('s, 'x) dynamic_node \<Rightarrow> ('s, 'x) graph \<Rightarrow> ('s, 'x) graph" where
  "add_dynamic_node n f g = g\<lparr>g_dynamic_nodes := (g_dynamic_nodes g)(n \<mapsto> f)\<rparr>"

definition set_resource_limits :: "ResourceLimits \<Rightarrow> ('s, 'x) graph \<Rightarrow> ('s, 'x) graph" where
  "set_resource_limits l g = g\<lparr>g_resource_limits := l\<rparr>"

end
