(* ===== verification/Exec.thy ===== *)
theory Exec
  imports Graph_Config
begin

text \<open>
  What the two runners of \<open>src/graph.rs\<close> share: the world they act on, the observations they
  send, the bounded history, the size check and the bound save, the wait for a node under its
  timeout and the cancellation token, the retry loop, and the child runner of \<open>src/dynamic.rs\<close>.
\<close>

section \<open>The world\<close>

text \<open>
  \<open>w_ext\<close> is whatever the nodes act on, \<open>w_store\<close> the checkpointer's store, \<open>w_seq\<close> the
  counter \<open>event_seq\<close>, \<open>w_awaits\<close> the number of waits made under a cancellation token,
  \<open>w_records\<close> the queue \<open>execution_records\<close>, \<open>w_trace\<close> what was observed, and \<open>w_last_head\<close>
  the variable \<open>last_head\<close> that \<open>run_inner\<close> is given by reference.
\<close>

record ('x, 'st) world =
  w_ext :: 'x
  w_store :: 'st
  w_sys :: sys
  w_seq :: u64
  w_awaits :: nat
  w_records :: "ExecutionRecord list"
  w_trace :: "obs list"
  w_last_head :: "string option option"

type_synonym ('a, 'x, 'st) act = "('x, 'st) world \<Rightarrow> (TakelnError, 'a, ('x, 'st) world) outcome"

definition observe :: "obs \<Rightarrow> ('x, 'st) world \<Rightarrow> ('x, 'st) world" where
  "observe ob w = w\<lparr>w_trace := w_trace w @ [ob]\<rparr>"

definition read_clock :: "'s env \<Rightarrow> ('x, 'st) world \<Rightarrow> timestamp \<times> ('x, 'st) world" where
  "read_clock env w = (let (t, y) = utc_now env (w_sys w) in (t, w\<lparr>w_sys := y\<rparr>))"

text \<open>\<open>fetch_add\<close> wraps.\<close>

definition next_seq :: "('x, 'st) world \<Rightarrow> u64 \<times> ('x, 'st) world" where
  "next_seq w = (w_seq w, w\<lparr>w_seq := w_seq w + 1\<rparr>)"

text \<open>\<open>(Utc::now() - started_at).num_milliseconds().max(0) as u64\<close>.\<close>

definition elapsed_ms :: "'s env \<Rightarrow> timestamp \<Rightarrow> ('x, 'st) world \<Rightarrow> u64 \<times> ('x, 'st) world" where
  "elapsed_ms env started_at w =
     (let (t, w) = read_clock env w in (of_int (max 0 ((t - started_at) div 1000000)), w))"

definition send_started :: "string \<Rightarrow> string \<Rightarrow> timestamp \<Rightarrow> ('x, 'st) world \<Rightarrow> ('x, 'st) world" where
  "send_started thread_id node_name t w =
     (let (n, w) = next_seq w in observe (OEvent (NodeStarted thread_id node_name t n)) w)"

definition send_finished ::
  "string \<Rightarrow> string \<Rightarrow> u64 \<Rightarrow> string \<Rightarrow> f64 option \<Rightarrow> ('x, 'st) world \<Rightarrow> ('x, 'st) world" where
  "send_finished thread_id node_name ms status cost w =
     (let (n, w) = next_seq w
      in observe (OEvent (NodeFinished thread_id node_name ms status cost n)) w)"

definition send_graph_finished :: "string \<Rightarrow> f64 \<Rightarrow> ('x, 'st) world \<Rightarrow> ('x, 'st) world" where
  "send_graph_finished thread_id cost w =
     (let (n, w) = next_seq w in observe (OEvent (GraphFinished thread_id cost n)) w)"

definition emit_span :: "string \<Rightarrow> string \<Rightarrow> u8 \<Rightarrow> u64 \<Rightarrow> f64 option \<Rightarrow> SpanStatus \<Rightarrow>
    string option \<Rightarrow> NodeMeta \<Rightarrow> ('x, 'st) world \<Rightarrow> ('x, 'st) world" where
  "emit_span thread_id node_name attempt ms cost status err meta =
     observe (OSpan \<lparr>sc_thread_id = thread_id, sc_node_name = node_name, sc_checkpoint_id = None,
       sc_attempt = attempt, sc_duration_ms = ms, sc_cost_eur = cost, sc_status = status,
       sc_dag_id = None, sc_error = err, sc_meta = meta\<rparr>)"

section \<open>The execution history\<close>

text \<open>\<open>while records.len() >= max { records.pop_front(); }\<close>: with \<open>max = 0\<close> it does not end.\<close>

partial_function (option) evict :: "nat \<Rightarrow> 'a list \<Rightarrow> 'a list option" where
  [code]: "evict limit records =
     (if limit \<le> length records then evict limit (tl records) else Some records)"

definition push_record :: "nat \<Rightarrow> ExecutionRecord \<Rightarrow> (unit, 'x, 'st) act" where
  "push_record limit r w = (case evict limit (w_records w) of
       None \<Rightarrow> None
     | Some records \<Rightarrow> Some (Inr (), w\<lparr>w_records := records @ [r]\<rparr>))"

definition execution_history :: "('x, 'st) world \<Rightarrow> ExecutionRecord list" where
  "execution_history w = w_records w"

section \<open>Saving\<close>

definition on_store :: "('a, 'st) store_op \<Rightarrow> ('a, 'x, 'st) act" where
  "on_store f w = (case f (w_store w, w_sys w) of
       None \<Rightarrow> None
     | Some (r, (st, y)) \<Rightarrow> Some (r, w\<lparr>w_store := st, w_sys := y\<rparr>))"

definition lift_result :: "TakelnError + 'a \<Rightarrow> ('a, 'x, 'st) act" where
  "lift_result r w = Some (r, w)"

definition checkpoint_proof :: "string option \<Rightarrow> CheckpointProof" where
  "checkpoint_proof expected_head = \<lparr>pr_authorization_hash = None, pr_receipt_chain_count = 0,
     pr_receipt_chain_head = None, pr_expected_head = expected_head\<rparr>"

fun checkpoint_id :: "CheckpointSave \<Rightarrow> TakelnError + string" where
  "checkpoint_id (Created c) = Inr c"
| "checkpoint_id (Advanced c) = Inr c"
| "checkpoint_id (IdempotentReplay c) = Inr c"
| "checkpoint_id (Conflict actual_head) = Inl (ExecutionError
     (''checkpoint head conflict; actual head: '' @
      (case actual_head of None \<Rightarrow> ''<genesis>'' | Some h \<Rightarrow> h)))"

definition estimated_size :: "'s env \<Rightarrow> 's \<Rightarrow> nat" where
  "estimated_size env s = (case e_state_text env s of None \<Rightarrow> 0 | Some t \<Rightarrow> length t)"

definition check_checkpoint_size :: "'s env \<Rightarrow> ResourceLimits \<Rightarrow> 's \<Rightarrow> TakelnError + unit" where
  "check_checkpoint_size env l s =
     (if max_checkpoint_bytes l < estimated_size env s
      then Inl (ExecutionError (''Checkpoint payload '' @ show_nat (estimated_size env s) @
             '' bytes exceeds max_checkpoint_bytes limit of '' @ show_nat (max_checkpoint_bytes l)))
      else Inr ())"

text \<open>A save that extends the head the caller last saw, and its result.\<close>

definition save_bound ::
  "('s, 'st) checkpointer \<Rightarrow> 's save_args \<Rightarrow> string option \<Rightarrow> (string, 'x, 'st) act" where
  "save_bound ck a expected_head w =
     then_ok (on_store (ck_save_state_bound ck a (checkpoint_proof expected_head)) w)
       (\<lambda>save. lift_result (checkpoint_id save))"

definition checked_save :: "'s env \<Rightarrow> ResourceLimits \<Rightarrow>
    ('s, 'st) checkpointer \<Rightarrow> 's save_args \<Rightarrow> string option \<Rightarrow> (string, 'x, 'st) act" where
  "checked_save env l ck a expected_head w =
     then_ok (lift_result (check_checkpoint_size env l (sa_state a)) w)
       (\<lambda>_. save_bound ck a expected_head)"

section \<open>Waiting for a node\<close>

definition timed_out :: "string \<Rightarrow> duration \<Rightarrow> 's node_result" where
  "timed_out node_name d = Inl (Fatal
     (''Node '' @ quoted node_name @ '' timed out after '' @ debug_duration d))"

definition cancelled :: "'s node_result" where
  "cancelled = Inl (Yield (yield_simple ''Cancelled''))"

text \<open>
  \<open>timeout\<close> polls the future before the clock, so the future wins a tie; \<open>select!\<close> polls its
  branches in an order of its own, which the token's \<open>ct_first\<close> gives.
\<close>

fun with_timeout :: "string \<Rightarrow> duration option \<Rightarrow> 's node_result future \<Rightarrow> 's node_result future" where
  "with_timeout n None f = f"
| "with_timeout n (Some d) Never = Ready d (timed_out n d)"
| "with_timeout n (Some d) (Panics t m) = (if t \<le> d then Panics t m else Ready d (timed_out n d))"
| "with_timeout n (Some d) (Ready t r) = (if t \<le> d then Ready t r else Ready d (timed_out n d))"

definition cancel_at ::
  "duration option \<Rightarrow> bool \<Rightarrow> 's node_result future \<Rightarrow> 's node_result future" where
  "cancel_at c future_first f = (case c of
       None \<Rightarrow> f
     | Some c \<Rightarrow> (case f of
           Never \<Rightarrow> Ready c cancelled
         | Panics t m \<Rightarrow> if t < c \<or> t = c \<and> future_first then f else Ready c cancelled
         | Ready t r \<Rightarrow> if t < c \<or> t = c \<and> future_first then f else Ready c cancelled))"

definition with_cancellation ::
  "cancel_token option \<Rightarrow> nat \<Rightarrow> 's node_result future \<Rightarrow> 's node_result future" where
  "with_cancellation token k f = (case token of
       None \<Rightarrow> f
     | Some c \<Rightarrow> cancel_at (ct_after c k) (ct_first c k) f)"

section \<open>The retry loop\<close>

text \<open>What the loop around a regular node's call has captured.\<close>

record ('s, 'x) call_site =
  cs_env :: "'s env"
  cs_thread_id :: string
  cs_node_name :: string
  cs_node :: "('s, 'x) node"
  cs_retry :: RetryPolicy
  cs_timeout :: "duration option"
  cs_token :: "cancel_token option"
  cs_last_checkpoint_id :: "string option"
  cs_budget_remaining :: "f64 option"
  cs_state :: 's

definition call_once :: "('s, 'x) call_site \<Rightarrow> u8 \<Rightarrow> json option \<Rightarrow> ('x, 'st) world \<Rightarrow>
    's node_result future \<times> ('x, 'st) world" where
  "call_once c attempt input w =
     (let (ctx, y) = node_context_new (cs_env c) (cs_thread_id c) (cs_node_name c) attempt
            (cs_last_checkpoint_id c) (cs_budget_remaining c) (cs_token c) input (w_sys w);
          (f, x) = cs_node c ctx (cs_state c) (w_ext w)
      in (with_cancellation (cs_token c) (w_awaits w)
            (with_timeout (cs_node_name c) (cs_timeout c) f),
          w\<lparr>w_ext := x, w_sys := y, w_awaits := Suc (w_awaits w)\<rparr>))"

definition before_retry ::
  "('s, 'x) call_site \<Rightarrow> u8 \<Rightarrow> string \<Rightarrow> ('x, 'st) world \<Rightarrow> ('x, 'st) world" where
  "before_retry c attempt msg w =
     (let (delay, y) = delay_for (cs_env c) (cs_retry c) (attempt - 1) (w_sys w)
      in observe (OSleep delay)
           (emit_span (cs_thread_id c) (cs_node_name c) attempt 0 None SpanStatus.Retrying
              (Some msg) node_meta_default (w\<lparr>w_sys := y\<rparr>)))"

text \<open>
  \<open>None\<close>: the loop never ends; \<open>Inl m\<close>: it panics with \<open>m\<close>; \<open>Inr r\<close>: it breaks with \<open>r\<close>; then
  comes the final value of \<open>attempt\<close>. The input is taken by the first call.
\<close>

partial_function (option) retry_loop :: "('s, 'x) call_site \<Rightarrow> u8 \<Rightarrow> json option \<Rightarrow>
    ('x, 'st) world \<Rightarrow> ((string + 's node_result) \<times> u8 \<times> ('x, 'st) world) option" where
  [code]: "retry_loop c attempt input w = (case call_once c attempt input w of (f, w) \<Rightarrow>
     (case f of
        Never \<Rightarrow> None
      | Panics _ m \<Rightarrow> Some (Inl m, attempt, w)
      | Ready _ res \<Rightarrow> (case res of
            Inr out \<Rightarrow> Some (Inr (Inr out), attempt, w)
          | Inl (Retryable msg) \<Rightarrow>
              if attempt = - 1 \<and> e_overflow_checks (cs_env c)
              then Some (Inl ''attempt to add with overflow'', attempt, w)
              else if max_attempts (cs_retry c) \<le> attempt + 1
              then Some (Inr (Inl (Retryable msg)), attempt + 1, w)
              else retry_loop c (attempt + 1) None (before_retry c (attempt + 1) msg w)
          | Inl other \<Rightarrow> Some (Inr (Inl other), attempt, w))))"

section \<open>Dynamic nodes\<close>

text \<open>A yield of a child cannot suspend the dynamic node that called it.\<close>

fun child_result :: "'s node_result \<Rightarrow> 's node_result" where
  "child_result (Inl (Yield request)) = Inl (YieldInDynamicNode (yr_interrupt_id request))"
| "child_result other = other"

definition run_child :: "'s env \<Rightarrow> (string \<rightharpoonup> ('s, 'x) node) \<Rightarrow> ('s, 'x) runner" where
  "run_child env nodes child_name ctx s = (\<lambda>(x, y). case nodes child_name of
       None \<Rightarrow> (Ready 0 (Inl (Fatal (''Child node '' @ quoted child_name @ '' not found in graph''))), (x, y))
     | Some node \<Rightarrow>
         (let (child_ctx, y) = node_context_new env (cx_thread_id ctx) child_name 0
                (cx_last_checkpoint_id ctx) (cx_budget_remaining_eur ctx) (cx_cancellation ctx) None y;
              (f, x) = node child_ctx s x
          in (map_future child_result f, (x, y))))"

definition run_child_state :: "('s, 'x) runner \<Rightarrow> string \<Rightarrow> NodeContext \<Rightarrow> 's \<Rightarrow> 'x \<times> sys \<Rightarrow>
    (GraphError + 's) future \<times> ('x \<times> sys)" where
  "run_child_state runner child_name ctx s w =
     (let (f, w) = runner child_name ctx s w
      in (map_future (\<lambda>r. case r of Inl e \<Rightarrow> Inl e | Inr out \<Rightarrow> Inr (no_state out)) f, w))"

text \<open>A dynamic node is called once: neither its timeout nor its retry policy is applied.\<close>

definition call_dynamic :: "'s env \<Rightarrow> (string \<rightharpoonup> ('s, 'x) node) \<Rightarrow> ('s, 'x) dynamic_node \<Rightarrow> string \<Rightarrow>
    string \<Rightarrow> string option \<Rightarrow> f64 option \<Rightarrow> cancel_token option \<Rightarrow> json option \<Rightarrow> 's \<Rightarrow>
    ('x, 'st) world \<Rightarrow> ((string + 's node_result) \<times> u8 \<times> ('x, 'st) world) option" where
  "call_dynamic env nodes dyn thread_id node_name last_checkpoint_id budget token input s w =
     (let (ctx, y) = node_context_new env thread_id node_name 0 last_checkpoint_id budget token
            input (w_sys w);
          (f, (x, y)) = dyn ctx s (run_child env nodes) (w_ext w, y);
          w = w\<lparr>w_ext := x, w_sys := y\<rparr>
      in case f of
           Never \<Rightarrow> None
         | Panics _ m \<Rightarrow> Some (Inl m, 0, w)
         | Ready _ r \<Rightarrow> Some (Inr r, 0, w))"

section \<open>The configuration of a node\<close>

definition effective_retry :: "('s, 'x) graph \<Rightarrow> string \<Rightarrow> RetryPolicy" where
  "effective_retry g n = (case g_node_configs g n of
       None \<Rightarrow> g_retry_policy g
     | Some c \<Rightarrow> (case nc_retry_policy c of None \<Rightarrow> g_retry_policy g | Some p \<Rightarrow> p))"

definition effective_timeout :: "('s, 'x) graph \<Rightarrow> string \<Rightarrow> duration option" where
  "effective_timeout g n = Option.bind (g_node_configs g n) nc_timeout"

definition effective_node_budget :: "('s, 'x) graph \<Rightarrow> string \<Rightarrow> f64 option" where
  "effective_node_budget g n = Option.bind (g_node_configs g n) nc_budget_eur"

end
