(* ===== verification/Observe.thy ===== *)
theory Observe
  imports Exec
begin

text \<open>
  The observers of a graph: the fingerprint of \<open>src/safe_error.rs\<close>, the emitters of
  \<open>src/emitter.rs\<close> and the metrics hooks of \<open>src/metrics.rs\<close>. The runners record what they tell
  the observers in the trace of the world; \<open>deliver\<close> replays a trace into an emitter and a hook. What an
  observer acts on is of type \<open>'m\<close>, a user's emitter is any function on it; that of the
  \<open>tracing\<close> crate is the list of the lines it was handed.
\<close>

section \<open>The fingerprint of an error\<close>

definition SAFE_ERROR_FINGERPRINT_MAX_BYTES :: nat where
  "SAFE_ERROR_FINGERPRINT_MAX_BYTES = 96"

text \<open>
  \<open>None\<close> is a panic: of the slice \<open>[..16]\<close>, or of the \<open>debug_assert!\<close>, which is compiled
  in together with the overflow checks.
\<close>

definition redacted_error_fingerprint :: "'s env \<Rightarrow> string \<Rightarrow> string option" where
  "redacted_error_fingerprint env error =
     (let digest = e_sha256_hex env error in
      if length digest < 16 then None
      else (let value = ''sha256:'' @ take 16 digest @ ''(len='' @ show_nat (length error) @ '')'' in
        if e_overflow_checks env \<and> \<not> length value \<le> SAFE_ERROR_FINGERPRINT_MAX_BYTES then None
        else Some value))"

section \<open>Emitters\<close>

text \<open>The lines \<open>tracing::info!\<close>, \<open>warn!\<close> and \<open>error!\<close> are given, a name and a value per field.\<close>

datatype log_level = Log_Info | Log_Warn | Log_Error

datatype log_value = VText string | VMillis u64 | VAttempt u8 | VCost "f64 option"
  | VTokens "u32 option" | VModel "string option"

record log_line =
  ll_level :: log_level
  ll_fields :: "(string \<times> log_value) list"
  ll_message :: string

type_synonym 'm emitter = "SpanContext \<Rightarrow> 'm \<Rightarrow> 'm option"

definition noop_emit :: "'m emitter" where
  "noop_emit ctx m = Some m"

text \<open>\<open>ctx.error.map(redacted_error_fingerprint).unwrap_or_else(|| "none".to_string())\<close>.\<close>

definition error_field :: "'s env \<Rightarrow> string option \<Rightarrow> string option" where
  "error_field env error = (case error of
       None \<Rightarrow> Some ''none''
     | Some e \<Rightarrow> redacted_error_fingerprint env e)"

definition tracing_emit :: "'s env \<Rightarrow> log_line list emitter" where
  "tracing_emit env ctx logged_lines = (case sc_status ctx of
       SpanStatus.Success \<Rightarrow> Some (logged_lines @ [\<lparr>ll_level = Log_Info, ll_fields =
           [(''thread_id'', VText (sc_thread_id ctx)), (''node'', VText (sc_node_name ctx)),
            (''duration_ms'', VMillis (sc_duration_ms ctx)), (''cost_eur'', VCost (sc_cost_eur ctx)),
            (''tokens_in'', VTokens (nm_tokens_in (sc_meta ctx))),
            (''tokens_out'', VTokens (nm_tokens_out (sc_meta ctx))),
            (''model'', VModel (nm_model (sc_meta ctx))), (''attempt'', VAttempt (sc_attempt ctx))],
           ll_message = ''Node completed successfully''\<rparr>])
     | SpanStatus.Retrying \<Rightarrow> (case error_field env (sc_error ctx) of
           None \<Rightarrow> None
         | Some e \<Rightarrow> Some (logged_lines @ [\<lparr>ll_level = Log_Warn, ll_fields =
             [(''thread_id'', VText (sc_thread_id ctx)), (''node'', VText (sc_node_name ctx)),
              (''attempt'', VAttempt (sc_attempt ctx)), (''error'', VText e)],
             ll_message = ''Node retrying''\<rparr>]))
     | SpanStatus.Error \<Rightarrow> (case error_field env (sc_error ctx) of
           None \<Rightarrow> None
         | Some e \<Rightarrow> Some (logged_lines @ [\<lparr>ll_level = Log_Error, ll_fields =
             [(''thread_id'', VText (sc_thread_id ctx)), (''node'', VText (sc_node_name ctx)),
              (''duration_ms'', VMillis (sc_duration_ms ctx)), (''attempt'', VAttempt (sc_attempt ctx)),
              (''error'', VText e)],
             ll_message = ''Node failed''\<rparr>]))
     | SpanStatus.Cancelled \<Rightarrow> Some (logged_lines @ [\<lparr>ll_level = Log_Warn, ll_fields =
           [(''thread_id'', VText (sc_thread_id ctx)), (''node'', VText (sc_node_name ctx)),
            (''duration_ms'', VMillis (sc_duration_ms ctx))],
           ll_message = ''Node cancelled''\<rparr>]))"

section \<open>Metrics hooks\<close>

record 'm metrics_hook =
  on_node_complete :: "string \<Rightarrow> u64 \<Rightarrow> SpanStatus \<Rightarrow> 'm \<Rightarrow> 'm"
  on_graph_complete :: "string \<Rightarrow> f64 \<Rightarrow> u64 \<Rightarrow> 'm \<Rightarrow> 'm"
  on_checkpoint_saved :: "string \<Rightarrow> string \<Rightarrow> 'm \<Rightarrow> 'm"
  on_resume :: "ResumeRecord \<Rightarrow> 'm \<Rightarrow> 'm"

text \<open>The body the trait gives \<open>on_resume\<close>.\<close>

definition default_on_resume :: "ResumeRecord \<Rightarrow> 'm \<Rightarrow> 'm" where
  "default_on_resume record m = m"

definition noop_metrics_hook :: "'m metrics_hook" where
  "noop_metrics_hook = \<lparr>on_node_complete = (\<lambda>_ _ _ m. m), on_graph_complete = (\<lambda>_ _ _ m. m),
     on_checkpoint_saved = (\<lambda>_ _ m. m), on_resume = (\<lambda>_ m. m)\<rparr>"

definition default_metrics_hook :: "'m metrics_hook" where
  "default_metrics_hook = noop_metrics_hook"

section \<open>Delivery\<close>

text \<open>What one observation of a trace does to the observers; a panic of an emitter unwinds.\<close>

fun deliver :: "'m emitter \<Rightarrow> 'm metrics_hook \<Rightarrow> obs \<Rightarrow> 'm \<Rightarrow> 'm option" where
  "deliver emit hook (OSpan ctx) m = emit ctx m"
| "deliver emit hook (ONodeComplete n ms st) m = Some (on_node_complete hook n ms st m)"
| "deliver emit hook (OGraphComplete t cost ms) m = Some (on_graph_complete hook t cost ms m)"
| "deliver emit hook (OCheckpointSaved t c) m = Some (on_checkpoint_saved hook t c m)"
| "deliver emit hook (OResume r) m = Some (on_resume hook r m)"
| "deliver emit hook (OEvent _) m = Some m"
| "deliver emit hook (OSleep _) m = Some m"

fun deliver_all :: "'m emitter \<Rightarrow> 'm metrics_hook \<Rightarrow> obs list \<Rightarrow> 'm \<Rightarrow> 'm option" where
  "deliver_all emit hook [] m = Some m"
| "deliver_all emit hook (ob # obs) m = (case deliver emit hook ob m of
       None \<Rightarrow> None
     | Some m \<Rightarrow> deliver_all emit hook obs m)"

section \<open>What reaches the log\<close>

text \<open>The shape of a fingerprint: nothing in it but sixteen hexadecimal digits and a length.\<close>

definition hex_digits :: "char set" where
  "hex_digits = set ''0123456789abcdef''"

definition hex_digest :: "'s env \<Rightarrow> bool" where
  "hex_digest env \<longleftrightarrow> (\<forall>t. length (e_sha256_hex env t) = 64 \<and> set (e_sha256_hex env t) \<subseteq> hex_digits)"

definition fingerprint_like :: "string \<Rightarrow> bool" where
  "fingerprint_like v \<longleftrightarrow> (\<exists>digest len. v = ''sha256:'' @ digest @ ''(len='' @ len @ '')'' \<and>
     length digest = 16 \<and> set digest \<subseteq> hex_digits \<and> set len \<subseteq> set ''0123456789'') \<and>
   length v \<le> SAFE_ERROR_FINGERPRINT_MAX_BYTES"

lemma digit_char_range: "d < 10 \<Longrightarrow> digit_char d \<in> set ''0123456789''"
proof -
  assume "d < 10"
  moreover have "list_all (\<lambda>d. digit_char d \<in> set ''0123456789'') [0..<10]" by code_simp
  ultimately show ?thesis by (simp add: list_all_iff)
qed

lemma show_nat_digits: "set (show_nat n) \<subseteq> set ''0123456789''"
proof (induction n rule: show_nat.induct)
  case (1 n)
  have "n mod 10 < 10" by simp
  with 1 digit_char_range[of n] digit_char_range[of "n mod 10"] show ?case
    by (subst show_nat.simps) (cases "n < 10"; force)
qed

lemma show_nat_width: "n < 10 ^ k \<Longrightarrow> 0 < k \<Longrightarrow> length (show_nat n) \<le> k"
proof (induction n arbitrary: k rule: show_nat.induct)
  case (1 n)
  show ?case
  proof (cases "n < 10")
    case True
    with 1(3) show ?thesis by (subst show_nat.simps) simp
  next
    case False
    obtain j where k: "k = Suc j" using 1(3) by (cases k) auto
    with 1(2) False have "0 < j" by (cases j) auto
    moreover from 1(2) k have "n div 10 < 10 ^ j" by (simp add: less_mult_imp_div_less mult.commute)
    ultimately have "length (show_nat (n div 10)) \<le> j" using 1(1)[OF False] by blast
    with False k show ?thesis by (subst show_nat.simps) simp
  qed
qed

lemma fingerprint_returns:
  assumes "hex_digest env" and "length e < 2 ^ 64"
  shows "\<exists>v. redacted_error_fingerprint env e = Some v \<and> fingerprint_like v"
proof -
  let ?d = "take 16 (e_sha256_hex env e)"
  let ?v = "''sha256:'' @ ?d @ ''(len='' @ show_nat (length e) @ '')''"
  have d: "length (e_sha256_hex env e) = 64" "set (e_sha256_hex env e) \<subseteq> hex_digits"
    using assms(1) by (auto simp: hex_digest_def)
  have "length (show_nat (length e)) \<le> 20"
    using assms(2) by (intro show_nat_width) simp_all
  with d(1) have len: "length ?v \<le> SAFE_ERROR_FINGERPRINT_MAX_BYTES"
    by (simp add: SAFE_ERROR_FINGERPRINT_MAX_BYTES_def)
  have "set ?d \<subseteq> hex_digits" using d(2) set_take_subset[of 16] by fastforce
  moreover have "length ?d = 16" using d(1) by simp
  ultimately have "fingerprint_like ?v"
    unfolding fingerprint_like_def using len show_nat_digits by blast
  moreover have "redacted_error_fingerprint env e = Some ?v"
    using d(1) len by (simp add: redacted_error_fingerprint_def)
  ultimately show ?thesis by blast
qed

text \<open>The spans of a trace, and what of a span the emitter goes by: its error is its fingerprint.\<close>

fun spans :: "obs list \<Rightarrow> SpanContext list" where
  "spans [] = []"
| "spans (ob # trace) = (case ob of OSpan ctx \<Rightarrow> [ctx] | _ \<Rightarrow> []) @ spans trace"

definition redacted :: "'s env \<Rightarrow> SpanContext \<Rightarrow> SpanContext" where
  "redacted env ctx = ctx\<lparr>sc_error := error_field env (sc_error ctx)\<rparr>"

definition span_line :: "'s env \<Rightarrow> SpanContext \<Rightarrow> log_line" where
  "span_line env ctx = last (the (tracing_emit env ctx []))"

lemma error_field_returns:
  assumes "hex_digest env" and "\<And>e. err = Some e \<Longrightarrow> length e < 2 ^ 64"
  shows "\<exists>v. error_field env err = Some v \<and> (v = ''none'' \<or> fingerprint_like v)"
  using assms fingerprint_returns[OF assms(1)] by (auto simp: error_field_def split: option.splits)

lemma tracing_emit_line:
  "error_field env (sc_error ctx) = Some v \<Longrightarrow>
     tracing_emit env ctx logged_lines = Some (logged_lines @ [span_line env ctx])"
  by (cases "sc_status ctx") (simp_all add: span_line_def tracing_emit_def)

lemma span_line_redacted:
  assumes "redacted env ctx = redacted env ctx'"
  shows "span_line env ctx = span_line env ctx'"
proof -
  have "ctx' = ctx\<lparr>sc_error := sc_error ctx'\<rparr>"
    using assms by (cases ctx; cases ctx') (simp add: redacted_def)
  moreover have field: "error_field env (sc_error ctx') = error_field env (sc_error ctx)"
    using arg_cong[OF assms, of sc_error] by (simp add: redacted_def)
  moreover have "span_line env (ctx\<lparr>sc_error := sc_error ctx'\<rparr>) = span_line env ctx"
    by (cases "sc_status ctx")
       (simp_all add: span_line_def tracing_emit_def field split: option.split)
  ultimately show ?thesis by simp
qed

lemma span_line_error:
  assumes "error_field env (sc_error ctx) = Some v"
    and "(''error'', VText u) \<in> set (ll_fields (span_line env ctx))"
  shows "u = v"
  using assms by (cases "sc_status ctx") (auto simp: span_line_def tracing_emit_def)

lemma deliver_spans:
  "(\<And>ctx. ctx \<in> set (spans trace) \<Longrightarrow> error_field env (sc_error ctx) \<noteq> None) \<Longrightarrow>
     deliver_all (tracing_emit env) default_metrics_hook trace logged_lines =
       Some (logged_lines @ map (span_line env) (spans trace))"
proof (induction trace arbitrary: logged_lines)
  case (Cons ob trace)
  have "deliver (tracing_emit env) default_metrics_hook ob logged_lines =
      Some (logged_lines @ map (span_line env) (spans [ob]))"
  proof (cases ob)
    case (OSpan ctx)
    with Cons.prems[of ctx] obtain v where "error_field env (sc_error ctx) = Some v" by auto
    with OSpan show ?thesis by (simp add: tracing_emit_line)
  qed (simp_all add: default_metrics_hook_def noop_metrics_hook_def)
  moreover have "spans (ob # trace) = spans [ob] @ spans trace" by simp
  ultimately show ?case using Cons by simp
qed simp

text \<open>C40: the log of the \<open>TracingEmitter\<close> has one line per span, and of the errors of the nodes it has
  nothing but their fingerprints: every error it shows is the word none or sixteen hexadecimal digits
  and a length, in at most 96 bytes; and whatever the errors say, the log is the same as long as their
  fingerprints are. Nor does writing it panic.\<close>

theorem tracing_log_redacted:
  assumes "hex_digest env"
    and "\<And>ctx e. ctx \<in> set (spans trace) \<Longrightarrow> sc_error ctx = Some e \<Longrightarrow> length e < 2 ^ 64"
  shows "\<exists>logged_lines. deliver_all (tracing_emit env) default_metrics_hook trace [] = Some logged_lines \<and>
     length logged_lines = length (spans trace) \<and>
     (\<forall>l \<in> set logged_lines. \<forall>v. (''error'', VText v) \<in> set (ll_fields l) \<longrightarrow>
        v = ''none'' \<or> fingerprint_like v) \<and>
     (\<forall>trace'. map (redacted env) (spans trace') = map (redacted env) (spans trace) \<longrightarrow>
        deliver_all (tracing_emit env) default_metrics_hook trace' [] = Some logged_lines)"
proof -
  let ?log = "\<lambda>trace. map (span_line env) (spans trace)"
  have field: "\<exists>v. error_field env (sc_error ctx) = Some v \<and> (v = ''none'' \<or> fingerprint_like v)"
    if "ctx \<in> set (spans trace)" for ctx
    using error_field_returns[OF assms(1)] assms(2)[OF that] by blast
  have same: "deliver_all (tracing_emit env) default_metrics_hook trace' [] = Some (?log trace)"
    if eq: "map (redacted env) (spans trace') = map (redacted env) (spans trace)" for trace'
  proof -
    have all2: "list_all2 (\<lambda>ctx' ctx. redacted env ctx' = redacted env ctx) (spans trace') (spans trace)"
      using eq by (simp add: list.rel_eq[symmetric] list.rel_map)
    have "error_field env (sc_error ctx') \<noteq> None" if "ctx' \<in> set (spans trace')" for ctx'
    proof -
      from that eq have "redacted env ctx' \<in> redacted env ` set (spans trace)"
        by (metis image_eqI list.set_map)
      then obtain ctx where "ctx \<in> set (spans trace)" "redacted env ctx' = redacted env ctx" by blast
      with field[of ctx] show ?thesis by (cases ctx; cases ctx') (auto simp: redacted_def)
    qed
    moreover have "?log trace' = ?log trace"
      using all2 by (induction rule: list_all2_induct) (auto intro: span_line_redacted)
    ultimately show ?thesis by (simp add: deliver_spans)
  qed
  have "v = ''none'' \<or> fingerprint_like v"
    if "l \<in> set (?log trace)" "(''error'', VText v) \<in> set (ll_fields l)" for l v
    using that field span_line_error by fastforce
  with same[of trace] same show ?thesis by (intro exI[of _ "?log trace"]) auto
qed

text \<open>Two failures with different messages of equal length, under a digest that tells them apart or not.\<close>

definition hex_env :: "nat env" where
  "hex_env = sample_env\<lparr>e_sha256_hex := \<lambda>t. replicate 64 (if t = ''disk'' then CHR ''a'' else CHR ''b'')\<rparr>"

definition failed_span :: "string \<Rightarrow> SpanContext" where
  "failed_span e = \<lparr>sc_thread_id = ''t'', sc_node_name = ''n'', sc_checkpoint_id = None, sc_attempt = 0,
     sc_duration_ms = 5, sc_cost_eur = None, sc_status = SpanStatus.Error, sc_dag_id = None,
     sc_error = Some e, sc_meta = node_meta_default\<rparr>"

theorem tracing_log_redacted_witness:
  "\<exists>logged_lines. deliver_all (tracing_emit hex_env) default_metrics_hook
       [OSleep 3, OSpan (failed_span ''key1'')] [] = Some logged_lines \<and> length logged_lines = 1 \<and>
     deliver_all (tracing_emit hex_env) default_metrics_hook
       [OSpan (failed_span ''key2'')] [] = Some logged_lines"
proof -
  let ?trace = "[OSleep 3, OSpan (failed_span ''key1'')]"
  have "hex_digest hex_env" by (auto simp: hex_digest_def hex_env_def hex_digits_def)
  moreover have "length e < 2 ^ 64" if "ctx \<in> set (spans ?trace)" "sc_error ctx = Some e" for ctx e
    using that by (auto simp: failed_span_def)
  ultimately obtain logged_lines where
    "deliver_all (tracing_emit hex_env) default_metrics_hook ?trace [] = Some logged_lines"
    and "length logged_lines = length (spans ?trace)"
    and same: "\<And>trace'. map (redacted hex_env) (spans trace') = map (redacted hex_env) (spans ?trace) \<Longrightarrow>
      deliver_all (tracing_emit hex_env) default_metrics_hook trace' [] = Some logged_lines"
    using tracing_log_redacted[of hex_env ?trace] by blast
  moreover have "redacted hex_env (failed_span ''key2'') = redacted hex_env (failed_span ''key1'')"
    by (simp add: redacted_def failed_span_def error_field_def redacted_error_fingerprint_def hex_env_def)
  ultimately show ?thesis
    using same[of "[OSpan (failed_span ''key2'')]"] by (intro exI[of _ logged_lines]) simp
qed

end
