(* ===== verification/Sequential.thy ===== *)
theory Sequential
  imports Exec
begin

text \<open>
  \<open>Graph::run_inner\<close> and \<open>Graph::run\<close> of \<open>src/graph.rs\<close>: the loop that calls one node after the
  other, saves a checkpoint after each and follows the edges. One pass of the loop is \<open>seq_step\<close>,
  built from a definition per branch; \<open>seq_loop\<close> repeats it. The step limit makes the loop finite:
  \<open>seq_loop\<close> is a total function, and its result \<open>None\<close> only says that a call inside it (a node,
  the store, the history with a limit of 0) did not return.
\<close>

section \<open>State of the loop\<close>

text \<open>What does not change during a run: the graph, the store's operations, the arguments.\<close>

record ('s, 'x, 'st) job =
  j_env :: "'s env"
  j_graph :: "('s, 'x) graph"
  j_ck :: "('s, 'st) checkpointer"
  j_thread_id :: string
  j_token :: "cancel_token option"
  j_resolved_interrupt :: "string option"

record 's seq =
  q_current :: string
  q_state :: 's
  q_running_cost :: f64
  q_first :: bool
  q_last_checkpoint_id :: "string option"
  q_total_cost :: f64
  q_step_count :: nat
  q_input :: "json option"
  q_expected_head :: "string option"

datatype 's flow = Continue "'s seq" | Break 's

definition end_node :: string where
  "end_node = ''__END__''"

definition seq_start :: "'s \<Rightarrow> string \<Rightarrow> json option \<Rightarrow> string option \<Rightarrow> 's seq" where
  "seq_start s start_node input head = \<lparr>q_current = start_node, q_state = s, q_running_cost = Fin 0,
     q_first = True, q_last_checkpoint_id = None, q_total_cost = Fin 0, q_step_count = 0,
     q_input = input, q_expected_head = head\<rparr>"

definition j_args :: "('s, 'x, 'st) job \<Rightarrow> 's \<Rightarrow> string \<Rightarrow> CheckpointStatus \<Rightarrow>
    YieldRequest option \<Rightarrow> string option \<Rightarrow> 's save_args" where
  "j_args j s next_node status request resolved = \<lparr>sa_thread_id = j_thread_id j, sa_state = s,
     sa_next_node = next_node, sa_dag = None, sa_status = status, sa_yield_request = request,
     sa_claimed_interrupt = None, sa_resolved_interrupt = resolved\<rparr>"

definition j_save :: "('s, 'x, 'st) job \<Rightarrow> 's \<Rightarrow> string \<Rightarrow> CheckpointStatus \<Rightarrow>
    YieldRequest option \<Rightarrow> string option \<Rightarrow> string option \<Rightarrow> (string, 'x, 'st) act" where
  "j_save j s next_node status request resolved expected_head =
     checked_save (j_env j) (g_resource_limits (j_graph j)) (j_ck j)
       (j_args j s next_node status request resolved) expected_head"

definition j_span :: "('s, 'x, 'st) job \<Rightarrow> string \<Rightarrow> u8 \<Rightarrow> u64 \<Rightarrow> f64 option \<Rightarrow> SpanStatus \<Rightarrow>
    string option \<Rightarrow> NodeMeta \<Rightarrow> ('x, 'st) world \<Rightarrow> ('x, 'st) world" where
  "j_span j = emit_span (j_thread_id j)"

definition j_finished :: "('s, 'x, 'st) job \<Rightarrow> string \<Rightarrow> u64 \<Rightarrow> string \<Rightarrow> f64 option \<Rightarrow>
    ('x, 'st) world \<Rightarrow> ('x, 'st) world" where
  "j_finished j = send_finished (j_thread_id j)"

section \<open>The branches of a step\<close>

text \<open>The end of the graph (lines 1213 to 1224).\<close>

definition seq_end :: "('s, 'x, 'st) job \<Rightarrow> 's seq \<Rightarrow> ('s flow, 'x, 'st) act" where
  "seq_end j q w = Some (Inr (Break (q_state q)),
     send_graph_finished (j_thread_id j) (q_running_cost q)
       (observe (OGraphComplete (j_thread_id j) (q_running_cost q) 0) w))"

text \<open>A declared interrupt before the node (lines 1226 to 1248).\<close>

definition seq_interrupt :: "('s, 'x, 'st) job \<Rightarrow> 's seq \<Rightarrow> ('s flow, 'x, 'st) act" where
  "seq_interrupt j q w =
     then_ok (j_save j (q_state q) (q_current q) CheckpointStatus.Interrupted None
                (j_resolved_interrupt j) (q_expected_head q) w)
       (\<lambda>_ w. Some (Inr (Break (q_state q)), w))"

text \<open>The call of the node (lines 1280 to 1367). The input is gone from the pending input after it.\<close>

definition seq_site ::
  "('s, 'x, 'st) job \<Rightarrow> 's seq \<Rightarrow> ('s, 'x) node \<Rightarrow> ('s, 'x) call_site" where
  "seq_site j q node = \<lparr>cs_env = j_env j, cs_thread_id = j_thread_id j, cs_node_name = q_current q,
     cs_node = node, cs_retry = effective_retry (j_graph j) (q_current q),
     cs_timeout = effective_timeout (j_graph j) (q_current q), cs_token = j_token j,
     cs_last_checkpoint_id = q_last_checkpoint_id q,
     cs_budget_remaining = map_option (\<lambda>b. fsub b (q_total_cost q)) (g_budget_eur (j_graph j)),
     cs_state = q_state q\<rparr>"

definition seq_call :: "('s, 'x, 'st) job \<Rightarrow> 's seq \<Rightarrow> ('s, 'x) node + ('s, 'x) dynamic_node \<Rightarrow>
    ('x, 'st) world \<Rightarrow> ((string + 's node_result) \<times> u8 \<times> ('x, 'st) world) option" where
  "seq_call j q callee w = (case callee of
       Inr dyn \<Rightarrow> call_dynamic (j_env j) (g_nodes (j_graph j)) dyn (j_thread_id j) (q_current q)
         (q_last_checkpoint_id q)
         (map_option (\<lambda>b. fsub b (q_total_cost q)) (g_budget_eur (j_graph j)))
         (j_token j) (q_input q) (q_state q) w
     | Inl node \<Rightarrow> retry_loop (seq_site j q node) 0 (q_input q) w)"

text \<open>The budget of the node (lines 1379 to 1395).\<close>

definition seq_node_budget :: "('s, 'x, 'st) job \<Rightarrow> string \<Rightarrow> u64 \<Rightarrow> NodeMeta \<Rightarrow> (unit, 'x, 'st) act" where
  "seq_node_budget j name ms meta w =
     (case effective_node_budget (j_graph j) name of
        None \<Rightarrow> Some (Inr (), w)
      | Some node_budget \<Rightarrow>
          if fgt (cost_or_zero meta) node_budget
          then Some (Inl (BudgetExceeded (cost_or_zero meta) node_budget),
                 j_finished j name ms ''failed'' (nm_cost_eur meta) w)
          else Some (Inr (), w))"

text \<open>The budget of the run (lines 1397 to 1440).\<close>

definition seq_run_budget ::
  "('s, 'x, 'st) job \<Rightarrow> string \<Rightarrow> u8 \<Rightarrow> u64 \<Rightarrow> NodeMeta \<Rightarrow> f64 \<Rightarrow> (unit, 'x, 'st) act" where
  "seq_run_budget j name attempt ms meta running w =
     (case g_budget_eur (j_graph j) of
        None \<Rightarrow> Some (Inr (), w)
      | Some budget \<Rightarrow>
          if fgt running budget
          then Some (Inl (BudgetExceeded running budget),
                 j_finished j name ms ''failed'' (nm_cost_eur meta)
                   (j_span j name attempt ms (Some running) SpanStatus.Error
                      (Some (display_budget running budget)) node_meta_default w))
          else Some (Inr (), w))"

text \<open>What is told and recorded about a call that succeeded (lines 1442 to 1488).\<close>

definition success_record :: "string \<Rightarrow> timestamp \<Rightarrow> u64 \<Rightarrow> u8 \<Rightarrow> NodeMeta \<Rightarrow> ExecutionRecord" where
  "success_record name started_at ms attempt meta = \<lparr>er_node_name = name,
     er_started_at = started_at, er_duration_ms = ms, er_status = ''success'',
     er_cost_eur = nm_cost_eur meta, er_checkpoint_id = None, er_attempts = attempt,
     er_actor = None, er_response_hash = None, er_tokens_in = nm_tokens_in meta,
     er_tokens_out = nm_tokens_out meta\<rparr>"

definition seq_report_success ::
  "('s, 'x, 'st) job \<Rightarrow> string \<Rightarrow> timestamp \<Rightarrow> u64 \<Rightarrow> u8 \<Rightarrow> NodeMeta \<Rightarrow> (unit, 'x, 'st) act" where
  "seq_report_success j name started_at ms attempt meta w =
     then_ok (push_record (max_execution_records (g_resource_limits (j_graph j)))
                (success_record name started_at ms attempt meta)
                (observe (ONodeComplete name ms SpanStatus.Success)
                   (j_span j name attempt ms (nm_cost_eur meta) SpanStatus.Success None meta w)))
       (\<lambda>_ w. Some (Inr (), j_finished j name ms ''success'' (nm_cost_eur meta) w))"

text \<open>The next node (lines 1492 to 1501).\<close>

definition edge_target :: "('s, 'x) graph \<Rightarrow> string \<Rightarrow> 's \<Rightarrow> string" where
  "edge_target g name s = (case g_edges g name of
       Some edge \<Rightarrow> follow_edge edge s
     | None \<Rightarrow> end_node)"

definition resolve_next_node :: "('s, 'x) graph \<Rightarrow> string \<Rightarrow> 's NodeOutput \<Rightarrow> string" where
  "resolve_next_node g name out = (case no_event out of
       Some target \<Rightarrow> target
     | None \<Rightarrow> edge_target g name (no_state out))"

text \<open>The checkpoint after the node, and a declared interrupt after it (lines 1503 to 1535).\<close>

definition seq_advance :: "('s, 'x, 'st) job \<Rightarrow> 's seq \<Rightarrow> 's NodeOutput \<Rightarrow> ('s flow, 'x, 'st) act" where
  "seq_advance j q out w =
     (let next = resolve_next_node (j_graph j) (q_current q) out in
      then_ok (j_save j (no_state out) next CheckpointStatus.Complete None
                 (j_resolved_interrupt j) (q_expected_head q) w)
        (\<lambda>c w. let w = observe (OCheckpointSaved (j_thread_id j) c)
                         (w\<lparr>w_last_head := Some (Some c)\<rparr>)
               in if q_current q \<in> g_interrupt_after (j_graph j)
                  then Some (Inr (Break (no_state out)), w)
                  else Some (Inr (Continue (q\<lparr>q_state := no_state out, q_current := next,
                         q_expected_head := Some c, q_last_checkpoint_id := Some c\<rparr>)), w)))"

text \<open>A call that succeeded (lines 1370 to 1536).\<close>

definition seq_success :: "('s, 'x, 'st) job \<Rightarrow> 's seq \<Rightarrow> timestamp \<Rightarrow> u8 \<Rightarrow> 's NodeOutput \<Rightarrow>
    ('s flow, 'x, 'st) act" where
  "seq_success j q started_at attempt out w =
     (let meta = no_meta out; name = q_current q;
          (ms, w) = elapsed_ms (j_env j) started_at w;
          running = fadd (q_running_cost q) (cost_or_zero meta);
          q = q\<lparr>q_running_cost := running, q_total_cost := running\<rparr>
      in then_ok (seq_node_budget j name ms meta w) (\<lambda>_ w.
         then_ok (seq_run_budget j name attempt ms meta running w) (\<lambda>_ w.
         then_ok (seq_report_success j name started_at ms attempt meta w) (\<lambda>_ w.
         seq_advance j q out w))))"

text \<open>A call that yielded (lines 1537 to 1587): the state saved is the one the node was given.\<close>

definition seq_yield :: "('s, 'x, 'st) job \<Rightarrow> 's seq \<Rightarrow> timestamp \<Rightarrow> u8 \<Rightarrow> YieldRequest \<Rightarrow>
    ('s flow, 'x, 'st) act" where
  "seq_yield j q started_at attempt request w =
     (let (ms, w) = elapsed_ms (j_env j) started_at w;
          w = j_span j (q_current q) attempt ms None SpanStatus.Cancelled
                (Some (yr_message request)) node_meta_default w;
          w = j_finished j (q_current q) ms ''yielded'' None w
      in then_ok (j_save j (q_state q) (q_current q) CheckpointStatus.Yielded (Some request) None
                    (q_expected_head q) w)
           (\<lambda>_ w. Some (Inr (Break (q_state q)), w)))"

text \<open>A call that failed (lines 1588 to 1709).\<close>

definition seq_report_failure :: "('s, 'x, 'st) job \<Rightarrow> string \<Rightarrow> timestamp \<Rightarrow> u8 \<Rightarrow> f64 option \<Rightarrow>
    string \<Rightarrow> ('x, 'st) world \<Rightarrow> ('x, 'st) world" where
  "seq_report_failure j name started_at attempt cost msg w =
     (let (ms, w) = elapsed_ms (j_env j) started_at w
      in j_finished j name ms ''failed'' None
           (j_span j name attempt ms cost SpanStatus.Error (Some msg) node_meta_default w))"

fun seq_result :: "('s, 'x, 'st) job \<Rightarrow> 's seq \<Rightarrow> timestamp \<Rightarrow> u8 \<Rightarrow> 's node_result \<Rightarrow>
    ('s flow, 'x, 'st) act" where
  "seq_result j q started_at attempt (Inr out) w = seq_success j q started_at attempt out w"
| "seq_result j q started_at attempt (Inl (Yield request)) w =
     seq_yield j q started_at attempt request w"
| "seq_result j q started_at attempt (Inl (Retryable msg)) w =
     Some (Inl (ExecutionError (''Node '' @ q_current q @
                  '' failed (retryable) after max attempts: '' @ msg)),
           seq_report_failure j (q_current q) started_at attempt None msg w)"
| "seq_result j q started_at attempt (Inl (Fatal msg)) w =
     Some (Inl (ExecutionError (''Node '' @ q_current q @ '' failed fatally: '' @ msg)),
           seq_report_failure j (q_current q) started_at attempt None msg w)"
| "seq_result j q started_at attempt (Inl (GBudgetExceeded spent limit)) w =
     Some (Inl (BudgetExceeded spent limit),
           seq_report_failure j (q_current q) started_at 0 (Some spent)
             (display_budget spent limit) w)"
| "seq_result j q started_at attempt (Inl (YieldInDynamicNode i)) w =
     Some (Inl (ExecutionError (''HITL yield inside dynamic node is not supported (node: '' @
                  quoted (q_current q) @ '', interrupt: '' @ quoted i @
                  ''). Move the yielding node to a top-level graph node.'')), w)"

text \<open>The node of a name (lines 1251 to 1260): a dynamic node hides a regular one.\<close>

definition find_node :: "('s, 'x) graph \<Rightarrow> string \<Rightarrow> (('s, 'x) node + ('s, 'x) dynamic_node) option" where
  "find_node g name = (case g_dynamic_nodes g name of
       Some dyn \<Rightarrow> Some (Inr dyn)
     | None \<Rightarrow> map_option Inl (g_nodes g name))"

definition seq_execute :: "('s, 'x, 'st) job \<Rightarrow> 's seq \<Rightarrow> ('s flow, 'x, 'st) act" where
  "seq_execute j q w = (case find_node (j_graph j) (q_current q) of
       None \<Rightarrow> Some (Inl (NodeNotFound (q_current q)), w)
     | Some callee \<Rightarrow>
         (let (started_at, w) = read_clock (j_env j) w;
              w = send_started (j_thread_id j) (q_current q) started_at w
          in case seq_call j q callee w of
               None \<Rightarrow> None
             | Some (Inl panic, _) \<Rightarrow> None
             | Some (Inr res, attempt, w) \<Rightarrow>
                 seq_result j (q\<lparr>q_input := None\<rparr>) started_at attempt res w))"

section \<open>The loop\<close>

definition seq_step :: "('s, 'x, 'st) job \<Rightarrow> 's seq \<Rightarrow> ('s flow, 'x, 'st) act" where
  "seq_step j q w =
     (let limit = max_sequential_steps (g_resource_limits (j_graph j)) in
      if limit \<le> q_step_count q then Some (Inl (StepLimitExceeded (q_step_count q) limit), w)
      else (let q = q\<lparr>q_step_count := Suc (q_step_count q)\<rparr> in
        if q_current q = end_node then seq_end j q w
        else if \<not> q_first q \<and> q_current q \<in> g_interrupt_before (j_graph j)
        then seq_interrupt j q w
        else seq_execute j (q\<lparr>q_first := False\<rparr>) w))"

lemma seq_advance_count:
  "seq_advance j q out w = Some (Inr (Continue q'), w') \<Longrightarrow> q_step_count q' = q_step_count q"
  by (auto simp: seq_advance_def then_ok_Some Let_def split: if_splits)

lemma seq_success_count:
  "seq_success j q t a out w = Some (Inr (Continue q'), w') \<Longrightarrow> q_step_count q' = q_step_count q"
  by (auto simp: seq_success_def then_ok_Some Let_def split: prod.splits dest!: seq_advance_count)

lemma seq_result_count:
  "seq_result j q t a res w = Some (Inr (Continue q'), w') \<Longrightarrow> q_step_count q' = q_step_count q"
  by (induction j q t a res w rule: seq_result.induct)
     (auto simp: seq_yield_def then_ok_Some Let_def split: prod.splits dest: seq_success_count)

lemma seq_execute_count:
  "seq_execute j q w = Some (Inr (Continue q'), w') \<Longrightarrow> q_step_count q' = q_step_count q"
  by (auto simp: seq_execute_def Let_def split: option.splits prod.splits sum.splits
      dest: seq_result_count)

lemma seq_step_count:
  assumes "seq_step j q w = Some (Inr (Continue q'), w')"
  shows "q_step_count q < max_sequential_steps (g_resource_limits (j_graph j)) \<and>
     q_step_count q' = Suc (q_step_count q)"
  using assms
  by (auto simp: seq_step_def Let_def seq_end_def seq_interrupt_def then_ok_Some
      split: if_splits dest!: seq_execute_count)

function seq_loop :: "('s, 'x, 'st) job \<Rightarrow> 's seq \<Rightarrow> ('s, 'x, 'st) act" where
  "seq_loop j q w = (case seq_step j q w of
       None \<Rightarrow> None
     | Some (Inl e, w) \<Rightarrow> Some (Inl e, w)
     | Some (Inr (Break s), w) \<Rightarrow> Some (Inr s, w)
     | Some (Inr (Continue q), w) \<Rightarrow> seq_loop j q w)"
  by pat_completeness auto

termination
  by (relation "measure (\<lambda>(j, q, _). max_sequential_steps (g_resource_limits (j_graph j)) - q_step_count q)")
     (auto dest!: seq_step_count)

declare seq_loop.simps [simp del]

text \<open>How the loop goes on after a pass, and what it does at the end node.\<close>

lemma seq_loop_step:
  "seq_step j q w = None \<Longrightarrow> seq_loop j q w = None"
  "seq_step j q w = Some (Inl e, w') \<Longrightarrow> seq_loop j q w = Some (Inl e, w')"
  "seq_step j q w = Some (Inr (Break s), w') \<Longrightarrow> seq_loop j q w = Some (Inr s, w')"
  "seq_step j q w = Some (Inr (Continue q'), w') \<Longrightarrow> seq_loop j q w = seq_loop j q' w'"
  by (simp_all add: seq_loop.simps[of j q w])

lemma seq_loop_end:
  assumes "q_current q = end_node" and "q_step_count q < max_sequential_steps (g_resource_limits (j_graph j))"
  shows "seq_loop j q w = Some (Inr (q_state q), send_graph_finished (j_thread_id j) (q_running_cost q)
       (observe (OGraphComplete (j_thread_id j) (q_running_cost q) 0) w))"
  by (rule seq_loop_step(3)) (use assms in \<open>simp add: seq_step_def Let_def seq_end_def\<close>)

definition run_inner :: "('s, 'x, 'st) job \<Rightarrow> 's \<Rightarrow> string \<Rightarrow> json option \<Rightarrow> ('s, 'x, 'st) act" where
  "run_inner j s start_node input w =
     then_ok (on_store (ck_current_head (j_ck j) (j_thread_id j)) w)
       (\<lambda>head w. seq_loop j (seq_start s start_node input head) (w\<lparr>w_last_head := Some head\<rparr>))"

text \<open>\<open>&mut None\<close>: the head the run writes is not looked at.\<close>

definition run :: "'s env \<Rightarrow> ('s, 'x) graph \<Rightarrow> ('s, 'st) checkpointer \<Rightarrow> string \<Rightarrow> 's \<Rightarrow> string \<Rightarrow>
    cancel_token option \<Rightarrow> ('s, 'x, 'st) act" where
  "run env g ck thread_id s start_node token w =
     run_inner \<lparr>j_env = env, j_graph = g, j_ck = ck, j_thread_id = thread_id, j_token = token,
       j_resolved_interrupt = None\<rparr> s start_node None (w\<lparr>w_last_head := None\<rparr>)"

end
