(* ===== verification/Call_Facts.thy ===== *)
theory Call_Facts
  imports Exec
begin

text \<open>
  What the shared parts of the runners guarantee: the delay between attempts, the number of
  attempts and what each is told, the bounded history.
\<close>

section \<open>The delay between attempts\<close>

lemma unat_push_bit_one: "k \<le> 10 \<Longrightarrow> unat (push_bit k (1 :: u64)) = 2 ^ k"
  by (subst unsigned_push_bit_eq) simp

lemma unat_min_10: "unat (min (a :: u8) 10) = min (unat a) 10"
  by (auto simp: min_def word_le_nat_alt)

text \<open>The delay before jitter, in milliseconds, as a number.\<close>

definition backoff :: "RetryPolicy \<Rightarrow> u8 \<Rightarrow> nat" where
  "backoff p attempt = min (min (unat (base_delay_ms p) * 2 ^ min (unat attempt) 10) (2 ^ 64 - 1))
     (unat (max_delay_ms p))"

lemma unat_min_u64: "unat (min (a :: u64) b) = min (unat a) (unat b)"
  by (auto simp: min_def word_le_nat_alt)

lemma unat_delay_capped: "unat (delay_capped p attempt) = backoff p attempt"
proof -
  have "unat (min attempt 10) \<le> 10" by (simp add: unat_min_10)
  from unat_push_bit_one[OF this] show ?thesis
    by (simp add: delay_capped_def delay_base_def backoff_def unat_min_u64 unat_sat_mul unat_min_10)
qed

lemma delay_no_jitter:
  "\<not> jitter p \<Longrightarrow> delay_for env p attempt y = (backoff p attempt * 1000000, y)"
  by (simp add: delay_for_def delay_ms_def unat_delay_capped)

lemma delay_jitter:
  assumes "jitter p"
  shows "fst (delay_for env p attempt y) = 1000000 * min (2 ^ 64 - 1)
     (backoff p attempt - backoff p attempt div 4 div 2 +
      (if 4 \<le> backoff p attempt
       then unat (e_rand env (rand_draws y)) mod (backoff p attempt div 4) else 0))"
proof -
  let ?c = "delay_capped p attempt"
  have jr: "unat (?c div 4) = backoff p attempt div 4" "unat (?c div 4 div 2) = backoff p attempt div 4 div 2"
    by (simp_all add: unat_div unat_delay_capped)
  have pos: "0 < ?c div 4 \<longleftrightarrow> 4 \<le> backoff p attempt"
    by (simp add: word_less_nat_alt jr div_greater_zero_iff)
  show ?thesis
    using assms pos
    by (simp add: delay_for_def delay_ms_def Let_def random_u64_def unat_sat_add unat_sat_sub
        unat_delay_capped jr unat_mod min.commute split: prod.splits)
qed

text \<open>C9: \<open>delay_for\<close> waits the exponential backoff, capped at the maximum delay, when jitter is off;
  with jitter it waits at least 7/8 of it and at most 9/8 of it (plus a millisecond for the roundings),
  not the 25 per cent up and down that the field's documentation promises.\<close>

theorem delay_bounds:
  "if jitter p
   then (let ms = fst (delay_for env p attempt y) div 1000000 in
      backoff p attempt \<le> ms + backoff p attempt div 8 + 1 \<and>
      ms \<le> backoff p attempt + backoff p attempt div 8 + 1)
   else delay_for env p attempt y = (backoff p attempt * 1000000, y)"
proof -
  let ?b = "backoff p attempt"
  have b: "?b \<le> 2 ^ 64 - 1" by (simp add: backoff_def)
  have e: "?b div 4 div 2 = ?b div 8" by (simp add: div_mult2_eq[symmetric])
  define k where "k = (if 4 \<le> ?b then unat (e_rand env (rand_draws y)) mod (?b div 4) else 0)"
  have "k \<le> ?b div 4" by (simp add: k_def mod_le_divisor)
  moreover have "?b div 4 \<le> 2 * (?b div 8) + 1" by linarith
  ultimately have k: "k \<le> 2 * (?b div 8) + 1" by linarith
  show ?thesis
  proof (cases "jitter p")
    case True
    then have ms: "fst (delay_for env p attempt y) div 1000000 = min (2 ^ 64 - 1) (?b - ?b div 8 + k)"
      by (simp add: delay_jitter e k_def)
    have "?b div 8 \<le> ?b" by simp
    then have "let ms = fst (delay_for env p attempt y) div 1000000 in
      ?b \<le> ms + ?b div 8 + 1 \<and> ms \<le> ?b + ?b div 8 + 1"
      using b k unfolding ms Let_def by linarith
    with True show ?thesis by simp
  qed (simp add: delay_no_jitter)
qed

text \<open>With jitter the delay can be longer than the maximum delay of the policy: the cap is applied
  before the jitter.\<close>

theorem delay_exceeds_cap:
  assumes "jitter p" and "max_delay_ms p \<le> base_delay_ms p"
    and "12 \<le> unat (max_delay_ms p)" and "unat (max_delay_ms p) < 2 ^ 63"
    and "unat (e_rand env (rand_draws y)) mod (unat (max_delay_ms p) div 4) =
         unat (max_delay_ms p) div 4 - 1"
  shows "unat (max_delay_ms p) * 1000000 < fst (delay_for env p attempt y)"
proof -
  have "unat (base_delay_ms p) < 2 ^ 64" using unsigned_less[of "base_delay_ms p"] by simp
  moreover have "unat (base_delay_ms p) * 1 \<le> unat (base_delay_ms p) * 2 ^ min (unat attempt) 10"
    by (intro mult_le_mono2) simp
  moreover have "unat (max_delay_ms p) \<le> unat (base_delay_ms p)"
    using assms(2) by (simp add: word_le_nat_alt)
  ultimately have "unat (max_delay_ms p) \<le>
      min (unat (base_delay_ms p) * 2 ^ min (unat attempt) 10) (2 ^ 64 - 1)" by linarith
  then have b: "backoff p attempt = unat (max_delay_ms p)"
    unfolding backoff_def by (rule min_absorb2)
  have "unat (max_delay_ms p) div 4 div 2 < unat (max_delay_ms p) div 4 - 1"
    using assms(3) by linarith
  moreover have "unat (max_delay_ms p) div 4 div 2 \<le> unat (max_delay_ms p)"
    by (rule order_trans[OF div_le_dividend div_le_dividend])
  ultimately have "unat (max_delay_ms p) < unat (max_delay_ms p) -
      unat (max_delay_ms p) div 4 div 2 + (unat (max_delay_ms p) div 4 - 1)" by linarith
  with assms(3,4) show ?thesis
    unfolding delay_jitter[OF assms(1)] b assms(5) by simp
qed

theorem delay_exceeds_cap_witness:
  "\<exists>y. 16 * 1000000 < fst (delay_for sample_env
     \<lparr>max_attempts = 3, base_delay_ms = 500, max_delay_ms = 16, jitter = True\<rparr> 0 y)"
  using delay_exceeds_cap[of "\<lparr>max_attempts = 3, base_delay_ms = 500, max_delay_ms = 16, jitter = True\<rparr>"
      sample_env "sample_sys\<lparr>rand_draws := 1\<rparr>" 0]
  by (auto simp: sample_env_def)

section \<open>The execution history\<close>

lemma evict_short: "evict limit records = Some rs \<Longrightarrow> length rs < limit"
  by (erule evict.raw_induct[rotated]) (auto split: if_splits)

lemma evict_zero: "evict 0 records = None"
  using evict_short[of 0 records] by (cases "evict 0 records") auto

lemma evict_pos:
  "0 < limit \<Longrightarrow> evict limit records = Some (drop (length records - (limit - 1)) records)"
proof (induction records)
  case Nil
  then show ?case by (subst evict.simps) simp
next
  case (Cons r records)
  then show ?case by (subst evict.simps) (auto simp: Suc_diff_le not_le)
qed

text \<open>Writing an execution record keeps the last \<open>max_execution_records - 1\<close> records and appends the
  new one, so the history never exceeds the limit; with a limit of 0 the write does not return.\<close>

theorem push_record_spec:
  "push_record limit r w = (if limit = 0 then None else
     Some (Inr (), w\<lparr>w_records := drop (length (w_records w) - (limit - 1)) (w_records w) @ [r]\<rparr>)) \<and>
   (\<forall>w'. push_record limit r w = Some (Inr (), w') \<longrightarrow> length (execution_history w') \<le> limit \<and>
      last (execution_history w') = r)"
  by (auto simp: push_record_def evict_zero evict_pos execution_history_def)

theorem push_record_spec_witness:
  "\<forall>r (w :: (nat, nat) world). \<exists>w'. push_record 1 r w = Some (Inr (), w') \<and>
     length (execution_history w') \<le> 1"
proof (intro allI)
  fix r and w :: "(nat, nat) world"
  from push_record_spec[of 1 r w]
  show "\<exists>w'. push_record 1 r w = Some (Inr (), w') \<and> length (execution_history w') \<le> 1" by auto
qed

section \<open>The retry loop\<close>

text \<open>The context of an attempt, the \<open>u\<close>-th UUID being its identifier.\<close>

definition site_context :: "('s, 'x) call_site \<Rightarrow> u8 \<Rightarrow> json option \<Rightarrow> nat \<Rightarrow> NodeContext" where
  "site_context c attempt input u = \<lparr>cx_thread_id = cs_thread_id c, cx_node_name = cs_node_name c,
     cx_attempt = attempt,
     cx_execution_id = e_uuid_text (cs_env c) (e_uuid5 (cs_env c)
        (execution_seed (cs_thread_id c) (cs_node_name c) (cs_last_checkpoint_id c))),
     cx_attempt_id = e_uuid_text (cs_env c) (e_uuid4 (cs_env c) u),
     cx_last_checkpoint_id = cs_last_checkpoint_id c,
     cx_budget_remaining_eur = cs_budget_remaining c, cx_cancellation = cs_token c,
     cx_resumed_input = input\<rparr>"

definition attempts_allowed :: "RetryPolicy \<Rightarrow> nat" where
  "attempts_allowed p = max 1 (unat (max_attempts p))"

text \<open>A node that also writes down the context of every call.\<close>

definition logged :: "('s, 'x) node \<Rightarrow> ('s, 'x \<times> NodeContext list) node" where
  "logged node ctx s = (\<lambda>(x, log). let (f, x) = node ctx s x in (f, (x, log @ [ctx])))"

lemma call_once_parts:
  "call_once c attempt input w =
     (let (f, x) = cs_node c (site_context c attempt input (uuid_draws (w_sys w))) (cs_state c) (w_ext w)
      in (with_cancellation (cs_token c) (w_awaits w) (with_timeout (cs_node_name c) (cs_timeout c) f),
          w\<lparr>w_ext := x, w_sys := (w_sys w)\<lparr>uuid_draws := Suc (uuid_draws (w_sys w))\<rparr>,
            w_awaits := Suc (w_awaits w)\<rparr>))"
  by (simp add: call_once_def node_context_new_def new_v4_def site_context_def Let_def)

lemma before_retry_parts [simp]:
  "w_ext (before_retry c a msg w) = w_ext w" "w_store (before_retry c a msg w) = w_store w"
  "w_records (before_retry c a msg w) = w_records w" "w_seq (before_retry c a msg w) = w_seq w"
  "w_last_head (before_retry c a msg w) = w_last_head w"
  "w_awaits (before_retry c a msg w) = w_awaits w"
  "uuid_draws (w_sys (before_retry c a msg w)) = uuid_draws (w_sys w)"
  "now_reads (w_sys (before_retry c a msg w)) = now_reads (w_sys w)"
  by (simp_all add: before_retry_def delay_for_def delay_ms_def random_u64_def observe_def
      emit_span_def Let_def split: prod.splits)

text \<open>One unfolding of the loop, while the counter is below the number of attempts.\<close>

lemma attempts_step:
  assumes "unat a < attempts_allowed p"
  shows "a \<noteq> - 1" and "max_attempts p \<le> a + 1 \<longleftrightarrow> attempts_allowed p = Suc (unat a)"
    and "unat (a + 1) = Suc (unat a)"
proof -
  have "unat (max_attempts p) < 2 ^ 8" using unsigned_less[of "max_attempts p"] by simp
  with assms have a: "unat a < 255" by (auto simp: attempts_allowed_def max_def split: if_splits)
  have "unat (- 1 :: u8) = 255" by (simp add: unsigned_minus_1_eq_mask mask_eq_exp_minus_1)
  with a show "a \<noteq> - 1" by auto
  from a show u: "unat (a + 1) = Suc (unat a)" by (simp add: unat_word_ariths)
  show "max_attempts p \<le> a + 1 \<longleftrightarrow> attempts_allowed p = Suc (unat a)"
    using assms by (auto simp: word_le_nat_alt u attempts_allowed_def)
qed

lemma retry_unfold:
  assumes "unat a < attempts_allowed (cs_retry c)"
  shows "retry_loop c a input w = (case call_once c a input w of (f, w) \<Rightarrow>
     (case f of
        Never \<Rightarrow> None
      | Panics _ m \<Rightarrow> Some (Inl m, a, w)
      | Ready _ res \<Rightarrow> (case res of
            Inr out \<Rightarrow> Some (Inr (Inr out), a, w)
          | Inl (Retryable msg) \<Rightarrow>
              if attempts_allowed (cs_retry c) = Suc (unat a)
              then Some (Inr (Inl (Retryable msg)), a + 1, w)
              else retry_loop c (a + 1) None (before_retry c (a + 1) msg w)
          | Inl other \<Rightarrow> Some (Inr (Inl other), a, w))))"
  using attempts_step(1,2)[OF assms]
  by (subst retry_loop.simps) (simp cong: future.case_cong sum.case_cong GraphError.case_cong)

lemma call_once_frame:
  assumes "call_once c a input w = (f, w')"
  shows "w_store w' = w_store w" "w_records w' = w_records w" "w_seq w' = w_seq w"
    "w_last_head w' = w_last_head w" "w_awaits w' = Suc (w_awaits w)"
    "later (w_sys w) (w_sys w')"
  using assms by (auto simp: call_once_parts Let_def later_def split: prod.splits)

text \<open>Nothing happens to the store, and no draw is taken back.\<close>

definition quiet :: "('x, 'st) world \<Rightarrow> ('x, 'st) world \<Rightarrow> bool" where
  "quiet w w' \<longleftrightarrow> w_store w' = w_store w \<and> later (w_sys w) (w_sys w')"

lemma quiet_refl [simp, intro]: "quiet w w"
  by (simp add: quiet_def)

lemma quiet_trans [trans]: "quiet w w' \<Longrightarrow> quiet w' w'' \<Longrightarrow> quiet w w''"
  by (auto simp: quiet_def intro: later_trans)

lemma quiet_store: "quiet w w' \<Longrightarrow> w_store w' = w_store w"
  by (simp add: quiet_def)

definition same_frame :: "('x, 'st) world \<Rightarrow> ('x, 'st) world \<Rightarrow> bool" where
  "same_frame w w' \<longleftrightarrow> w_store w' = w_store w \<and> w_records w' = w_records w \<and>
     w_seq w' = w_seq w \<and> w_last_head w' = w_last_head w \<and> later (w_sys w) (w_sys w')"

lemma same_frame_quiet: "same_frame w w' \<Longrightarrow> quiet w w'"
  by (simp add: same_frame_def quiet_def)

lemma retry_loop_frame:
  assumes "unat a < attempts_allowed (cs_retry c)" and "retry_loop c a input w = Some (r, a', w')"
  shows "same_frame w w' \<and> w_awaits w < w_awaits w' \<and>
     unat a + (w_awaits w' - w_awaits w) \<le> attempts_allowed (cs_retry c) \<and>
     (\<forall>msg. r = Inr (Inl (Retryable msg)) \<longrightarrow>
        unat a + (w_awaits w' - w_awaits w) = attempts_allowed (cs_retry c))"
  using assms
proof (induction "attempts_allowed (cs_retry c) - unat a" arbitrary: a input w rule: less_induct)
  case less
  note u = retry_unfold[OF less.prems(1), of input w]
  obtain f w1 where call: "call_once c a input w = (f, w1)" by fastforce
  note fr = call_once_frame[OF call]
  show ?case
  proof (cases "\<exists>d msg. f = Ready d (Inl (Retryable msg)) \<and> attempts_allowed (cs_retry c) \<noteq> Suc (unat a)")
    case True
    then obtain d msg where f: "f = Ready d (Inl (Retryable msg))"
      and ne: "attempts_allowed (cs_retry c) \<noteq> Suc (unat a)" by blast
    have rec: "retry_loop c (a + 1) None (before_retry c (a + 1) msg w1) = Some (r, a', w')"
      using less.prems(2) ne by (simp add: u call f)
    have a1: "unat (a + 1) = Suc (unat a)" by (rule attempts_step(3)[OF less.prems(1)])
    have b1: "unat (a + 1) < attempts_allowed (cs_retry c)" using a1 ne less.prems(1) by simp
    have m: "attempts_allowed (cs_retry c) - unat (a + 1) < attempts_allowed (cs_retry c) - unat a"
      using a1 less.prems(1) by simp
    have "later (w_sys w) (w_sys (before_retry c (a + 1) msg w1))"
      using fr(6) by (simp add: later_def)
    with less.hyps[OF m b1 rec] show ?thesis
      by (auto simp: same_frame_def fr a1 intro: later_trans)
  next
    case False
    with less.prems have "w' = w1" and
      "\<And>msg. r = Inr (Inl (Retryable msg)) \<Longrightarrow> attempts_allowed (cs_retry c) = Suc (unat a)"
      by (auto simp: u call split: future.splits sum.splits GraphError.splits if_splits)
    with less.prems(1) show ?thesis by (auto simp: same_frame_def fr)
  qed
qed

lemma retry_loop_log:
  assumes "unat a < attempts_allowed (cs_retry c)" and "retry_loop c a input w = Some (r, a', w')"
    and "cs_node c = logged node"
  shows "snd (w_ext w') = snd (w_ext w) @ map (\<lambda>k. site_context c (a + of_nat k)
       (if k = 0 then input else None) (uuid_draws (w_sys w) + k)) [0..<w_awaits w' - w_awaits w]"
  using assms(1,2)
proof (induction "attempts_allowed (cs_retry c) - unat a" arbitrary: a input w rule: less_induct)
  case less
  note u = retry_unfold[OF less.prems(1), of input w]
  obtain f w1 where call: "call_once c a input w = (f, w1)" by fastforce
  note fr = call_once_frame[OF call]
  obtain x0 l0 where e: "w_ext w = (x0, l0)" by fastforce
  obtain f1 x1 where nx: "node (site_context c a input (uuid_draws (w_sys w))) (cs_state c) x0 = (f1, x1)"
    by fastforce
  have log: "snd (w_ext w1) = snd (w_ext w) @ [site_context c a input (uuid_draws (w_sys w))]"
    "uuid_draws (w_sys w1) = Suc (uuid_draws (w_sys w))"
    using call unfolding call_once_parts assms(3) logged_def e
    by (auto simp add: nx)
  show ?case
  proof (cases "\<exists>d msg. f = Ready d (Inl (Retryable msg)) \<and> attempts_allowed (cs_retry c) \<noteq> Suc (unat a)")
    case True
    then obtain d msg where f: "f = Ready d (Inl (Retryable msg))"
      and ne: "attempts_allowed (cs_retry c) \<noteq> Suc (unat a)" by blast
    have rec: "retry_loop c (a + 1) None (before_retry c (a + 1) msg w1) = Some (r, a', w')"
      using less.prems(2) ne by (simp add: u call f)
    have a1: "unat (a + 1) = Suc (unat a)" by (rule attempts_step(3)[OF less.prems(1)])
    have b1: "unat (a + 1) < attempts_allowed (cs_retry c)" using a1 ne less.prems(1) by simp
    have m: "attempts_allowed (cs_retry c) - unat (a + 1) < attempts_allowed (cs_retry c) - unat a"
      using a1 less.prems(1) by simp
    have "Suc (w_awaits w) < w_awaits w'"
      using retry_loop_frame[OF b1 rec] fr by simp
    then have n: "w_awaits w' - w_awaits w = Suc (w_awaits w' - Suc (w_awaits w))" by linarith
    from less.hyps[OF m b1 rec] show ?thesis
      unfolding n upt_conv_Cons[OF zero_less_Suc] map_Suc_upt[symmetric]
      by (simp add: log fr add.assoc add.commute add.left_commute comp_def)
  next
    case False
    with less.prems have "w' = w1"
      by (auto simp: u call split: future.splits sum.splits GraphError.splits if_splits)
    then show ?thesis by (simp add: log fr)
  qed
qed

lemma retry_loop_returns:
  assumes "unat a < attempts_allowed (cs_retry c)"
    and "\<And>ctx s x. \<exists>d res. fst (cs_node c ctx s x) = Ready d res"
  shows "\<exists>res a' w'. retry_loop c a input w = Some (Inr res, a', w')"
  using assms(1)
proof (induction "attempts_allowed (cs_retry c) - unat a" arbitrary: a input w rule: less_induct)
  case less
  note u = retry_unfold[OF less.prems(1), of input w]
  obtain g x where nx: "cs_node c (site_context c a input (uuid_draws (w_sys w))) (cs_state c) (w_ext w) = (g, x)"
    by fastforce
  with assms(2)[of "site_context c a input (uuid_draws (w_sys w))" "cs_state c" "w_ext w"]
  obtain d0 r0 where g: "g = Ready d0 r0" by auto
  have "\<exists>d res. with_cancellation t k (with_timeout n tm (Ready d0 r0)) = Ready d res" for t k n tm
    by (cases tm) (auto simp: with_cancellation_def cancel_at_def split: option.splits)
  then obtain d res where "with_cancellation (cs_token c) (w_awaits w)
      (with_timeout (cs_node_name c) (cs_timeout c) (Ready d0 r0)) = Ready d res" by blast
  then have "fst (call_once c a input w) = Ready d res"
    unfolding call_once_parts nx g by simp
  then obtain w1 where call: "call_once c a input w = (Ready d res, w1)" by (metis prod.collapse)
  show ?case
  proof (cases "\<exists>msg. res = Inl (Retryable msg) \<and> attempts_allowed (cs_retry c) \<noteq> Suc (unat a)")
    case True
    have a1: "unat (a + 1) = Suc (unat a)" by (rule attempts_step(3)[OF less.prems(1)])
    have b1: "unat (a + 1) < attempts_allowed (cs_retry c)" using a1 True less.prems(1) by auto
    have m: "attempts_allowed (cs_retry c) - unat (a + 1) < attempts_allowed (cs_retry c) - unat a"
      using a1 less.prems(1) by simp
    from True obtain msg where msg: "res = Inl (Retryable msg)"
      and ne: "attempts_allowed (cs_retry c) \<noteq> Suc (unat a)" by blast
    have "retry_loop c a input w = retry_loop c (a + 1) None (before_retry c (a + 1) msg w1)"
      using ne by (simp add: u call msg)
    with less.hyps[OF m b1] show ?thesis by metis
  next
    case False
    then show ?thesis by (auto simp add: u call split: sum.splits GraphError.splits)
  qed
qed

lemma zero_attempts: "unat (0 :: u8) < attempts_allowed p"
  by (simp add: attempts_allowed_def)

text \<open>A call site whose node always asks for another attempt, and a world to start in.\<close>

definition sample_site :: "(nat, unit \<times> NodeContext list) call_site" where
  "sample_site = \<lparr>cs_env = sample_env, cs_thread_id = ''t'', cs_node_name = ''n'',
     cs_node = logged (\<lambda>ctx s x. (Ready 0 (Inl (Retryable ''again'')), x)),
     cs_retry = retry_policy_default, cs_timeout = None, cs_token = None,
     cs_last_checkpoint_id = None, cs_budget_remaining = None, cs_state = 0\<rparr>"

definition sample_world :: "'x \<Rightarrow> 'st \<Rightarrow> ('x, 'st) world" where
  "sample_world x st = \<lparr>w_ext = x, w_store = st, w_sys = sample_sys, w_seq = 0, w_awaits = 0,
     w_records = [], w_trace = [], w_last_head = None\<rparr>"

lemma sample_site_completes: "\<exists>d res. fst (cs_node sample_site ctx s x) = Ready d res"
  by (cases x) (simp add: sample_site_def logged_def)

text \<open>C7: the retry loop calls a node at least once and at most \<open>max 1 max_attempts\<close> times, exactly that
  often when it gives up on a retryable error; the attempts are numbered from 0, share one execution
  identifier, have distinct attempt identifiers, and only the first one is given the resume input.\<close>

theorem retry_attempts:
  assumes "retry_loop c 0 input w = Some (r, a, w')" and "cs_node c = logged node"
    and "uuids_fresh (cs_env c)"
  shows "\<exists>calls. snd (w_ext w') = snd (w_ext w) @ calls \<and>
     calls \<noteq> [] \<and> length calls \<le> attempts_allowed (cs_retry c) \<and>
     (\<forall>msg. r = Inr (Inl (Retryable msg)) \<longrightarrow> length calls = attempts_allowed (cs_retry c)) \<and>
     map cx_attempt calls = map of_nat [0..<length calls] \<and>
     map cx_resumed_input calls = input # replicate (length calls - 1) None \<and>
     distinct (map cx_attempt_id calls) \<and>
     (\<forall>ctx \<in> set calls. cx_execution_id ctx = e_uuid_text (cs_env c) (e_uuid5 (cs_env c)
        (execution_seed (cs_thread_id c) (cs_node_name c) (cs_last_checkpoint_id c))))"
proof -
  note fr = retry_loop_frame[OF zero_attempts assms(1)]
  define n where "n = w_awaits w' - w_awaits w"
  let ?f = "\<lambda>k. site_context c (0 + of_nat k) (if k = 0 then input else None) (uuid_draws (w_sys w) + k)"
  have n: "0 < n" using fr by (simp add: n_def)
  have log: "snd (w_ext w') = snd (w_ext w) @ map ?f [0..<n]"
    using retry_loop_log[OF zero_attempts assms(1,2)] by (simp add: n_def)
  have "inj (\<lambda>k. e_uuid_text (cs_env c) (e_uuid4 (cs_env c) (uuid_draws (w_sys w) + k)))"
    using assms(3) by (auto simp: uuids_fresh_def intro!: injI dest!: injD)
  then have d: "distinct (map cx_attempt_id (map ?f [0..<n]))"
    by (auto simp: distinct_map site_context_def inj_on_def inj_def)
  have "map cx_resumed_input (map ?f [0..<n]) = input # replicate (n - 1) None"
    using n by (intro nth_equalityI) (auto simp: site_context_def nth_Cons')
  moreover have "map cx_attempt (map ?f [0..<n]) = map of_nat [0..<n]"
    by (simp add: site_context_def)
  moreover have "map ?f [0..<n] \<noteq> []" "n \<le> attempts_allowed (cs_retry c)"
    "\<forall>msg. r = Inr (Inl (Retryable msg)) \<longrightarrow> n = attempts_allowed (cs_retry c)"
    using n fr by (auto simp: n_def)
  ultimately show ?thesis
    using log d by (intro exI[of _ "map ?f [0..<n]"]) (auto simp: site_context_def)
qed

theorem retry_attempts_witness:
  "\<exists>r a w' calls. retry_loop sample_site 0 None (sample_world ((), []) (0 :: nat)) = Some (r, a, w') \<and>
     snd (w_ext w') = calls \<and> calls \<noteq> [] \<and> length calls \<le> 3 \<and> distinct (map cx_attempt_id calls)"
proof -
  obtain r a w' where r: "retry_loop sample_site 0 None (sample_world ((), []) (0 :: nat)) =
      Some (Inr r, a, w')"
    using retry_loop_returns[OF zero_attempts sample_site_completes] by blast
  have n: "cs_node sample_site = logged (\<lambda>ctx s x. (Ready 0 (Inl (Retryable ''again'')), x))"
    and f: "uuids_fresh (cs_env sample_site)" and m: "attempts_allowed (cs_retry sample_site) = 3"
    by (simp_all add: sample_site_def sample_env_fresh attempts_allowed_def retry_policy_default_def)
  from retry_attempts[OF r n f] m have "\<exists>calls. snd (w_ext w') = calls \<and> calls \<noteq> [] \<and>
      length calls \<le> 3 \<and> distinct (map cx_attempt_id calls)"
    by (auto simp: sample_world_def)
  with r show ?thesis by blast
qed

text \<open>C8: when every call of the node completes, the retry loop completes, without panicking: the attempt
  counter does not overflow, whatever the policy.\<close>

theorem retry_returns:
  assumes "\<And>ctx s x. \<exists>d res. fst (cs_node c ctx s x) = Ready d res"
  shows "\<exists>res a w'. retry_loop c 0 input w = Some (Inr res, a, w')"
  by (rule retry_loop_returns[OF zero_attempts assms])

theorem retry_returns_witness:
  "\<exists>res a w'. retry_loop sample_site 0 None (sample_world ((), []) (0 :: nat)) = Some (Inr res, a, w')"
  by (rule retry_returns[OF sample_site_completes])

end
