(* ===== verification/Memory_Store.thy ===== *)
theory Memory_Store
  imports Checkpoint
begin

text \<open>
  \<open>src/store/memory.rs\<close>: the in-memory checkpointer, a mutex around a map from thread ids to
  vectors of checkpoints. Every operation takes the lock for its whole body, so each is one
  atomic step. \<open>ms_poisoned\<close> says whether a thread has panicked while it held the lock. A state is
  kept as the JSON value \<open>serde_json\<close> makes of it.
\<close>

record MemoryCheckpoint =
  mc_checkpoint_id :: string
  mc_state :: json
  mc_next_node :: string
  mc_dag :: "DAG option"
  mc_status :: CheckpointStatus
  mc_created_at :: timestamp
  mc_yield_request :: "YieldRequest option"
  mc_claimed_interrupt :: "string option"
  mc_resolved_interrupt :: "string option"

definition mc_to_meta :: "string \<Rightarrow> MemoryCheckpoint \<Rightarrow> CheckpointMeta" where
  "mc_to_meta thread_id c = \<lparr>cm_checkpoint_id = mc_checkpoint_id c, cm_thread_id = thread_id,
     cm_next_node = mc_next_node c, cm_graph_version = None, cm_state_schema_version = None,
     cm_status = mc_status c, cm_created_at = mc_created_at c,
     cm_yield_request = mc_yield_request c, cm_claimed_interrupt = mc_claimed_interrupt c,
     cm_resolved_interrupt = mc_resolved_interrupt c\<rparr>"

record mem_store =
  ms_poisoned :: bool
  ms_map :: "string \<rightharpoonup> MemoryCheckpoint list"

definition mem_new :: mem_store where
  "mem_new = \<lparr>ms_poisoned = False, ms_map = Map.empty\<rparr>"

definition mutex_poisoning :: TakelnError where
  "mutex_poisoning = CheckpointError
     (''Mutex poisoning: '' @ ''poisoned lock: another task failed inside'')"

section \<open>Operations\<close>

definition mem_save_state :: "'s env \<Rightarrow> 's save_args \<Rightarrow> (string, mem_store) store_op" where
  "mem_save_state env a = (\<lambda>(st, y). case e_to_value env (sa_state a) of
       Inl e \<Rightarrow> Some (Inl (SerializationError e), (st, y))
     | Inr val \<Rightarrow>
         (let (u, y) = new_v4 env y;
              checkpoint_id = e_uuid_text env u;
              (t, y) = utc_now env y;
              checkpoint = \<lparr>mc_checkpoint_id = checkpoint_id, mc_state = val,
                mc_next_node = sa_next_node a, mc_dag = sa_dag a, mc_status = sa_status a,
                mc_created_at = t, mc_yield_request = sa_yield_request a,
                mc_claimed_interrupt = sa_claimed_interrupt a,
                mc_resolved_interrupt = sa_resolved_interrupt a\<rparr>
          in if ms_poisoned st then Some (Inl mutex_poisoning, (st, y))
             else (let list = (case ms_map st (sa_thread_id a) of None \<Rightarrow> [] | Some l \<Rightarrow> l)
                   in Some (Inr checkpoint_id,
                        (st\<lparr>ms_map := (ms_map st)(sa_thread_id a \<mapsto> list @ [checkpoint])\<rparr>, y)))))"

definition mem_found :: "'s env \<Rightarrow> string \<Rightarrow> MemoryCheckpoint \<Rightarrow> TakelnError + 's loaded" where
  "mem_found env thread_id c = (case e_from_value env (mc_state c) of
       Inl e \<Rightarrow> Inl (DeserializationError e)
     | Inr state \<Rightarrow> Inr (Some (state, mc_to_meta thread_id c, mc_dag c)))"

definition mem_load_state :: "'s env \<Rightarrow> string \<Rightarrow> ('s loaded, mem_store) store_op" where
  "mem_load_state env thread_id = (\<lambda>(st, y).
     if ms_poisoned st then Some (Inl mutex_poisoning, (st, y))
     else case ms_map st thread_id of
         None \<Rightarrow> Some (Inr None, (st, y))
       | Some list \<Rightarrow> (case last_opt list of
             None \<Rightarrow> Some (Inr None, (st, y))
           | Some c \<Rightarrow> Some (mem_found env thread_id c, (st, y))))"

definition mem_load_version :: "'s env \<Rightarrow> string \<Rightarrow> string \<Rightarrow> ('s loaded, mem_store) store_op" where
  "mem_load_version env thread_id checkpoint_id = (\<lambda>(st, y).
     if ms_poisoned st then Some (Inl mutex_poisoning, (st, y))
     else case ms_map st thread_id of
         None \<Rightarrow> Some (Inr None, (st, y))
       | Some list \<Rightarrow> (case find (\<lambda>c. mc_checkpoint_id c = checkpoint_id) list of
             None \<Rightarrow> Some (Inr None, (st, y))
           | Some c \<Rightarrow> Some (mem_found env thread_id c, (st, y))))"

definition mem_list_checkpoints :: "string \<Rightarrow> (CheckpointMeta list, mem_store) store_op" where
  "mem_list_checkpoints thread_id = (\<lambda>(st, y).
     if ms_poisoned st then Some (Inl mutex_poisoning, (st, y))
     else case ms_map st thread_id of
         None \<Rightarrow> Some (Inr [], (st, y))
       | Some list \<Rightarrow> Some (Inr (map (mc_to_meta thread_id) list), (st, y)))"

text \<open>
  The subtraction of the retention duration from the current time panics when the result is
  before the least \<open>DateTime\<close>.
\<close>

definition mem_delete_checkpoints ::
  "'s env \<Rightarrow> string \<Rightarrow> RetentionPolicy \<Rightarrow> (nat, mem_store) store_op" where
  "mem_delete_checkpoints env thread_id policy = (\<lambda>(st, y).
     if ms_poisoned st then Some (Inl mutex_poisoning, (st, y))
     else case ms_map st thread_id of
         None \<Rightarrow> Some (Inr 0, (st, y))
       | Some list \<Rightarrow> (let original_len = length list in case policy of
             KeepAll \<Rightarrow> Some (Inr 0, (st, y))
           | KeepLast n \<Rightarrow>
               if n < length list
               then (let drain_count = length list - n
                     in Some (Inr drain_count,
                          (st\<lparr>ms_map := (ms_map st)(thread_id \<mapsto> drop drain_count list)\<rparr>, y)))
               else Some (Inr 0, (st, y))
           | OlderThan d \<Rightarrow>
               (let (now, y) = utc_now env y in case e_from_std env d of
                   Inl e \<Rightarrow> Some (Inl (CheckpointError e), (st, y))
                 | Inr d' \<Rightarrow>
                     (let cutoff = now - int d' in
                      if cutoff < e_min_time env then None
                      else (let kept = filter (\<lambda>c. cutoff \<le> mc_created_at c) list
                            in Some (Inr (original_len - length kept),
                                 (st\<lparr>ms_map := (ms_map st)(thread_id \<mapsto> kept)\<rparr>, y)))))))"

definition or_none :: "string option \<Rightarrow> string" where
  "or_none s = (case s of None \<Rightarrow> ''none'' | Some t \<Rightarrow> t)"

definition already_running :: "string \<Rightarrow> string option \<Rightarrow> TakelnError" where
  "already_running thread_id claimed = ExecutionError (''Resume claim failed: thread '' @
     quoted thread_id @ '' is already running with claimed_interrupt '' @ quoted (or_none claimed))"

definition wrong_interrupt :: "string \<Rightarrow> string \<Rightarrow> TakelnError" where
  "wrong_interrupt expected got =
     InvalidResume (''Expected interrupt_id '' @ quoted expected @ '', got '' @ quoted got)"

definition no_yield_metadata :: "string \<Rightarrow> TakelnError" where
  "no_yield_metadata thread_id = NothingToResume (''Thread '' @ quoted thread_id @
     '' has Yielded status but no yield_request metadata'')"

definition mem_claim_interrupt :: "string \<Rightarrow> string \<Rightarrow> (ClaimResult, mem_store) store_op" where
  "mem_claim_interrupt thread_id interrupt_id = (\<lambda>(st, y).
     if ms_poisoned st then Some (Inl mutex_poisoning, (st, y))
     else case ms_map st thread_id of
         None \<Rightarrow> Some (Inl (NothingToResume thread_id), (st, y))
       | Some list \<Rightarrow>
           if \<exists>cp \<in> set list. mc_resolved_interrupt cp = Some interrupt_id
           then Some (Inr AlreadyCompleted, (st, y))
           else (case last_opt list of
               None \<Rightarrow> Some (Inl (NothingToResume thread_id), (st, y))
             | Some lst \<Rightarrow>
                 if mc_status lst = CheckpointStatus.Running \<and>
                    mc_claimed_interrupt lst = Some interrupt_id
                 then Some (Inr InProgress, (st, y))
                 else (case mc_status lst of
                     CheckpointStatus.Yielded \<Rightarrow> (case mc_yield_request lst of
                         None \<Rightarrow> Some (Inl (no_yield_metadata thread_id), (st, y))
                       | Some yield_req \<Rightarrow>
                           if yr_interrupt_id yield_req \<noteq> interrupt_id
                           then Some (Inl (wrong_interrupt (yr_interrupt_id yield_req) interrupt_id), (st, y))
                           else (let lst' = lst\<lparr>mc_status := CheckpointStatus.Running,
                                     mc_claimed_interrupt := Some interrupt_id\<rparr>
                                 in Some (Inr Claimed, (st\<lparr>ms_map := (ms_map st)
                                        (thread_id \<mapsto> butlast list @ [lst'])\<rparr>, y))))
                   | CheckpointStatus.Running \<Rightarrow>
                       Some (Inl (already_running thread_id (mc_claimed_interrupt lst)), (st, y))
                   | _ \<Rightarrow> Some (Inl (NothingToResume (''Thread '' @ quoted thread_id @
                         '' latest checkpoint status is '' @ debug_status (mc_status lst) @
                         '', expected Yielded'')), (st, y)))))"

definition memory_checkpointer :: "'s env \<Rightarrow> ('s, mem_store) checkpointer" where
  "memory_checkpointer env = \<lparr>
     ck_current_head = default_current_head,
     ck_save_state_bound = default_save_state_bound (mem_save_state env),
     ck_save_state = mem_save_state env,
     ck_load_state = mem_load_state env,
     ck_load_version = mem_load_version env,
     ck_list_checkpoints = mem_list_checkpoints,
     ck_delete_checkpoints = mem_delete_checkpoints env,
     ck_claim_interrupt = mem_claim_interrupt\<rparr>"

section \<open>The store is a journal\<close>

definition mem_entry :: "MemoryCheckpoint \<Rightarrow> json journal_entry" where
  "mem_entry c = \<lparr>je_checkpoint_id = mc_checkpoint_id c, je_state = mc_state c,
     je_next_node = mc_next_node c, je_dag = mc_dag c, je_status = mc_status c,
     je_created_at = mc_created_at c, je_yield_request = mc_yield_request c,
     je_claimed_interrupt = mc_claimed_interrupt c, je_resolved_interrupt = mc_resolved_interrupt c\<rparr>"

definition mem_list :: "mem_store \<Rightarrow> string \<Rightarrow> MemoryCheckpoint list" where
  "mem_list st t = (case ms_map st t of None \<Rightarrow> [] | Some l \<Rightarrow> l)"

definition mem_journal :: "mem_store \<Rightarrow> string \<Rightarrow> json journal_entry list" where
  "mem_journal st t = map mem_entry (mem_list st t)"

definition mem_usable :: "mem_store \<times> sys \<Rightarrow> bool" where
  "mem_usable p \<longleftrightarrow> \<not> ms_poisoned (fst p)"

definition mem_enc :: "'s env \<Rightarrow> 's \<Rightarrow> TakelnError + json" where
  "mem_enc env s = (case e_to_value env s of Inl e \<Rightarrow> Inl (SerializationError e) | Inr v \<Rightarrow> Inr v)"

definition mem_dec :: "'s env \<Rightarrow> json \<Rightarrow> TakelnError + 's" where
  "mem_dec env v = (case e_from_value env v of Inl e \<Rightarrow> Inl (DeserializationError e) | Inr s \<Rightarrow> Inr s)"

lemma mem_entry_sel [simp]:
  "je_checkpoint_id (mem_entry c) = mc_checkpoint_id c" "je_state (mem_entry c) = mc_state c"
  "je_status (mem_entry c) = mc_status c" "je_claimed_interrupt (mem_entry c) = mc_claimed_interrupt c"
  "je_resolved_interrupt (mem_entry c) = mc_resolved_interrupt c"
  "je_yield_request (mem_entry c) = mc_yield_request c" "je_dag (mem_entry c) = mc_dag c"
  "je_created_at (mem_entry c) = mc_created_at c" "je_next_node (mem_entry c) = mc_next_node c"
  by (simp_all add: mem_entry_def)

lemma mem_meta [simp]: "meta_of t (mem_entry c) = mc_to_meta t c"
  by (simp add: meta_of_def mc_to_meta_def)

lemma last_opt_map: "last_opt (map f xs) = map_option f (last_opt xs)"
  by (simp add: last_opt_def last_map)

lemma last_opt_SomeD: "last_opt xs = Some x \<Longrightarrow> xs = butlast xs @ [x]"
  by (auto simp: last_opt_def split: if_splits)

lemma mem_found_load:
  "mem_found env t c = load_entry (mem_dec env) t (Some (mem_entry c))"
  by (simp add: mem_found_def load_entry_def mem_dec_def split: sum.splits)

lemma mem_load_spec:
  assumes "mem_usable (st, y)"
  shows "mem_load_state env t (st, y) =
     Some (load_entry (mem_dec env) t (last_opt (mem_journal st t)), (st, y))"
  using assms
  by (auto simp: mem_load_state_def mem_usable_def mem_journal_def mem_list_def last_opt_map
      mem_found_load load_entry_def[of _ _ None] split: option.splits)

lemma mem_list_update [simp]:
  "mem_list (st\<lparr>ms_map := (ms_map st)(t \<mapsto> l)\<rparr>) = (mem_list st)(t := l)"
  by (auto simp: mem_list_def fun_eq_iff)

lemma mem_journal_update [simp]:
  "mem_journal (st\<lparr>ms_map := (ms_map st)(t \<mapsto> l)\<rparr>) = (mem_journal st)(t := map mem_entry l)"
  by (auto simp: mem_journal_def fun_eq_iff)

definition mem_checkpoint :: "'s env \<Rightarrow> 's save_args \<Rightarrow> json \<Rightarrow> sys \<Rightarrow> MemoryCheckpoint" where
  "mem_checkpoint env a val y = \<lparr>mc_checkpoint_id = e_uuid_text env (e_uuid4 env (uuid_draws y)),
     mc_state = val, mc_next_node = sa_next_node a, mc_dag = sa_dag a, mc_status = sa_status a,
     mc_created_at = e_now env (now_reads y), mc_yield_request = sa_yield_request a,
     mc_claimed_interrupt = sa_claimed_interrupt a, mc_resolved_interrupt = sa_resolved_interrupt a\<rparr>"

lemma mem_save_eq:
  assumes "mem_usable (st, y)" and "e_to_value env (sa_state a) = Inr val"
  shows "mem_save_state env a (st, y) = Some (Inr (e_uuid_text env (e_uuid4 env (uuid_draws y))),
     (st\<lparr>ms_map := (ms_map st)(sa_thread_id a \<mapsto>
         mem_list st (sa_thread_id a) @ [mem_checkpoint env a val y])\<rparr>,
      y\<lparr>uuid_draws := Suc (uuid_draws y), now_reads := Suc (now_reads y)\<rparr>))"
  using assms
  by (simp add: mem_save_state_def mem_usable_def mem_list_def new_v4_def utc_now_def Let_def
      mem_checkpoint_def)

lemma mem_save_ok:
  assumes "mem_usable (st, y)" and "mem_enc env (sa_state a) = Inr v"
  shows "\<exists>i t st' y'. mem_save_state env a (st, y) = Some (Inr i, (st', y')) \<and> mem_usable (st', y') \<and>
     mem_journal st' = (mem_journal st)(sa_thread_id a := mem_journal st (sa_thread_id a) @ [entry_of a v i t])"
proof -
  from assms(2) have v: "e_to_value env (sa_state a) = Inr v"
    by (simp add: mem_enc_def split: sum.splits)
  have "mem_entry (mem_checkpoint env a v y) =
      entry_of a v (e_uuid_text env (e_uuid4 env (uuid_draws y))) (e_now env (now_reads y))"
    by (simp add: mem_entry_def mem_checkpoint_def entry_of_def)
  then have "map mem_entry (mem_list st (sa_thread_id a) @ [mem_checkpoint env a v y]) =
      mem_journal st (sa_thread_id a) @
        [entry_of a v (e_uuid_text env (e_uuid4 env (uuid_draws y))) (e_now env (now_reads y))]"
    by (simp add: mem_journal_def)
  then show ?thesis
    using assms(1) by (auto simp: mem_save_eq[OF assms(1) v] mem_usable_def)
qed

lemma mem_claim_won:
  assumes "last_opt (mem_list st t) = Some c"
  shows "map mem_entry (butlast (mem_list st t) @
      [c\<lparr>mc_status := CheckpointStatus.Running, mc_claimed_interrupt := Some i\<rparr>]) =
    butlast (mem_journal st t) @ [claim_entry i (mem_entry c)]"
  by (simp add: mem_journal_def map_butlast claim_entry_def mem_entry_def)

lemma mem_claim_spec:
  assumes "mem_usable (st, y)"
  shows "\<exists>r st'. mem_claim_interrupt t i (st, y) = Some (r, (st', y)) \<and> mem_usable (st', y) \<and>
     verdict_of r = fst (journal_claim i (mem_journal st t)) \<and>
     mem_journal st' = (mem_journal st)(t := snd (journal_claim i (mem_journal st t)))"
proof (cases "ms_map st t")
  case None
  then show ?thesis using assms
    by (auto simp: mem_claim_interrupt_def mem_usable_def journal_claim_def mem_journal_def
        mem_list_def resolved_in_def fun_eq_iff)
next
  case (Some l)
  then have l: "mem_list st t = l" "mem_journal st t = map mem_entry l"
    by (simp_all add: mem_list_def mem_journal_def)
  have res: "resolved_in i (map mem_entry l) \<longleftrightarrow> (\<exists>cp \<in> set l. mc_resolved_interrupt cp = Some i)"
    by (auto simp: resolved_in_def)
  show ?thesis
  proof (cases "resolved_in i (map mem_entry l) \<or> last_opt l = None")
    case True
    then show ?thesis using assms Some
      by (auto simp: mem_claim_interrupt_def mem_usable_def journal_claim_def l res last_opt_map fun_eq_iff)
  next
    case False
    then obtain c where nr: "\<not> (\<exists>cp \<in> set l. mc_resolved_interrupt cp = Some i)"
      and c: "last_opt l = Some c" using not_None_eq by (auto simp only: res)
    from mem_claim_won[of st t c i] c
    have won: "map mem_entry (butlast l) @
       [mem_entry (c\<lparr>mc_status := CheckpointStatus.Running, mc_claimed_interrupt := Some i\<rparr>)] =
       butlast (map mem_entry l) @ [claim_entry i (mem_entry c)]" by (simp add: l)
    show ?thesis
      using assms Some nr c won
      by (cases "mc_status c"; cases "mc_yield_request c")
         (auto simp: mem_claim_interrupt_def mem_usable_def journal_claim_def l res last_opt_map
            awaits_def split: if_splits)
  qed
qed

interpretation mem: checkpoint_journal "mem_save_state env" "mem_load_state env" mem_claim_interrupt
    mem_journal mem_usable "mem_enc env" "mem_dec env"
  for env :: "'s env"
proof unfold_locales
  fix p :: "mem_store \<times> sys" and a :: "'s save_args" and v
  assume "mem_usable p" "mem_enc env (sa_state a) = Inr v"
  then show "\<exists>i t p'. mem_save_state env a p = Some (Inr i, p') \<and> mem_usable p' \<and> mem_journal (fst p') =
      (mem_journal (fst p))(sa_thread_id a := mem_journal (fst p) (sa_thread_id a) @ [entry_of a v i t])"
    by (cases p) (force dest: mem_save_ok)
next
  fix p :: "mem_store \<times> sys" and a :: "'s save_args" and e
  assume "mem_usable p" "mem_enc env (sa_state a) = Inl e"
  then show "\<exists>p'. mem_save_state env a p = Some (Inl e, p') \<and> mem_usable p' \<and>
      mem_journal (fst p') = mem_journal (fst p)"
    by (cases p) (auto simp: mem_save_state_def mem_enc_def split: sum.splits)
next
  fix p :: "mem_store \<times> sys" and t
  assume "mem_usable p"
  then show "\<exists>p'. mem_load_state env t p = Some (load_entry (mem_dec env) t
        (last_opt (mem_journal (fst p) t)), p') \<and> mem_usable p' \<and> mem_journal (fst p') = mem_journal (fst p)"
    by (cases p) (simp add: mem_load_spec)
next
  fix p :: "mem_store \<times> sys" and t i
  assume "mem_usable p"
  then show "\<exists>r p'. mem_claim_interrupt t i p = Some (r, p') \<and> mem_usable p' \<and>
      verdict_of r = fst (journal_claim i (mem_journal (fst p) t)) \<and>
      mem_journal (fst p') = (mem_journal (fst p))(t := snd (journal_claim i (mem_journal (fst p) t)))"
    by (cases p) (force dest: mem_claim_spec)
qed (simp add: mem_usable_def)

section \<open>Properties\<close>

text \<open>A store with one yielded checkpoint of thread \<open>t\<close>, for the witnesses.\<close>

definition sample_yield_args :: "nat save_args" where
  "sample_yield_args = \<lparr>sa_thread_id = ''t'', sa_state = 7, sa_next_node = ''gate'', sa_dag = None,
     sa_status = CheckpointStatus.Yielded, sa_yield_request = Some (yield_new ''i'' ''approve?''),
     sa_claimed_interrupt = None, sa_resolved_interrupt = None\<rparr>"

definition sample_yielded :: mem_store where
  "sample_yielded = \<lparr>ms_poisoned = False,
     ms_map = [''t'' \<mapsto> [mem_checkpoint sample_env sample_yield_args (JNumber (JInt 7)) sample_sys]]\<rparr>"

lemma sample_yielded_usable: "mem_usable (sample_yielded, y)"
  by (simp add: mem_usable_def sample_yielded_def)

lemma sample_yielded_claim:
  "\<exists>st. mem_claim_interrupt ''t'' ''i'' (sample_yielded, y) = Some (Inr Claimed, (st, y))"
  by (simp add: mem_claim_interrupt_def sample_yielded_def mem_checkpoint_def sample_yield_args_def
      yield_new_def last_opt_def)

text \<open>C6: however many callers race to claim interrupts of one thread of the in-memory store, with
  whatever interrupt ids, every claim returns and at most one of them wins; none wins unless the
  thread's last checkpoint is yielded.\<close>

theorem mem_claims_single_winner:
  assumes "\<not> ms_poisoned st"
  shows "\<exists>rs w'. run_claims (mem_claim_interrupt t) is (st, y) = Some (rs, w') \<and>
     wins rs \<le> (if yielded_last (mem_journal st t) then 1 else 0)"
proof -
  have u: "mem_usable (st, y)" using assms by (simp add: mem_usable_def)
  from mem.run_claims_returns[OF u] obtain rs w'
    where "run_claims (mem_claim_interrupt t) is (st, y) = Some (rs, w')" by blast
  with mem.run_claims_wins[OF u this] show ?thesis by auto
qed

theorem mem_claims_single_winner_witness:
  "\<exists>rs w'. run_claims (mem_claim_interrupt ''t'') [''i'', ''i''] (sample_yielded, sample_sys) =
     Some (rs, w') \<and> wins rs \<le> 1"
  using mem_claims_single_winner[of sample_yielded "''t''" "[''i'', ''i'']" sample_sys]
  by (auto simp: sample_yielded_def split: if_splits)

text \<open>A claim of the in-memory store wins exactly when no checkpoint of the thread has resolved
  the interrupt and the last checkpoint is yielded with that interrupt id; it then marks that
  checkpoint running under the claim, leaves the rest of the history and the other threads alone,
  and the same claim repeated is told that the resume is in progress.\<close>

theorem mem_claim_wins:
  assumes "\<not> ms_poisoned st" and "mem_claim_interrupt t i (st, y) = Some (r, (st', y'))"
  shows "(r = Inr Claimed \<longleftrightarrow> \<not> resolved_in i (mem_journal st t) \<and>
           (\<exists>e. last_opt (mem_journal st t) = Some e \<and> awaits i e)) \<and>
     (r = Inr Claimed \<longrightarrow>
        mem_journal st' = (mem_journal st)(t := butlast (mem_journal st t) @
           [claim_entry i (last (mem_journal st t))]) \<and>
        mem_claim_interrupt t i (st', y') = Some (Inr InProgress, (st', y'))) \<and>
     (r \<noteq> Inr Claimed \<longrightarrow> mem_journal st' = mem_journal st)"
proof -
  have u: "mem_usable (st, y)" using assms(1) by (simp add: mem_usable_def)
  note eff = mem.claim_effect[OF u assms(2)]
  have won: "mem_journal st' = (mem_journal st)(t := butlast (mem_journal st t) @
           [claim_entry i (last (mem_journal st t))])" if "r = Inr Claimed"
    using eff(2,3) that
    by (auto simp: journal_claim_def last_opt_def split: if_splits)
  have busy: "mem_claim_interrupt t i (st', y') = Some (Inr InProgress, (st', y'))" if "r = Inr Claimed"
  proof -
    obtain r2 st2 where c2: "mem_claim_interrupt t i (st', y') = Some (r2, (st2, y'))"
      using mem_claim_spec[OF eff(1)] by blast
    from mem.claim_single_winner(1)[OF u assms(2)[unfolded that] eff(1) refl c2] c2
    have "mem_claim_interrupt t i (st', y') = Some (Inr InProgress, (st2, y'))" by simp
    moreover from this have "st2 = st'"
      by (auto simp: mem_claim_interrupt_def Let_def
          split: if_splits option.splits CheckpointStatus.splits)
    ultimately show ?thesis by simp
  qed
  have lost: "mem_journal st' = mem_journal st" if "r \<noteq> Inr Claimed"
  proof -
    have "fst (journal_claim i (mem_journal st t)) \<noteq> Won" using eff(2) that verdict_of_Won[of r] by simp
    with eff(3) show ?thesis by (simp add: journal_claim_lost)
  qed
  show ?thesis using mem.claim_wins_iff[OF u assms(2)] won busy lost by auto
qed

theorem mem_claim_wins_witness:
  "\<exists>st. mem_claim_interrupt ''t'' ''i'' (sample_yielded, sample_sys) = Some (Inr Claimed, (st, sample_sys)) \<and>
     mem_claim_interrupt ''t'' ''i'' (st, sample_sys) = Some (Inr InProgress, (st, sample_sys))"
proof -
  obtain st where c: "mem_claim_interrupt ''t'' ''i'' (sample_yielded, sample_sys) =
      Some (Inr Claimed, (st, sample_sys))" using sample_yielded_claim by blast
  have "\<not> ms_poisoned sample_yielded" by (simp add: sample_yielded_def)
  from mem_claim_wins[OF this c] c show ?thesis by blast
qed

subsection \<open>Versions\<close>

text \<open>
  The identifiers of a store: every one was drawn before now, and a thread has each once.
\<close>

definition mem_ids_ok :: "'s env \<Rightarrow> mem_store \<Rightarrow> sys \<Rightarrow> bool" where
  "mem_ids_ok env st y \<longleftrightarrow> (\<forall>t. distinct (map mc_checkpoint_id (mem_list st t)) \<and>
     (\<forall>c \<in> set (mem_list st t). \<exists>n < uuid_draws y. mc_checkpoint_id c = e_uuid_text env (e_uuid4 env n)))"

lemma mem_ids_ok_new: "mem_ids_ok env mem_new y"
  by (simp add: mem_ids_ok_def mem_new_def mem_list_def)

lemma mem_ids_ok_save:
  assumes "uuids_fresh env" and "mem_ids_ok env st y" and "mem_usable (st, y)"
    and "mem_save_state env a (st, y) = Some (r, (st', y'))"
  shows "mem_ids_ok env st' y'"
proof (cases "e_to_value env (sa_state a)")
  case (Inl e)
  with assms show ?thesis by (auto simp: mem_save_state_def)
next
  case (Inr v)
  have fresh: "e_uuid_text env (e_uuid4 env n) \<noteq> e_uuid_text env (e_uuid4 env (uuid_draws y))"
    if "n < uuid_draws y" for n
    using assms(1) that by (auto simp: uuids_fresh_def dest!: injD)
  have "e_uuid_text env (e_uuid4 env (uuid_draws y)) \<notin> mc_checkpoint_id ` set (mem_list st t)" for t
    using assms(2) fresh by (fastforce simp: mem_ids_ok_def)
  moreover from assms(4) have "mem_list st' = (mem_list st)(sa_thread_id a :=
      mem_list st (sa_thread_id a) @ [mem_checkpoint env a v y])"
    and "uuid_draws y' = Suc (uuid_draws y)"
    by (auto simp: mem_save_eq[OF assms(3) Inr])
  moreover have "mc_checkpoint_id (mem_checkpoint env a v y) = e_uuid_text env (e_uuid4 env (uuid_draws y))"
    by (simp add: mem_checkpoint_def)
  moreover have "\<exists>n < Suc (uuid_draws y). mc_checkpoint_id c = e_uuid_text env (e_uuid4 env n)"
    if "c \<in> set (mem_list st t)" for c t
    using assms(2) that unfolding mem_ids_ok_def by (meson less_SucI)
  moreover have "distinct (map mc_checkpoint_id (mem_list st t))" for t
    using assms(2) by (simp add: mem_ids_ok_def)
  ultimately show ?thesis unfolding mem_ids_ok_def by auto
qed

fun mem_saves :: "'s env \<Rightarrow> 's save_args list \<Rightarrow> mem_store \<times> sys \<Rightarrow> (mem_store \<times> sys) option" where
  "mem_saves env [] w = Some w"
| "mem_saves env (a # as) w = (case mem_save_state env a w of
       Some (Inr _, w') \<Rightarrow> mem_saves env as w'
     | _ \<Rightarrow> None)"

lemma mem_saves_keep:
  "mem_usable (st, y) \<Longrightarrow> mem_saves env as (st, y) = Some (st', y') \<Longrightarrow>
     mem_usable (st', y') \<and> (\<exists>cs. mem_list st' t = mem_list st t @ cs)"
proof (induction "as" arbitrary: st y)
  case (Cons a as)
  then obtain i w where s: "mem_save_state env a (st, y) = Some (Inr i, w)"
    and r: "mem_saves env as w = Some (st', y')" by (auto split: option.splits sum.splits)
  obtain v where v: "e_to_value env (sa_state a) = Inr v"
    using s by (cases "e_to_value env (sa_state a)") (auto simp: mem_save_state_def)
  from s r Cons.IH[of "fst w" "snd w"] Cons.prems(1) show ?case
    by (auto simp: mem_save_eq[OF Cons.prems(1) v] mem_usable_def)
qed simp

lemma find_id_distinct:
  "distinct (map f xs) \<Longrightarrow> x \<in> set xs \<Longrightarrow> find (\<lambda>c. f c = f x) xs = Some x"
  by (induction xs) auto

text \<open>C12: a checkpoint saved in the in-memory store is read back as it was saved, the state, the DAG and
  every field of its metadata (with the identifier the save returned and the time of the save), by
  \<open>load_state\<close> while it is the last of its thread and by \<open>load_version\<close> with its identifier however
  many checkpoints are saved after it.\<close>

theorem mem_time_travel:
  assumes "uuids_fresh env" and "\<not> ms_poisoned st" and "mem_ids_ok env st y"
    and "mem_save_state env a (st, y) = Some (Inr i, (st1, y1))"
    and "mem_saves env as (st1, y1) = Some (st2, y2)"
    and "e_to_value env (sa_state a) = Inr v" and "e_from_value env v = Inr (sa_state a)"
    and "m = \<lparr>cm_checkpoint_id = i, cm_thread_id = sa_thread_id a, cm_next_node = sa_next_node a,
       cm_graph_version = None, cm_state_schema_version = None, cm_status = sa_status a,
       cm_created_at = e_now env (now_reads y), cm_yield_request = sa_yield_request a,
       cm_claimed_interrupt = sa_claimed_interrupt a, cm_resolved_interrupt = sa_resolved_interrupt a\<rparr>"
  shows "mem_load_state env (sa_thread_id a) (st1, y1) =
       Some (Inr (Some (sa_state a, m, sa_dag a)), (st1, y1)) \<and>
     mem_load_version env (sa_thread_id a) i (st2, y2) =
       Some (Inr (Some (sa_state a, m, sa_dag a)), (st2, y2))"
proof -
  let ?t = "sa_thread_id a" and ?c = "mem_checkpoint env a v y"
  have u: "mem_usable (st, y)" using assms(2) by (simp add: mem_usable_def)
  from assms(4) have st1: "i = mc_checkpoint_id ?c" "mem_list st1 ?t = mem_list st ?t @ [?c]"
    "\<not> ms_poisoned st1"
    by (auto simp: mem_save_eq[OF u assms(6)] mem_checkpoint_def assms(2))
  have u1: "mem_usable (st1, y1)" using st1(3) by (simp add: mem_usable_def)
  have d2: "mem_ids_ok env st2 y2"
  proof -
    have "mem_ids_ok env st1 y1" by (rule mem_ids_ok_save[OF assms(1,3) u assms(4)])
    with u1 assms(5) show ?thesis
    proof (induction "as" arbitrary: st1 y1)
      case (Cons b as)
      then obtain j st3 y3 where s: "mem_save_state env b (st1, y1) = Some (Inr j, (st3, y3))"
        and r: "mem_saves env as (st3, y3) = Some (st2, y2)" by (auto split: option.splits sum.splits)
      from mem_ids_ok_save[OF assms(1) Cons.prems(3,1) s] mem.save_usable[OF Cons.prems(1) s] r
      show ?case by (intro Cons.IH)
    qed simp
  qed
  from mem_saves_keep[OF u1 assms(5), of ?t] st1(2) have c2: "?c \<in> set (mem_list st2 ?t)"
    and u2: "\<not> ms_poisoned st2" by (auto simp: mem_usable_def)
  from d2 c2 have f: "find (\<lambda>c. mc_checkpoint_id c = i) (mem_list st2 ?t) = Some ?c"
    unfolding st1(1) by (intro find_id_distinct) (auto simp: mem_ids_ok_def)
  have found: "mem_found env ?t ?c = Inr (Some (sa_state a, mc_to_meta ?t ?c, sa_dag a))"
    by (simp add: mem_found_def mem_checkpoint_def assms(7))
  have "mem_load_state env ?t (st1, y1) = Some (mem_found env ?t ?c, (st1, y1))"
    using st1(2,3) by (auto simp: mem_load_state_def mem_list_def split: option.splits)
  moreover have "mem_load_version env ?t i (st2, y2) = Some (mem_found env ?t ?c, (st2, y2))"
    using f u2 by (auto simp: mem_load_version_def mem_list_def split: option.splits)
  moreover have "mc_to_meta ?t ?c = m"
    by (simp add: st1(1) assms(8) mc_to_meta_def mem_checkpoint_def)
  ultimately show ?thesis unfolding found by simp
qed

theorem mem_time_travel_witness:
  "\<exists>st1 y1 st2 y2 i m. mem_save_state sample_env sample_yield_args (mem_new, sample_sys) =
       Some (Inr i, (st1, y1)) \<and>
     mem_saves sample_env [sample_yield_args] (st1, y1) = Some (st2, y2) \<and>
     mem_load_state sample_env ''t'' (st1, y1) = Some (Inr (Some (7, m, None)), (st1, y1)) \<and>
     mem_load_version sample_env ''t'' i (st2, y2) = Some (Inr (Some (7, m, None)), (st2, y2)) \<and>
     cm_yield_request m = Some (yield_new ''i'' ''approve?'') \<and> cm_created_at m = 0"
proof -
  have v: "e_to_value sample_env (sa_state sample_yield_args) = Inr (JNumber (JInt 7))"
    and d: "e_from_value sample_env (JNumber (JInt 7)) = Inr (sa_state sample_yield_args)"
    by (simp_all add: sample_env_def sample_yield_args_def)
  have n: "\<not> ms_poisoned mem_new" by (simp add: mem_new_def)
  obtain i st1 y1 where s: "mem_save_state sample_env sample_yield_args (mem_new, sample_sys) =
      Some (Inr i, (st1, y1))"
    using v by (simp add: mem_save_eq mem_usable_def mem_new_def)
  have "mem_usable (st1, y1)" by (rule mem.save_usable[OF _ s]) (simp add: mem_usable_def mem_new_def)
  then obtain st2 y2 where m: "mem_saves sample_env [sample_yield_args] (st1, y1) = Some (st2, y2)"
    using v by (simp add: mem_save_eq)
  have "e_now sample_env (now_reads sample_sys) = 0" by (simp add: sample_env_def sample_sys_def)
  with mem_time_travel[OF sample_env_fresh n mem_ids_ok_new s m v d refl] s m show ?thesis
    by (fastforce simp: sample_yield_args_def)
qed

subsection \<open>Retention\<close>

lemma mem_keep_last_eq:
  assumes "\<not> ms_poisoned st"
  shows "\<exists>k st'. mem_delete_checkpoints env t (KeepLast n) (st, y) = Some (Inr k, (st', y)) \<and>
     mem_usable (st', y) \<and> k = length (mem_list st t) - n \<and>
     mem_list st' = (mem_list st)(t := drop (length (mem_list st t) - n) (mem_list st t))"
proof (cases "ms_map st t")
  case None
  then have "mem_list st t = []" by (simp add: mem_list_def)
  moreover from this have "mem_list st = (mem_list st)(t := [])" by (simp add: fun_eq_iff)
  ultimately show ?thesis using None assms by (simp add: mem_delete_checkpoints_def mem_usable_def)
next
  case (Some list)
  then have list: "mem_list st t = list" by (simp add: mem_list_def)
  show ?thesis
  proof (cases "n < length list")
    case True
    with Some assms list show ?thesis
      by (simp add: mem_delete_checkpoints_def mem_usable_def Let_def)
  next
    case False
    from list have "mem_list st = (mem_list st)(t := list)" by (simp add: fun_eq_iff)
    with False Some assms list show ?thesis by (simp add: mem_delete_checkpoints_def mem_usable_def)
  qed
qed

text \<open>\<open>KeepLast(n)\<close> of the in-memory store keeps the last \<open>n\<close> checkpoints of the thread in their
  order, reports how many it deleted, leaves the other threads alone, and for \<open>n > 0\<close> does not
  change what \<open>load_state\<close> returns.\<close>

theorem mem_keep_last:
  assumes "\<not> ms_poisoned st"
  shows "\<exists>k st'. mem_delete_checkpoints env t (KeepLast n) (st, y) = Some (Inr k, (st', y)) \<and>
     mem_list st' t = drop (length (mem_list st t) - n) (mem_list st t) \<and>
     length (mem_list st' t) = min n (length (mem_list st t)) \<and>
     k + length (mem_list st' t) = length (mem_list st t) \<and>
     (\<forall>u. u \<noteq> t \<longrightarrow> mem_list st' u = mem_list st u) \<and>
     (0 < n \<longrightarrow> mem_load_state env t (st', y) =
        Some (fst (the (mem_load_state env t (st, y))), (st', y)))"
proof -
  from mem_keep_last_eq[OF assms] obtain k st'
    where del: "mem_delete_checkpoints env t (KeepLast n) (st, y) = Some (Inr k, (st', y))"
    and u: "mem_usable (st', y)"
    and l: "mem_list st' = (mem_list st)(t := drop (length (mem_list st t) - n) (mem_list st t))"
    and k: "k = length (mem_list st t) - n" by blast
  have u0: "mem_usable (st, y)" using assms by (simp add: mem_usable_def)
  have "last_opt (mem_journal st' t) = last_opt (mem_journal st t)" if "0 < n"
  proof (cases "mem_list st t = []")
    case False
    then have "length (mem_list st t) - n < length (mem_list st t)" using that by simp
    with False show ?thesis
      by (simp add: mem_journal_def l last_opt_def drop_map[symmetric] last_drop)
  qed (simp add: mem_journal_def l)
  then have "0 < n \<longrightarrow> mem_load_state env t (st', y) =
        Some (fst (the (mem_load_state env t (st, y))), (st', y))"
    by (simp add: mem_load_spec[OF u] mem_load_spec[OF u0])
  with del show ?thesis by (auto simp: l k)
qed

theorem mem_keep_last_witness:
  "\<exists>k st'. mem_delete_checkpoints sample_env ''t'' (KeepLast 0) (sample_yielded, sample_sys) =
     Some (Inr k, (st', sample_sys)) \<and> length (mem_list st' ''t'') = 0"
  using mem_keep_last[of sample_yielded sample_env "''t''" 0 sample_sys] sample_yielded_usable
  by (auto simp: mem_usable_def)

text \<open>\<open>OlderThan(d)\<close> of the in-memory store, when the cutoff is a representable time, keeps exactly
  the checkpoints of the thread created at or after the cutoff, in their order, and reports how many
  it deleted.\<close>

theorem mem_older_than:
  assumes "\<not> ms_poisoned st" and "ms_map st t \<noteq> None" and "e_from_std env d = Inr d'"
    and "e_min_time env \<le> e_now env (now_reads y) - int d'"
  shows "\<exists>k st' y'. mem_delete_checkpoints env t (OlderThan d) (st, y) = Some (Inr k, (st', y')) \<and>
     mem_list st' = (mem_list st)(t := filter (\<lambda>c. e_now env (now_reads y) - int d' \<le> mc_created_at c)
        (mem_list st t)) \<and>
     k + length (mem_list st' t) = length (mem_list st t)"
proof -
  from assms(2) obtain list where list: "ms_map st t = Some list" by blast
  then have l: "mem_list st t = list" by (simp add: mem_list_def)
  have "length (filter P list) \<le> length list" for P by (rule length_filter_le)
  with assms list show ?thesis
    by (simp add: mem_delete_checkpoints_def utc_now_def Let_def l)
qed

theorem mem_older_than_witness:
  "\<exists>k st' y'. mem_delete_checkpoints sample_env ''t'' (OlderThan 0) (sample_yielded, sample_sys) =
     Some (Inr k, (st', y')) \<and> k + length (mem_list st' ''t'') = length (mem_list sample_yielded ''t'')"
  using mem_older_than[of sample_yielded "''t''" sample_env 0 0 sample_sys] sample_yielded_usable
  by (auto simp: mem_usable_def sample_yielded_def sample_env_def sample_sys_def)

end
