(* ===== verification/Seq_Facts.thy ===== *)
theory Seq_Facts
  imports Sequential Call_Facts Memory_Store
begin

text \<open>
  What a sequential run leaves in the store. The interface \<open>journal_runner\<close> is a checkpointer
  with the trait's default methods over a journal; the lemmas about runs are proved in it, and it
  is interpreted on the in-memory checkpointer.
\<close>

section \<open>Frames: what does not touch the store\<close>

text \<open>The store with the counters of the draws so far.\<close>

abbreviation store_at :: "('x, 'st) world \<Rightarrow> 'st \<times> sys" where
  "store_at w \<equiv> (w_store w, w_sys w)"

lemma w_store_simps [simp]:
  "w_store (observe ob w) = w_store w"
  "w_store (snd (read_clock env w)) = w_store w"
  "w_store (snd (elapsed_ms env t w)) = w_store w"
  "w_store (send_started a b c w) = w_store w"
  "w_store (send_finished a b ms label cost w) = w_store w"
  "w_store (send_graph_finished a amount w) = w_store w"
  "w_store (emit_span a b k ms cost status err meta w) = w_store w"
  by (simp_all add: observe_def read_clock_def utc_now_def elapsed_ms_def send_started_def
      send_finished_def send_graph_finished_def emit_span_def next_seq_def Let_def split: prod.splits)

lemma w_sys_simps [simp]:
  "w_sys (observe ob w) = w_sys w"
  "w_sys (send_started a b c w) = w_sys w"
  "w_sys (send_finished a b ms label cost w) = w_sys w"
  "w_sys (send_graph_finished a amount w) = w_sys w"
  "w_sys (emit_span a b k ms cost status err meta w) = w_sys w"
  by (simp_all add: observe_def send_started_def
      send_finished_def send_graph_finished_def emit_span_def next_seq_def Let_def)

lemma j_simps [simp]:
  "w_store (j_span j n a ms cost st err meta w) = w_store w"
  "w_store (j_finished j n ms label cost w) = w_store w"
  "w_sys (j_span j n a ms cost st err meta w) = w_sys w"
  "w_sys (j_finished j n ms label cost w) = w_sys w"
  by (simp_all add: j_span_def j_finished_def)

text \<open>What only tells the observers is quiet, before and after.\<close>

lemma quiet_cong: "w_store v = w_store w \<Longrightarrow> w_sys v = w_sys w \<Longrightarrow> quiet v u = quiet w u"
  "w_store v = w_store w \<Longrightarrow> w_sys v = w_sys w \<Longrightarrow> quiet u v = quiet u w"
  by (simp_all add: quiet_def)

lemma quiet_simps [simp]:
  "quiet (observe ob w) v = quiet w v" "quiet v (observe ob w) = quiet v w"
  "quiet (send_started a b t w) v = quiet w v" "quiet v (send_started a b t w) = quiet v w"
  "quiet (send_finished a b ms label cost w) v = quiet w v" "quiet v (send_finished a b ms label cost w) = quiet v w"
  "quiet (send_graph_finished a amount w) v = quiet w v" "quiet v (send_graph_finished a amount w) = quiet v w"
  "quiet (emit_span a b k ms cost st err meta w) v = quiet w v"
  "quiet v (emit_span a b k ms cost st err meta w) = quiet v w"
  "quiet (j_span j n k ms cost st err meta w) v = quiet w v"
  "quiet v (j_span j n k ms cost st err meta w) = quiet v w"
  "quiet (j_finished j n ms label cost w) v = quiet w v"
  "quiet v (j_finished j n ms label cost w) = quiet v w"
  "quiet (w\<lparr>w_last_head := h\<rparr>) v = quiet w v" "quiet v (w\<lparr>w_last_head := h\<rparr>) = quiet v w"
  by (simp_all add: quiet_def)

lemma read_clock_quiet: "read_clock env w = (t, w') \<Longrightarrow> quiet w w'"
  by (auto simp: read_clock_def utc_now_def quiet_def later_def Let_def)

lemma elapsed_ms_quiet: "elapsed_ms env t w = (ms, w') \<Longrightarrow> quiet w w'"
  by (auto simp: elapsed_ms_def Let_def split: prod.splits dest: read_clock_quiet)

lemma push_record_quiet: "push_record limit r w = Some (x, w') \<Longrightarrow> quiet w w'"
  by (auto simp: push_record_def quiet_def split: option.splits)

text \<open>A dynamic node is a part of the program too: what it draws it does not take back.\<close>

definition forward_node :: "('s, 'x) graph \<Rightarrow> ('s, 'x) dynamic_node \<Rightarrow> bool" where
  "forward_node g dyn \<longleftrightarrow> (\<forall>env ctx s w. later (snd w) (snd (snd (dyn ctx s (run_child env (g_nodes g)) w))))"

definition forward :: "('s, 'x) graph \<Rightarrow> bool" where
  "forward g \<longleftrightarrow> (\<forall>n dyn. g_dynamic_nodes g n = Some dyn \<longrightarrow> forward_node g dyn)"

lemma call_dynamic_later:
  assumes "call_dynamic env nodes dyn t n c b token input s w = Some (r, a, w')"
    and "\<And>ctx v. later (snd v) (snd (snd (dyn ctx s (run_child env nodes) v)))"
  shows "quiet w w'"
proof -
  obtain ctx y where c: "node_context_new env t n 0 c b token input (w_sys w) = (ctx, y)" by fastforce
  then have y: "later (w_sys w) y"
    by (auto simp: node_context_new_def new_v4_def later_def Let_def)
  obtain f x y' where d: "dyn ctx s (run_child env nodes) (w_ext w, y) = (f, (x, y'))"
    by (metis prod.collapse)
  have "later y y'" using assms(2)[of "(w_ext w, y)" ctx] by (simp add: d)
  then show ?thesis
    using assms(1) later_trans[OF y] by (auto simp: call_dynamic_def c d quiet_def Let_def split: future.splits)
qed

lemma call_dynamic_store:
  "call_dynamic env nodes dyn t n c b token input s w = Some (r, a, w') \<Longrightarrow> w_store w' = w_store w"
  by (auto simp: call_dynamic_def Let_def split: prod.splits future.splits)

lemma retry_loop_quiet: "retry_loop c 0 input w = Some (r, a, w') \<Longrightarrow> quiet w w'"
  by (drule retry_loop_frame[OF zero_attempts]) (simp add: same_frame_quiet)

lemma seq_call_store: "seq_call j q callee w = Some (r, a, w') \<Longrightarrow> w_store w' = w_store w"
  by (auto simp: seq_call_def split: sum.splits dest: call_dynamic_store quiet_store retry_loop_quiet)

lemma seq_call_quiet:
  assumes "forward (j_graph j)" and "find_node (j_graph j) n = Some callee"
    and "seq_call j q callee w = Some (r, a, w')"
  shows "quiet w w'"
proof (cases callee)
  case (Inl node)
  with assms(3) show ?thesis by (auto simp: seq_call_def dest: retry_loop_quiet)
next
  case (Inr dyn)
  with assms(2) have "g_dynamic_nodes (j_graph j) n = Some dyn"
    by (auto simp: find_node_def split: option.splits)
  with assms(1) have "forward_node (j_graph j) dyn" by (auto simp: forward_def)
  with assms(3) Inr call_dynamic_later show ?thesis
    by (fastforce simp: seq_call_def forward_node_def)
qed

lemma seq_node_budget_quiet: "seq_node_budget j n ms m w = Some (r, w') \<Longrightarrow> quiet w w'"
  by (auto simp: seq_node_budget_def split: option.splits if_splits)

lemma seq_run_budget_quiet: "seq_run_budget j n a ms m f w = Some (r, w') \<Longrightarrow> quiet w w'"
  by (auto simp: seq_run_budget_def split: option.splits if_splits)

lemma seq_report_success_quiet:
  "seq_report_success j n t ms a m w = Some (r, w') \<Longrightarrow> quiet w w'"
  by (auto simp: seq_report_success_def then_ok_Some dest!: push_record_quiet)

lemma seq_report_failure_quiet: "quiet w (seq_report_failure j n t a c msg w)"
  by (auto simp: seq_report_failure_def split: prod.splits dest: elapsed_ms_quiet)

text \<open>A call that succeeded either fails quietly or comes to the save.\<close>

lemma seq_success_quiet:
  assumes "seq_success j q t a out w = Some (r, w')"
  shows "(\<exists>e. r = Inl e \<and> quiet w w') \<or> (\<exists>q0 w0. quiet w w0 \<and> seq_advance j q0 out w0 = Some (r, w'))"
proof -
  obtain ms w1 where e: "elapsed_ms (j_env j) t w = (ms, w1)" by fastforce
  note q1 = elapsed_ms_quiet[OF e]
  have b: "\<exists>x v'. seq_node_budget j n ms m v = Some (x, v')" for n m v
    by (auto simp: seq_node_budget_def split: option.splits)
  have c: "\<exists>x v'. seq_run_budget j n k ms m f v = Some (x, v')" for n k m f v
    by (auto simp: seq_run_budget_def split: option.splits)
  obtain x2 w2 where n: "seq_node_budget j (q_current q) ms (no_meta out) w1 = Some (x2, w2)" using b by blast
  note q2 = quiet_trans[OF q1 seq_node_budget_quiet[OF n]]
  obtain x3 w3 where m: "seq_run_budget j (q_current q) a ms (no_meta out)
      (fadd (q_running_cost q) (cost_or_zero (no_meta out))) w2 = Some (x3, w3)" using c by blast
  note q3 = quiet_trans[OF q2 seq_run_budget_quiet[OF m]]
  show ?thesis
  proof (cases x2)
    case (Inl e)
    with assms n q2 show ?thesis by (auto simp: seq_success_def e Let_def)
  next
    case i2: (Inr u)
    show ?thesis
    proof (cases x3)
      case (Inl e)
      with assms n m i2 q3 show ?thesis by (auto simp: seq_success_def \<open>elapsed_ms _ _ _ = _\<close> Let_def)
    next
      case (Inr u')
      from assms obtain x4 w4 where p: "seq_report_success j (q_current q) t ms a (no_meta out) w3 = Some (x4, w4)"
        by (auto simp: seq_success_def e Let_def n m i2 Inr then_ok_Some)
      note q4 = quiet_trans[OF q3 seq_report_success_quiet[OF p]]
      show ?thesis
      proof (cases x4)
        case (Inl e')
        with assms p q4 show ?thesis by (auto simp: seq_success_def e Let_def n m i2 Inr)
      next
        case (Inr u'')
        have "seq_advance j (q\<lparr>q_running_cost := fadd (q_running_cost q) (cost_or_zero (no_meta out)),
            q_total_cost := fadd (q_running_cost q) (cost_or_zero (no_meta out))\<rparr>) out w4 = Some (r, w')"
          using assms p Inr \<open>x3 = _\<close> by (simp add: seq_success_def e Let_def n m i2)
        with q4 show ?thesis by blast
      qed
    qed
  qed
qed

section \<open>The interface\<close>

locale journal_runner = checkpoint_journal save load claim journal usable enc dec
  for save :: "'s save_args \<Rightarrow> (string, 'st) store_op"
    and load :: "string \<Rightarrow> ('s loaded, 'st) store_op"
    and claim :: "string \<Rightarrow> string \<Rightarrow> (ClaimResult, 'st) store_op"
    and journal :: "'st \<Rightarrow> string \<Rightarrow> 'v journal_entry list"
    and usable :: "'st \<times> sys \<Rightarrow> bool"
    and enc :: "'s \<Rightarrow> TakelnError + 'v"
    and dec :: "'v \<Rightarrow> TakelnError + 's" +
  fixes ck :: "('s, 'st) checkpointer"
  assumes head_default: "ck_current_head ck = default_current_head"
    and bound_default: "ck_save_state_bound ck = default_save_state_bound save"
    and load_is: "ck_load_state ck = load"
    and claim_is: "ck_claim_interrupt ck = claim"
begin

lemma usable_quiet: "quiet w w' \<Longrightarrow> usable (store_at w) \<Longrightarrow> usable (store_at w')"
  using usable_later[of "w_store w" "w_sys w" "w_sys w'"] by (simp add: quiet_def)

text \<open>The entries \<open>es\<close> were appended to thread \<open>t\<close>'s journal.\<close>

definition appended :: "string \<Rightarrow> 'v journal_entry list \<Rightarrow> 'st \<times> sys \<Rightarrow> 'st \<times> sys \<Rightarrow> bool" where
  "appended t es p p' \<longleftrightarrow> usable p' \<and> journal (fst p') = (journal (fst p))(t := journal (fst p) t @ es)"

lemma appended_refl [simp]: "usable p \<Longrightarrow> appended t [] p p"
  by (simp add: appended_def)

lemma appended_trans:
  "appended t es p p' \<Longrightarrow> appended t fs p' p'' \<Longrightarrow> appended t (es @ fs) p p''"
  by (simp add: appended_def)

lemma appended_usable: "appended t es p p' \<Longrightarrow> usable p'"
  by (simp add: appended_def)

lemma appended_nothing: "usable p' \<Longrightarrow> journal (fst p') = journal (fst p) \<Longrightarrow> appended t [] p p'"
  by (simp add: appended_def)

lemma appended_quiet:
  assumes "quiet w w'"
  shows "usable (store_at w) \<Longrightarrow> appended t [] (store_at w) (store_at w')"
    and "appended t es (store_at w') p = appended t es (store_at w) p"
  using assms usable_quiet[OF assms] by (simp_all add: appended_def quiet_def)

lemma save_bound_journal:
  assumes "usable (store_at w)" and "save_bound ck a h w = Some (r, w')"
  shows "(\<exists>e. r = Inl e \<and> enc (sa_state a) = Inl e \<and> appended (sa_thread_id a) [] (store_at w) (store_at w')) \<or>
     (\<exists>c v t. r = Inr c \<and> enc (sa_state a) = Inr v \<and>
        appended (sa_thread_id a) [entry_of a v c t] (store_at w) (store_at w'))"
proof (cases "enc (sa_state a)")
  case (Inl e)
  from save_err[OF assms(1) Inl] assms(2) Inl show ?thesis
    by (auto simp: save_bound_def bound_default default_save_state_bound_def on_store_def appended_def)
next
  case (Inr v)
  from save_ok[OF assms(1) Inr] obtain i t st' y' where
    "save a (store_at w) = Some (Inr i, (st', y'))" "usable (st', y')"
    "journal st' = (journal (w_store w))(sa_thread_id a :=
       journal (w_store w) (sa_thread_id a) @ [entry_of a v i t])" by fastforce
  with assms(2) Inr show ?thesis
    by (auto simp: save_bound_def bound_default default_save_state_bound_def on_store_def
        lift_result_def appended_def)
qed

lemma save_bound_ok:
  assumes "usable (store_at w)" and "enc (sa_state a) = Inr v"
  shows "\<exists>c t st y. save_bound ck a h w = Some (Inr c, w\<lparr>w_store := st, w_sys := y\<rparr>) \<and>
     appended (sa_thread_id a) [entry_of a v c t] (store_at w) (st, y)"
proof -
  from save_ok[OF assms] obtain i t st' y' where
    "save a (store_at w) = Some (Inr i, (st', y'))" "usable (st', y')"
    "journal st' = (journal (w_store w))(sa_thread_id a :=
       journal (w_store w) (sa_thread_id a) @ [entry_of a v i t])" by fastforce
  then show ?thesis
    by (auto simp: save_bound_def bound_default default_save_state_bound_def on_store_def
        lift_result_def appended_def)
qed

lemma j_save_journal:
  assumes "j_ck j = ck" and "usable (store_at w)"
    and "j_save j s n st req rs h w = Some (r, w')"
  shows "(\<exists>e. r = Inl e \<and> appended (j_thread_id j) [] (store_at w) (store_at w')) \<or>
     (\<exists>c v t. r = Inr c \<and> enc s = Inr v \<and>
        appended (j_thread_id j) [entry_of (j_args j s n st req rs) v c t] (store_at w) (store_at w'))"
proof -
  let ?a = "j_args j s n st req rs"
  have p: "sa_state ?a = s" "sa_thread_id ?a = j_thread_id j" by (simp_all add: j_args_def)
  show ?thesis
    using assms(2,3) save_bound_journal[of w ?a h r w', OF assms(2)]
    by (auto simp: j_save_def checked_save_def assms(1) lift_result_def then_ok_Some p
        split: if_splits)
qed

lemma j_save_ok:
  assumes "j_ck j = ck" and "usable (store_at w)" and "enc s = Inr v"
    and "estimated_size (j_env j) s \<le> max_checkpoint_bytes (g_resource_limits (j_graph j))"
  shows "\<exists>c t st y. j_save j s n status req rs h w = Some (Inr c, w\<lparr>w_store := st, w_sys := y\<rparr>) \<and>
     appended (j_thread_id j) [entry_of (j_args j s n status req rs) v c t] (store_at w) (st, y)"
proof -
  let ?a = "j_args j s n status req rs"
  have p: "sa_state ?a = s" "sa_thread_id ?a = j_thread_id j" by (simp_all add: j_args_def)
  have "enc (sa_state ?a) = Inr v" by (simp add: p assms(3))
  from save_bound_ok[OF assms(2) this, of h] assms(4) show ?thesis
    by (simp add: j_save_def checked_save_def assms(1) lift_result_def check_checkpoint_size_def p)
qed

text \<open>What a step has appended, and what it says it did.\<close>

definition break_entry :: "('s, 'x, 'st) job \<Rightarrow> 's \<Rightarrow> 'v journal_entry \<Rightarrow> bool" where
  "break_entry j s e \<longleftrightarrow> enc s = Inr (je_state e) \<and> je_claimed_interrupt e = None \<and> je_dag e = None \<and>
     (je_status e = CheckpointStatus.Complete \<and> je_resolved_interrupt e = j_resolved_interrupt j \<or>
      je_status e = CheckpointStatus.Interrupted \<and> je_resolved_interrupt e = j_resolved_interrupt j \<or>
      je_status e = CheckpointStatus.Yielded \<and> je_resolved_interrupt e = None \<and>
        je_yield_request e \<noteq> None)"

definition complete_entry :: "('s, 'x, 'st) job \<Rightarrow> 'v journal_entry \<Rightarrow> bool" where
  "complete_entry j e \<longleftrightarrow> je_status e = CheckpointStatus.Complete \<and>
     je_claimed_interrupt e = None \<and> je_dag e = None \<and> je_yield_request e = None \<and>
     je_resolved_interrupt e = j_resolved_interrupt j"

definition flow_entry :: "('s, 'x, 'st) job \<Rightarrow> 's \<Rightarrow> 's flow \<Rightarrow> 'v journal_entry list \<Rightarrow> bool" where
  "flow_entry j s0 fl es \<longleftrightarrow> (case fl of
       Continue q \<Rightarrow> (\<exists>e. es = [e] \<and> complete_entry j e \<and> enc (q_state q) = Inr (je_state e) \<and>
         je_next_node e = q_current q \<and> q_expected_head q \<noteq> None)
     | Break s \<Rightarrow> es = [] \<and> s = s0 \<or> (\<exists>e. es = [e] \<and> break_entry j s e))"

definition step_ok :: "('s, 'x, 'st) job \<Rightarrow> 's \<Rightarrow> TakelnError + 's flow \<Rightarrow> 'st \<times> sys \<Rightarrow> 'st \<times> sys \<Rightarrow> bool" where
  "step_ok j s0 r p p' \<longleftrightarrow> (case r of
       Inl _ \<Rightarrow> appended (j_thread_id j) [] p p'
     | Inr fl \<Rightarrow> (\<exists>es. appended (j_thread_id j) es p p' \<and> flow_entry j s0 fl es))"

lemma step_ok_quiet: "quiet w w0 \<Longrightarrow> step_ok j s0 r (store_at w0) p = step_ok j s0 r (store_at w) p"
  by (simp add: step_ok_def appended_quiet(2) split: sum.splits)

text \<open>The runs of a graph keep the store usable when no call takes draws back, or none matters.\<close>

definition steady :: "('s, 'x) graph \<Rightarrow> bool" where
  "steady g \<longleftrightarrow> (\<forall>st y y'. usable (st, y) \<longrightarrow> usable (st, y')) \<or> forward g"

lemma entry_of_sel [simp]:
  "je_state (entry_of a v c t) = v" "je_status (entry_of a v c t) = sa_status a"
  "je_next_node (entry_of a v c t) = sa_next_node a" "je_dag (entry_of a v c t) = sa_dag a"
  "je_claimed_interrupt (entry_of a v c t) = sa_claimed_interrupt a"
  "je_resolved_interrupt (entry_of a v c t) = sa_resolved_interrupt a"
  "je_yield_request (entry_of a v c t) = sa_yield_request a"
  "je_checkpoint_id (entry_of a v c t) = c" "je_created_at (entry_of a v c t) = t"
  by (simp_all add: entry_of_def)

lemma j_args_sel [simp]:
  "sa_state (j_args j s n st r rs) = s" "sa_status (j_args j s n st r rs) = st"
  "sa_next_node (j_args j s n st r rs) = n" "sa_dag (j_args j s n st r rs) = None"
  "sa_claimed_interrupt (j_args j s n st r rs) = None"
  "sa_resolved_interrupt (j_args j s n st r rs) = rs" "sa_yield_request (j_args j s n st r rs) = r"
  "sa_thread_id (j_args j s n st r rs) = j_thread_id j"
  by (simp_all add: j_args_def)

lemma seq_advance_ok:
  assumes "j_ck j = ck" and "usable (store_at w)" and "seq_advance j q out w = Some (r, w')"
  shows "step_ok j s0 r (store_at w) (store_at w')"
proof -
  obtain x w1 where s: "j_save j (no_state out) (resolve_next_node (j_graph j) (q_current q) out)
      CheckpointStatus.Complete None (j_resolved_interrupt j) (q_expected_head q) w = Some (x, w1)"
    using assms(3) by (auto simp: seq_advance_def Let_def then_ok_Some)
  from j_save_journal[OF assms(1,2) s] show ?thesis
  proof (elim disjE exE conjE)
    fix e assume "x = Inl e" "appended (j_thread_id j) [] (store_at w) (store_at w1)"
    with assms(3) s show ?thesis by (auto simp: seq_advance_def step_ok_def)
  next
    fix c t and v :: 'v
    let ?e = "entry_of (j_args j (no_state out) (resolve_next_node (j_graph j) (q_current q) out)
      CheckpointStatus.Complete None (j_resolved_interrupt j)) v c t"
    assume x: "x = Inr c" and e: "enc (no_state out) = Inr v"
      and a: "appended (j_thread_id j) [?e] (store_at w) (store_at w1)"
    have "store_at w' = store_at w1" "\<exists>fl. r = Inr fl \<and> flow_entry j s0 fl [?e]"
      using assms(3) s x e
      by (auto simp: seq_advance_def Let_def flow_entry_def complete_entry_def break_entry_def
          split: if_splits)
    with a show ?thesis by (auto simp: step_ok_def)
  qed
qed

lemma break_save_ok:
  assumes "j_ck j = ck" and "usable (store_at w)"
    and "then_ok (j_save j s n status req rs h w) (\<lambda>_ w. Some (Inr (Break s), w)) = Some (r, w')"
    and "status = CheckpointStatus.Interrupted \<and> rs = j_resolved_interrupt j \<or>
         status = CheckpointStatus.Yielded \<and> rs = None \<and> req \<noteq> None"
  shows "step_ok j s0 r (store_at w) (store_at w')"
proof -
  obtain x w1 where s: "j_save j s n status req rs h w = Some (x, w1)"
    using assms(3) by (auto simp: then_ok_Some)
  from j_save_journal[OF assms(1,2) s] show ?thesis
  proof (elim disjE exE conjE)
    fix e assume "x = Inl e" "appended (j_thread_id j) [] (store_at w) (store_at w1)"
    with assms(3) s show ?thesis by (auto simp: step_ok_def)
  next
    fix c t and v :: 'v
    let ?e = "entry_of (j_args j s n status req rs) v c t"
    assume x: "x = Inr c" and e: "enc s = Inr v"
      and a: "appended (j_thread_id j) [?e] (store_at w) (store_at w1)"
    have "flow_entry j s0 (Break s) [?e]"
      using assms(4) e by (auto simp: flow_entry_def break_entry_def)
    with a have "step_ok j s0 (Inr (Break s)) (store_at w) (store_at w1)" by (auto simp: step_ok_def)
    with assms(3) s x show ?thesis by simp
  qed
qed

lemma quiet_failure:
  "quiet w w' \<Longrightarrow> usable (store_at w) \<Longrightarrow> step_ok j s0 (Inl e) (store_at w) (store_at w')"
  using appended_quiet(1) by (simp add: step_ok_def)

lemma seq_result_ok:
  assumes "j_ck j = ck" and "usable (store_at w)" and "seq_result j q t a res w = Some (r, w')"
  shows "step_ok j s0 r (store_at w) (store_at w')"
proof (cases "(j, q, t, a, res, w)" rule: seq_result.cases)
  case (1 j' q' t' a' out w0)
  then have "seq_success j q t a out w = Some (r, w')" using assms(3) by auto
  from seq_success_quiet[OF this] show ?thesis
  proof (elim disjE exE conjE)
    fix e assume "r = Inl e" "quiet w w'"
    with quiet_failure[OF _ assms(2)] show ?thesis by simp
  next
    fix q0 w0 assume q: "quiet w w0" and "seq_advance j q0 out w0 = Some (r, w')"
    from this(2) show ?thesis
      unfolding step_ok_quiet[OF q, symmetric] by (rule seq_advance_ok[OF assms(1) usable_quiet[OF q assms(2)]])
  qed
next
  case (2 j' q' t' a' request w0)
  obtain ms w1 where e: "elapsed_ms (j_env j) t w = (ms, w1)" by fastforce
  let ?w = "j_finished j (q_current q) ms ''yielded'' None
      (j_span j (q_current q) a ms None SpanStatus.Cancelled (Some (yr_message request)) node_meta_default w1)"
  have q: "quiet w ?w" using elapsed_ms_quiet[OF e] by simp
  have "seq_yield j q t a request w = Some (r, w')" using 2 assms(3) by auto
  then have "then_ok (j_save j (q_state q) (q_current q) CheckpointStatus.Yielded (Some request) None
      (q_expected_head q) ?w) (\<lambda>_ w. Some (Inr (Break (q_state q)), w)) = Some (r, w')"
    by (simp add: seq_yield_def e Let_def)
  then show ?thesis
    unfolding step_ok_quiet[OF q, symmetric] by (rule break_save_ok[OF assms(1) usable_quiet[OF q assms(2)]]) simp
qed (use assms(3) quiet_failure[OF seq_report_failure_quiet assms(2)] quiet_failure[OF quiet_refl assms(2)]
      in auto)

lemma seq_step_ok:
  assumes "j_ck j = ck" and "steady (j_graph j)" and "usable (store_at w)" and "seq_step j q w = Some (r, w')"
  shows "step_ok j (q_state q) r (store_at w) (store_at w')"
proof -
  let ?q = "q\<lparr>q_step_count := Suc (q_step_count q)\<rparr>"
  have ex: "step_ok j (q_state q) r (store_at w) (store_at w')"
    if x: "seq_execute j (?q\<lparr>q_first := False\<rparr>) w = Some (r, w')"
  proof (cases "find_node (j_graph j) (q_current q)")
    case None
    with x quiet_failure[OF quiet_refl assms(3)] show ?thesis by (auto simp: seq_execute_def)
  next
    case (Some callee)
    obtain t w1 where c: "read_clock (j_env j) w = (t, w1)" by fastforce
    let ?w1 = "send_started (j_thread_id j) (q_current q) t w1"
    have q1: "quiet w ?w1" using read_clock_quiet[OF c] by simp
    from x obtain res a w2
      where call: "seq_call j (?q\<lparr>q_first := False\<rparr>) callee ?w1 = Some (Inr res, a, w2)"
      and rest: "seq_result j (?q\<lparr>q_first := False, q_input := None\<rparr>) t a res w2 = Some (r, w')"
      by (auto simp: seq_execute_def Some c Let_def split: option.splits sum.splits prod.splits)
    have st2: "w_store w2 = w_store w" using seq_call_store[OF call] quiet_store[OF q1] by simp
    have u: "usable (store_at w2)"
    proof (cases "forward (j_graph j)")
      case True
      from usable_quiet[OF quiet_trans[OF q1 seq_call_quiet[OF True Some call]] assms(3)] show ?thesis .
    next
      case False
      with assms(2,3) st2 show ?thesis by (simp add: steady_def) blast
    qed
    have "step_ok j (q_state q) r (store_at w2) (store_at w')" by (rule seq_result_ok[OF assms(1) u rest])
    then show ?thesis by (simp add: step_ok_def appended_def st2 split: sum.splits)
  qed
  have int: "step_ok j (q_state q) r (store_at w) (store_at w')" if "seq_interrupt j ?q w = Some (r, w')"
    by (rule break_save_ok[OF assms(1,3) that[unfolded seq_interrupt_def]]) simp
  have fin: "step_ok j (q_state q) r (store_at w) (store_at w')" if "seq_end j ?q w = Some (r, w')"
    using that assms(3) by (auto simp: seq_end_def step_ok_def flow_entry_def
        intro!: exI[of _ "[]"])
  show ?thesis
    using assms(4) ex int fin quiet_failure[OF quiet_refl assms(3)]
    by (auto simp: seq_step_def Let_def split: if_splits)
qed

definition run_entries :: "('s, 'x, 'st) job \<Rightarrow> 's \<Rightarrow> TakelnError + 's \<Rightarrow> 'v journal_entry list \<Rightarrow> bool" where
  "run_entries j s0 r es \<longleftrightarrow> (\<forall>e \<in> set (butlast es). complete_entry j e) \<and> (case r of
       Inl _ \<Rightarrow> \<forall>e \<in> set es. complete_entry j e
     | Inr s \<Rightarrow> if es = [] then s = s0 else break_entry j s (last es))"

lemma complete_break: "complete_entry j e \<Longrightarrow> enc s = Inr (je_state e) \<Longrightarrow> break_entry j s e"
  by (simp add: complete_entry_def break_entry_def)

lemma seq_loop_ok:
  assumes "j_ck j = ck" and "steady (j_graph j)" and "usable (store_at w)" and "seq_loop j q w = Some (r, w')"
  shows "\<exists>es. appended (j_thread_id j) es (store_at w) (store_at w') \<and> run_entries j (q_state q) r es"
  using assms
proof (induction j q w rule: seq_loop.induct)
  case (1 j q w)
  from 1(5) obtain x w1 where s: "seq_step j q w = Some (x, w1)"
    by (cases "seq_step j q w") (auto simp: seq_loop.simps[of j q w])
  note ok = seq_step_ok[OF 1(2,3,4) s]
  show ?case
  proof (cases x)
    case (Inl e)
    with ok 1(5) s have "r = Inl e" "appended (j_thread_id j) [] (store_at w) (store_at w')"
      by (auto simp: seq_loop.simps[of j q w] step_ok_def)
    then show ?thesis by (intro exI[of _ "[]"]) (simp add: run_entries_def)
  next
    case (Inr fl)
    from ok Inr obtain es where a: "appended (j_thread_id j) es (store_at w) (store_at w1)"
      and f: "flow_entry j (q_state q) fl es" by (auto simp: step_ok_def)
    show ?thesis
    proof (cases fl)
      case (Break s')
      have r: "r = Inr s'" "w' = w1" using 1(5) s Inr Break by (auto simp: seq_loop.simps[of j q w])
      from f Break have "run_entries j (q_state q) r es"
        by (auto simp: flow_entry_def run_entries_def r)
      with a show ?thesis by (auto simp: r)
    next
      case (Continue q')
      with f obtain e where e: "es = [e]" "complete_entry j e" "enc (q_state q') = Inr (je_state e)"
        by (auto simp: flow_entry_def)
      from 1(5) s Inr Continue have l: "seq_loop j q' w1 = Some (r, w')"
        by (auto simp: seq_loop.simps[of j q w])
      from 1(1)[OF s refl Inr Continue 1(2,3) appended_usable[OF a] l]
      obtain fs where fs: "appended (j_thread_id j) fs (store_at w1) (store_at w')"
        "run_entries j (q_state q') r fs" by auto
      have "run_entries j (q_state q) r (es @ fs)"
        using fs(2) e complete_break[OF e(2), of "q_state q'"]
        by (auto simp: run_entries_def split: sum.splits if_splits)
      with appended_trans[OF a fs(1)] show ?thesis by blast
    qed
  qed
qed

lemma run_inner_ok:
  assumes "j_ck j = ck" and "steady (j_graph j)" and "usable (store_at w)" and "run_inner j s start input w = Some (r, w')"
  shows "\<exists>es. appended (j_thread_id j) es (store_at w) (store_at w') \<and> run_entries j s r es"
proof -
  from assms(1,4) have "seq_loop j (seq_start s start input None)
      (w\<lparr>w_last_head := Some None\<rparr>) = Some (r, w')"
    by (simp add: run_inner_def head_default default_current_head_def on_store_def)
  from seq_loop_ok[OF assms(1,2) _ this] assms(3) show ?thesis by (simp add: seq_start_def)
qed

text \<open>Loading the last entry of a thread.\<close>

lemma load_last:
  assumes "usable (store_at w)" and "last_opt (journal (w_store w) t) = Some e" and "dec (je_state e) = Inr s"
  shows "\<exists>st y. on_store (ck_load_state ck t) w =
       Some (Inr (Some (s, meta_of t e, je_dag e)), w\<lparr>w_store := st, w_sys := y\<rparr>) \<and>
     usable (st, y) \<and> journal st = journal (w_store w)"
  using load_spec[OF assms(1), of t] assms(2,3)
  by (fastforce simp: on_store_def load_is load_entry_def)

end

section \<open>The in-memory checkpointer\<close>

interpretation mem_run: journal_runner "mem_save_state env" "mem_load_state env"
    mem_claim_interrupt mem_journal mem_usable "mem_enc env" "mem_dec env" "memory_checkpointer env"
  for env
  by unfold_locales (simp_all add: memory_checkpointer_def)

lemma mem_steady [simp]: "mem_run.steady g"
  by (simp add: mem_run.steady_def mem_usable_def)

lemma mem_appended:
  assumes "mem_run.appended t es (st, y) (st', y')"
  shows "\<not> ms_poisoned st'" and
    "\<exists>cs. map mem_entry cs = es \<and> mem_list st' = (mem_list st)(t := mem_list st t @ cs)"
proof -
  have j: "mem_journal st' = (mem_journal st)(t := mem_journal st t @ es)" and "mem_usable (st', y')"
    using assms by (simp_all add: mem_run.appended_def)
  then show "\<not> ms_poisoned st'" by (simp add: mem_usable_def)
  have inj: "inj mem_entry"
    by (rule injI) (simp add: mem_entry_def MemoryCheckpoint.equality)
  have "map mem_entry (mem_list st' t) = map mem_entry (mem_list st t) @ es"
    using fun_cong[OF j, of t] by (simp add: mem_journal_def)
  then obtain xs cs where xs: "mem_list st' t = xs @ cs"
    "map mem_entry xs = map mem_entry (mem_list st t)"
    "map mem_entry cs = es" by (auto simp: map_eq_append_conv)
  have "xs = mem_list st t" using xs(2) inj by (simp add: inj_map_eq_map)
  moreover have "mem_list st' u = mem_list st u" if "u \<noteq> t" for u
    using fun_cong[OF j, of u] that inj by (simp add: mem_journal_def inj_map_eq_map)
  ultimately show "\<exists>cs. map mem_entry cs = es \<and>
      mem_list st' = (mem_list st)(t := mem_list st t @ cs)"
    using xs(1,3) by (auto simp: fun_eq_iff)
qed

end
