(* ===== verification/Resume.thy ===== *)
theory Resume
  imports Sequential
begin

text \<open>
  The sequential resume operations of \<open>src/graph.rs\<close>: \<open>resume\<close> and \<open>resume_with\<close> (crash recovery),
  \<open>resume_with_input\<close> (human in the loop), its schema validation, and \<open>revert_to_yielded\<close>.
\<close>

section \<open>Crash recovery\<close>

definition resume_job :: "'s env \<Rightarrow> ('s, 'x) graph \<Rightarrow> ('s, 'st) checkpointer \<Rightarrow> string \<Rightarrow>
    cancel_token option \<Rightarrow> string option \<Rightarrow> ('s, 'x, 'st) job" where
  "resume_job env g ck thread_id token resolved = \<lparr>j_env = env, j_graph = g, j_ck = ck,
     j_thread_id = thread_id, j_token = token, j_resolved_interrupt = resolved\<rparr>"

text \<open>\<open>run_inner(.., None, resolved, &mut None)\<close>, and \<open>Ok(Some(..))\<close> of its result.\<close>

definition resume_run :: "'s env \<Rightarrow> ('s, 'x) graph \<Rightarrow> ('s, 'st) checkpointer \<Rightarrow> string \<Rightarrow>
    cancel_token option \<Rightarrow> string option \<Rightarrow> 's \<Rightarrow> string \<Rightarrow> ('s option, 'x, 'st) act" where
  "resume_run env g ck thread_id token resolved s start w =
     then_ok (run_inner (resume_job env g ck thread_id token resolved) s start None
                (w\<lparr>w_last_head := None\<rparr>))
       (\<lambda>final w. Some (Inr (Some final), w))"

definition crash_fail_fast :: "string \<Rightarrow> TakelnError" where
  "crash_fail_fast thread_id = ExecutionError (''Checkpoint for thread '' @ quoted thread_id @
     '' has Running status (crash detected). FailFast policy applied.'')"

definition resume_with :: "'s env \<Rightarrow> ('s, 'x) graph \<Rightarrow> ('s, 'st) checkpointer \<Rightarrow> string \<Rightarrow>
    cancel_token option \<Rightarrow> ('s \<Rightarrow> 's) \<Rightarrow> ('s option, 'x, 'st) act" where
  "resume_with env g ck thread_id token rebind w =
     then_ok (on_store (ck_load_state ck thread_id) w) (\<lambda>loaded w. case loaded of
         None \<Rightarrow> Some (Inr None, w)
       | Some (s, meta, _) \<Rightarrow>
           (let s = rebind s;
                go = (\<lambda>start. resume_run env g ck thread_id token (cm_claimed_interrupt meta) s start w)
            in if cm_status meta = CheckpointStatus.Running
               then (case g_crash_recovery_policy g of
                    CrashRecoveryPolicy.ResetToPending \<Rightarrow> go (cm_next_node meta)
                  | CrashRecoveryPolicy.FailFast \<Rightarrow> Some (Inl (crash_fail_fast thread_id), w)
                  | CrashRecoveryPolicy.SkipAndContinue \<Rightarrow> (case g_edges g (cm_next_node meta) of
                        Some edge \<Rightarrow> go (follow_edge edge s)
                      | None \<Rightarrow> go (cm_next_node meta)))
               else go (cm_next_node meta)))"

definition resume :: "'s env \<Rightarrow> ('s, 'x) graph \<Rightarrow> ('s, 'st) checkpointer \<Rightarrow> string \<Rightarrow>
    cancel_token option \<Rightarrow> ('s option, 'x, 'st) act" where
  "resume env g ck thread_id token = resume_with env g ck thread_id token (\<lambda>s. s)"

section \<open>Schema validation\<close>

fun actual_type :: "json \<Rightarrow> string" where
  "actual_type JNull = ''null''"
| "actual_type (JBool _) = ''boolean''"
| "actual_type (JNumber n) = (if json_is_i64 n \<or> json_is_u64 n then ''integer'' else ''number'')"
| "actual_type (JString _) = ''string''"
| "actual_type (JArray _) = ''array''"
| "actual_type (JObject _) = ''object''"

definition type_ok :: "string \<Rightarrow> string \<Rightarrow> bool" where
  "type_ok expected actual =
     (if expected = ''number'' then actual = ''number'' \<or> actual = ''integer''
      else actual = expected)"

definition check_type :: "string \<Rightarrow> json \<Rightarrow> json \<Rightarrow> TakelnError + unit" where
  "check_type interrupt_id input schema =
     (case Option.bind (json_get ''type'' schema) json_as_str of
        None \<Rightarrow> Inr ()
      | Some expected \<Rightarrow>
          if type_ok expected (actual_type input) then Inr ()
          else Inl (SchemaValidationFailed interrupt_id (''Expected type '' @ quoted expected @
                 '', got '' @ quoted (actual_type input))))"

definition check_enum :: "'s env \<Rightarrow> string \<Rightarrow> json \<Rightarrow> json \<Rightarrow> TakelnError + unit" where
  "check_enum env interrupt_id input schema =
     (case Option.bind (json_get ''enum'' schema) json_as_array of
        None \<Rightarrow> Inr ()
      | Some values \<Rightarrow>
          if input \<in> set values then Inr ()
          else Inl (SchemaValidationFailed interrupt_id (''Value '' @ e_debug_json env input @
                 '' not in allowed enum values '' @ debug_list (e_debug_json env) values)))"

definition validate_input_against_schema ::
  "'s env \<Rightarrow> string \<Rightarrow> json \<Rightarrow> json \<Rightarrow> TakelnError + unit" where
  "validate_input_against_schema env interrupt_id input schema =
     (case check_type interrupt_id input schema of
        Inl e \<Rightarrow> Inl e
      | Inr _ \<Rightarrow> check_enum env interrupt_id input schema)"

section \<open>Resume with input\<close>

definition revert_to_yielded :: "('s, 'st) checkpointer \<Rightarrow> string \<Rightarrow> 's \<Rightarrow> string \<Rightarrow> YieldRequest \<Rightarrow>
    string option option \<Rightarrow> (unit, 'x, 'st) act" where
  "revert_to_yielded ck thread_id s next_node request last_head w =
     then_ok (case last_head of
         Some head \<Rightarrow> Some (Inr head, w)
       | None \<Rightarrow> on_store (ck_current_head ck thread_id) w)
     (\<lambda>expected_head w.
       then_ok (save_bound ck \<lparr>sa_thread_id = thread_id, sa_state = s, sa_next_node = next_node,
            sa_dag = None, sa_status = CheckpointStatus.Yielded, sa_yield_request = Some request,
            sa_claimed_interrupt = None, sa_resolved_interrupt = None\<rparr> expected_head w)
         (\<lambda>_ w. Some (Inr (), w)))"

text \<open>The run of a claimed interrupt, and the rollback when it fails (lines 1886 to 1974).\<close>

definition run_or_revert :: "'s env \<Rightarrow> ('s, 'x) graph \<Rightarrow> ('s, 'st) checkpointer \<Rightarrow> string \<Rightarrow> string \<Rightarrow>
    cancel_token option \<Rightarrow> 's \<Rightarrow> string \<Rightarrow> YieldRequest \<Rightarrow> string \<Rightarrow> json option \<Rightarrow>
    ('s, 'x, 'st) act" where
  "run_or_revert env g ck thread_id interrupt_id token s yielded_node request start input w =
     (case run_inner (resume_job env g ck thread_id token (Some interrupt_id)) s start input
             (w\<lparr>w_last_head := None\<rparr>) of
        None \<Rightarrow> None
      | Some (Inr final, w) \<Rightarrow> Some (Inr final, w)
      | Some (Inl e, w) \<Rightarrow>
          (case revert_to_yielded ck thread_id s yielded_node request (w_last_head w) w of
             None \<Rightarrow> None
           | Some (Inl save_err, w) \<Rightarrow> Some (Inl (ExecutionError (''Execution failed: '' @
                 display_takeln_error env e @ ''. Rollback save failed: '' @
                 display_takeln_error env save_err)), w)
           | Some (Inr _, w) \<Rightarrow> Some (Inl e, w)))"

text \<open>The audit of a resume that succeeded (lines 1977 to 2012).\<close>

definition audit_resume :: "'s env \<Rightarrow> ('s, 'x) graph \<Rightarrow> string \<Rightarrow> string \<Rightarrow> CheckpointMeta \<Rightarrow>
    ResumeContext \<Rightarrow> string \<Rightarrow> (unit, 'x, 'st) act" where
  "audit_resume env g thread_id interrupt_id meta context hash w =
     (let (t, w) = read_clock env w;
          w = observe (OResume \<lparr>rr_interrupt_id = interrupt_id, rr_thread_id = thread_id,
                rr_node_name = cm_next_node meta, rr_actor = rc_actor context, rr_resumed_at = t,
                rr_response_hash = hash\<rparr>) w
      in push_record (max_execution_records (g_resource_limits g))
           \<lparr>er_node_name = cm_next_node meta, er_started_at = t, er_duration_ms = 0,
            er_status = ''resumed'', er_cost_eur = None,
            er_checkpoint_id = Some (cm_checkpoint_id meta), er_attempts = 0,
            er_actor = rc_actor context, er_response_hash = Some hash, er_tokens_in = None,
            er_tokens_out = None\<rparr> w)"

definition resume_in_progress :: "string \<Rightarrow> string \<Rightarrow> TakelnError" where
  "resume_in_progress thread_id interrupt_id = ExecutionError (''Resume in progress for interrupt '' @
     quoted interrupt_id @ '' on thread '' @ quoted thread_id)"

text \<open>What follows a claim that was won (lines 1865 to 2012).\<close>

definition resume_claimed :: "'s env \<Rightarrow> ('s, 'x) graph \<Rightarrow> ('s, 'st) checkpointer \<Rightarrow> string \<Rightarrow> string \<Rightarrow>
    json \<Rightarrow> ResumeContext \<Rightarrow> cancel_token option \<Rightarrow> 's \<Rightarrow> CheckpointMeta \<Rightarrow>
    ('s option, 'x, 'st) act" where
  "resume_claimed env g ck thread_id interrupt_id input context token s meta w =
     (case cm_yield_request meta of
        None \<Rightarrow> Some (Inl (NothingToResume (''Thread '' @ quoted thread_id @
                  '' has no yield_request metadata'')), w)
      | Some request \<Rightarrow>
          if yr_interrupt_id request \<noteq> interrupt_id
          then Some (Inl (InvalidResume (''Expected interrupt_id '' @
                 quoted (yr_interrupt_id request) @ '', got '' @ quoted interrupt_id)), w)
          else then_ok (lift_result (case yr_schema request of
                   None \<Rightarrow> Inr ()
                 | Some schema \<Rightarrow> validate_input_against_schema env interrupt_id input schema) w)
            (\<lambda>_ w. let go = run_or_revert env g ck thread_id interrupt_id token s (cm_next_node meta) request in
              then_ok (case yr_resume_mode request of
                   ReEntry \<Rightarrow> go (cm_next_node meta) (Some input) w
                 | Handoff \<Rightarrow> go (edge_target g (cm_next_node meta) s) None w)
              (\<lambda>final w.
                then_ok (audit_resume env g thread_id interrupt_id meta context
                           (compute_response_hash env input) w)
                  (\<lambda>_ w. Some (Inr (Some final), w)))))"

definition resume_with_input :: "'s env \<Rightarrow> ('s, 'x) graph \<Rightarrow> ('s, 'st) checkpointer \<Rightarrow> string \<Rightarrow> string \<Rightarrow>
    json \<Rightarrow> ResumeContext \<Rightarrow> cancel_token option \<Rightarrow> ('s option, 'x, 'st) act" where
  "resume_with_input env g ck thread_id interrupt_id input context token w =
     then_ok (on_store (ck_claim_interrupt ck thread_id interrupt_id) w) (\<lambda>claim w.
     then_ok (on_store (ck_load_state ck thread_id) w) (\<lambda>loaded w. case loaded of
         None \<Rightarrow> Some (Inl (NothingToResume thread_id), w)
       | Some (s, meta, _) \<Rightarrow> (case claim of
             AlreadyCompleted \<Rightarrow> Some (Inr (Some s), w)
           | InProgress \<Rightarrow> Some (Inl (resume_in_progress thread_id interrupt_id), w)
           | Claimed \<Rightarrow> resume_claimed env g ck thread_id interrupt_id input context token s meta w)))"

end
