(* ===== verification/Seq_Spec.thy ===== *)
theory Seq_Spec
  imports Seq_Facts Resume
begin

text \<open>
  The abstract meaning of a sequential run: a chain of hops, each giving a state and the name of the
  next node. A graph whose nodes succeed at once, without budgets and interrupts, implements it:
  the result, the checkpoints and the step limit are those of \<open>ref_run\<close>. From that follow the
  meaning of the step limit and that a run resumed from any of its checkpoints ends as the run that
  was not interrupted.
\<close>

section \<open>The abstract run\<close>

type_synonym 's hop = "string \<Rightarrow> 's \<Rightarrow> 's \<times> string"

text \<open>The final state, if \<open>fuel\<close> passes of the loop reach it, and the checkpoints on the way.\<close>

fun ref_run :: "'s hop \<Rightarrow> nat \<Rightarrow> string \<Rightarrow> 's \<Rightarrow> 's option \<times> ('s \<times> string) list" where
  "ref_run hop 0 n s = (None, [])"
| "ref_run hop (Suc fuel) n s =
     (if n = end_node then (Some s, [])
      else (case hop n s of (s', n') \<Rightarrow> (case ref_run hop fuel n' s' of
          (r, cs) \<Rightarrow> (r, (s', n') # cs))))"

definition ref_result :: "nat \<Rightarrow> 's option \<Rightarrow> TakelnError + 's" where
  "ref_result limit r = (case r of
       None \<Rightarrow> Inl (StepLimitExceeded limit limit)
     | Some s \<Rightarrow> Inr s)"

text \<open>
  Called in state \<open>s\<close> with that resume input, the node \<open>n\<close> gives \<open>res\<close> at once. A dynamic node gets
  the child runner of the graph, \<open>res\<close> does not depend on the identifiers that it draws, and none
  of them is taken back.
\<close>

definition answers ::
  "('s, 'x) graph \<Rightarrow> string \<Rightarrow> json option \<Rightarrow> 's \<Rightarrow> 's node_result \<Rightarrow> bool" where
  "answers g n input s res \<longleftrightarrow> (case g_dynamic_nodes g n of
       Some dyn \<Rightarrow> \<forall>env ctx w. cx_resumed_input ctx = input \<longrightarrow>
         fst (dyn ctx s (run_child env (g_nodes g)) w) = Ready 0 res \<and>
         later (snd w) (snd (snd (dyn ctx s (run_child env (g_nodes g)) w)))
     | None \<Rightarrow> \<exists>node. g_nodes g n = Some node \<and>
         (\<forall>ctx x. cx_resumed_input ctx = input \<longrightarrow> fst (node ctx s x) = Ready 0 res))"

lemma answers_callee:
  assumes "answers g n input s res"
  obtains node where "find_node g n = Some (Inl node)"
      "\<And>ctx x. cx_resumed_input ctx = input \<Longrightarrow> fst (node ctx s x) = Ready 0 res"
    | dyn where "find_node g n = Some (Inr dyn)"
      "\<forall>env ctx w. cx_resumed_input ctx = input \<longrightarrow>
         fst (dyn ctx s (run_child env (g_nodes g)) w) = Ready 0 res \<and>
         later (snd w) (snd (snd (dyn ctx s (run_child env (g_nodes g)) w)))"
  using assms by (auto simp: answers_def find_node_def split: option.splits)

lemma call_dynamic_answers:
  assumes "\<forall>env ctx w. cx_resumed_input ctx = input \<longrightarrow>
     fst (dyn ctx s (run_child env nodes) w) = Ready 0 res \<and>
     later (snd w) (snd (snd (dyn ctx s (run_child env nodes) w)))"
  shows "\<exists>w'. call_dynamic env nodes dyn t n cp b token input s w = Some (Inr res, 0, w') \<and> quiet w w'"
proof -
  obtain ctx y where c: "node_context_new env t n 0 cp b token input (w_sys w) = (ctx, y)" by fastforce
  then have i: "cx_resumed_input ctx = input" and y: "later (w_sys w) y"
    by (auto simp: node_context_new_def new_v4_def later_def Let_def)
  let ?d = "dyn ctx s (run_child env nodes) (w_ext w, y)"
  have f: "fst ?d = Ready 0 res" and l: "later y (snd (snd ?d))" using assms i by auto
  obtain x y' where d: "?d = (Ready 0 res, (x, y'))" using f by (metis prod.collapse)
  have "later (w_sys w) y'" using later_trans[OF y] l by (simp add: d)
  then show ?thesis by (simp add: call_dynamic_def c d quiet_def)
qed

definition plain_node ::
  "('s, 'x) graph \<Rightarrow> 's set \<Rightarrow> (string \<Rightarrow> 's \<Rightarrow> 's NodeOutput) \<Rightarrow> string \<Rightarrow> bool" where
  "plain_node g S F n \<longleftrightarrow> effective_node_budget g n = None \<and>
     n \<notin> g_interrupt_before g \<and> n \<notin> g_interrupt_after g \<and>
     (\<forall>s \<in> S. \<forall>input. answers g n input s (Inr (F n s)))"

definition plain_hop :: "('s, 'x) graph \<Rightarrow> (string \<Rightarrow> 's \<Rightarrow> 's NodeOutput) \<Rightarrow> 's hop" where
  "plain_hop g F n s = (no_state (F n s), resolve_next_node g n (F n s))"

text \<open>
  A graph whose nodes \<open>N\<close> succeed at once: \<open>n\<close>, called in one of the states
  \<open>S n\<close>, gives the output \<open>F\<close>, which is one of the states of the next node; what it does to the outside
  world is left open. \<open>S end_node\<close> are the final states.
\<close>

definition plain_graph ::
  "'s env \<Rightarrow> ('s, 'x) graph \<Rightarrow> string set \<Rightarrow> (string \<Rightarrow> 's set) \<Rightarrow> (string \<Rightarrow> 's \<Rightarrow> 's NodeOutput) \<Rightarrow> bool" where
  "plain_graph env g N S F \<longleftrightarrow> g_budget_eur g = None \<and>
     0 < max_execution_records (g_resource_limits g) \<and> end_node \<notin> N \<and>
     (\<forall>n. \<forall>s \<in> S n. estimated_size env s \<le> max_checkpoint_bytes (g_resource_limits g)) \<and>
     (\<forall>n \<in> N. plain_node g (S n) F n \<and>
        (\<forall>s \<in> S n. case plain_hop g F n s of (s', n') \<Rightarrow> n' \<in> insert end_node N \<and> s' \<in> S n'))"

lemma plain_graph_hop:
  assumes "plain_graph env g N S F" and "n \<in> N" and "s \<in> S n" and "(s', n') = plain_hop g F n s"
  shows "n' \<in> insert end_node N" and "s' \<in> S n'"
  using assms by (fastforce simp: plain_graph_def)+

text \<open>
  A path of hops that a run takes: every node on it succeeds at once in the state it is
  called in, and its output is one of the states \<open>ok\<close>. Nothing is said of the node at its end.
\<close>

fun passes :: "('s \<Rightarrow> bool) \<Rightarrow> ('s, 'x) graph \<Rightarrow> (string \<Rightarrow> 's \<Rightarrow> 's NodeOutput) \<Rightarrow> string \<Rightarrow> 's \<Rightarrow>
    ('s \<times> string) list \<Rightarrow> bool" where
  "passes ok g F n s [] \<longleftrightarrow> True"
| "passes ok g F n s ((s', n') # hops) \<longleftrightarrow> n \<noteq> end_node \<and> plain_node g {s} F n \<and>
     plain_hop g F n s = (s', n') \<and> ok s' \<and> passes ok g F n' s' hops"

text \<open>A cost within a budget: the comparison is the code's, which a NaN passes.\<close>

definition cost_within :: "f64 \<Rightarrow> f64 option \<Rightarrow> bool" where
  "cost_within cost budget \<longleftrightarrow> (case budget of None \<Rightarrow> True | Some b \<Rightarrow> \<not> fgt cost b)"

text \<open>The accumulated cost after a path, from the cost \<open>c\<close>, and a path that keeps it within the budget.\<close>

fun path_cost :: "(string \<Rightarrow> 's \<Rightarrow> 's NodeOutput) \<Rightarrow> f64 \<Rightarrow> string \<Rightarrow> 's \<Rightarrow> ('s \<times> string) list \<Rightarrow> f64" where
  "path_cost F c n s [] = c"
| "path_cost F c n s ((s', n') # hops) = path_cost F (fadd c (cost_or_zero (no_meta (F n s)))) n' s' hops"

fun affordable :: "f64 option \<Rightarrow> (string \<Rightarrow> 's \<Rightarrow> 's NodeOutput) \<Rightarrow> f64 \<Rightarrow> string \<Rightarrow> 's \<Rightarrow>
    ('s \<times> string) list \<Rightarrow> bool" where
  "affordable b F c n s [] \<longleftrightarrow> True"
| "affordable b F c n s ((s', n') # hops) \<longleftrightarrow> cost_within (fadd c (cost_or_zero (no_meta (F n s)))) b \<and>
     affordable b F (fadd c (cost_or_zero (no_meta (F n s)))) n' s' hops"

lemma cost_within_None [simp]: "cost_within c None"
  by (simp add: cost_within_def)

lemma affordable_None [simp]: "affordable None F c n s hops"
  by (induction "None :: f64 option" F c n s hops rule: affordable.induct) simp_all

definition saveable :: "'s env \<Rightarrow> ('s, 'x) graph \<Rightarrow> 's \<Rightarrow> bool" where
  "saveable env g s \<longleftrightarrow> (\<exists>v. e_to_value env s = Inr v) \<and>
     estimated_size env s \<le> max_checkpoint_bytes (g_resource_limits g)"

lemma retry_loop_answers:
  assumes "\<And>ctx x. cx_resumed_input ctx = input \<Longrightarrow> fst (cs_node c ctx (cs_state c) x) = Ready 0 res"
    and "cs_token c = None" and "\<And>msg. res \<noteq> Inl (Retryable msg)"
  shows "\<exists>w'. retry_loop c 0 input w = Some (Inr res, 0, w') \<and> quiet w w'"
proof -
  let ?ctx = "site_context c 0 input (uuid_draws (w_sys w))"
  obtain f x where n: "cs_node c ?ctx (cs_state c) (w_ext w) = (f, x)" by fastforce
  have "cx_resumed_input ?ctx = input" by (simp add: site_context_def)
  with assms(1)[of ?ctx "w_ext w"] n have f: "f = Ready 0 res" by simp
  have "with_timeout nm tm f = f" for nm tm by (cases tm) (simp_all add: f)
  then have "fst (call_once c 0 input w) = f"
    unfolding call_once_parts n by (simp add: with_cancellation_def assms(2))
  then obtain w1 where call: "call_once c 0 input w = (f, w1)" by (metis prod.collapse)
  have "retry_loop c 0 input w = Some (Inr res, 0, w1)"
    using retry_unfold[OF zero_attempts, of c input w] assms(3)
    by (auto simp: call f split: sum.splits GraphError.splits)
  with retry_loop_quiet show ?thesis by blast
qed

lemma answered_execute:
  assumes "answers (j_graph j) (q_current q) (q_input q) (q_state q) res"
    and "\<And>msg. res \<noteq> Inl (Retryable msg)" and "j_token j = None"
  shows "\<exists>t w'. seq_execute j q w = seq_result j (q\<lparr>q_input := None\<rparr>) t 0 res w' \<and> quiet w w'"
proof -
  let ?n = "q_current q"
  obtain callee where callee: "find_node (j_graph j) ?n = Some callee" using assms(1) by (rule answers_callee) auto
  obtain t w1 where c: "read_clock (j_env j) w = (t, w1)" by fastforce
  let ?w1 = "send_started (j_thread_id j) ?n t w1"
  have q1: "quiet w ?w1" using read_clock_quiet[OF c] by simp
  have "\<exists>w2. seq_call j q callee ?w1 = Some (Inr res, 0, w2) \<and> quiet ?w1 w2"
    using assms(1)
  proof (cases rule: answers_callee)
    case (1 node)
    have "\<exists>w2. retry_loop (seq_site j q node) 0 (q_input q) ?w1 = Some (Inr res, 0, w2) \<and> quiet ?w1 w2"
      by (rule retry_loop_answers) (simp_all add: seq_site_def 1(2) assms(2,3))
    with 1(1) callee show ?thesis by (auto simp: seq_call_def)
  next
    case (2 dyn)
    have c: "callee = Inr dyn" using callee 2(1) by simp
    show ?thesis unfolding seq_call_def c sum.case
      by (rule call_dynamic_answers[where dyn = dyn and s = "q_state q" and nodes = "g_nodes (j_graph j)", OF 2(2)])
  qed
  then obtain w2 where "seq_call j q callee ?w1 = Some (Inr res, 0, w2)" and "quiet w w2"
    using quiet_trans[OF q1] by blast
  then have "seq_execute j q w = seq_result j (q\<lparr>q_input := None\<rparr>) t 0 res w2 \<and> quiet w w2"
    by (simp add: seq_execute_def callee c Let_def)
  then show ?thesis by blast
qed

text \<open>With a history limit of 0 the first success never gets past its record.\<close>

lemma plain_execute_stuck:
  assumes "plain_node (j_graph j) S F (q_current q)" and "q_state q \<in> S" and "j_token j = None"
    and "g_budget_eur (j_graph j) = None"
    and "max_execution_records (g_resource_limits (j_graph j)) = 0"
  shows "seq_execute j q w = None"
proof -
  have "answers (j_graph j) (q_current q) (q_input q) (q_state q) (Inr (F (q_current q) (q_state q)))"
    using assms(1,2) by (simp add: plain_node_def)
  from answered_execute[OF this _ assms(3), of w] obtain t w' where
    e: "seq_execute j q w = seq_success j (q\<lparr>q_input := None\<rparr>) t 0 (F (q_current q) (q_state q)) w'"
    by auto
  have nb: "effective_node_budget (j_graph j) (q_current q) = None"
    using assms(1) by (simp add: plain_node_def)
  show ?thesis
    by (simp add: e seq_success_def Let_def seq_node_budget_def nb seq_run_budget_def assms(4)
        seq_report_success_def push_record_def evict_zero assms(5) split: prod.splits)
qed

context journal_runner
begin

lemma success_flow:
  assumes "j_ck j = ck" and "j_token j = None" and "usable (store_at w)"
    and "answers (j_graph j) (q_current q) (q_input q) (q_state q) (Inr out)"
    and "cost_within (fadd (q_running_cost q) (cost_or_zero (no_meta out))) (g_budget_eur (j_graph j))"
    and "effective_node_budget (j_graph j) (q_current q) = None"
    and "0 < max_execution_records (g_resource_limits (j_graph j))"
    and "q_current q \<noteq> end_node"
    and "q_first q \<or> q_current q \<notin> g_interrupt_before (j_graph j)"
    and "estimated_size (j_env j) (no_state out) \<le> max_checkpoint_bytes (g_resource_limits (j_graph j))"
    and "enc (no_state out) = Inr v"
    and "q_step_count q < max_sequential_steps (g_resource_limits (j_graph j))"
  shows "\<exists>fl w' c t. seq_step j q w = Some (Inr fl, w') \<and>
     appended (j_thread_id j) [entry_of (j_args j (no_state out) (resolve_next_node (j_graph j) (q_current q) out)
       CheckpointStatus.Complete None (j_resolved_interrupt j)) v c t] (store_at w) (store_at w') \<and>
     (if q_current q \<in> g_interrupt_after (j_graph j) then fl = Break (no_state out)
      else \<exists>q'. fl = Continue q' \<and> q_state q' = no_state out \<and> q_input q' = None \<and> \<not> q_first q' \<and>
        q_current q' = resolve_next_node (j_graph j) (q_current q) out \<and>
        q_running_cost q' = fadd (q_running_cost q) (cost_or_zero (no_meta out)))"
proof -
  let ?g = "j_graph j" and ?n = "q_current q"
  let ?q = "q\<lparr>q_step_count := Suc (q_step_count q), q_first := False\<rparr>"
  have "\<exists>t w'. seq_execute j ?q w = seq_result j (?q\<lparr>q_input := None\<rparr>) t 0 (Inr out) w' \<and> quiet w w'"
    by (rule answered_execute) (use assms(2,4) in simp_all)
  then obtain t w2 where x: "seq_execute j ?q w = seq_success j (?q\<lparr>q_input := None\<rparr>) t 0 out w2"
    and q2: "quiet w w2" by auto
  obtain ms w3 where e: "elapsed_ms (j_env j) t w2 = (ms, w3)" by fastforce
  note q3 = quiet_trans[OF q2 elapsed_ms_quiet[OF e]]
  have "\<exists>w4. seq_report_success j ?n t ms 0 (no_meta out) w3 = Some (Inr (), w4)"
    using assms(7) by (simp add: seq_report_success_def push_record_def evict_pos)
  then obtain w4 where rep: "seq_report_success j ?n t ms 0 (no_meta out) w3 = Some (Inr (), w4)" by blast
  note q4 = quiet_trans[OF q3 seq_report_success_quiet[OF rep]]
  note us = usable_quiet[OF q4 assms(3)]
  let ?q4 = "?q\<lparr>q_input := None, q_running_cost := fadd (q_running_cost q) (cost_or_zero (no_meta out)),
      q_total_cost := fadd (q_running_cost q) (cost_or_zero (no_meta out))\<rparr>"
  have succ: "seq_success j (?q\<lparr>q_input := None\<rparr>) t 0 out w2 = seq_advance j ?q4 out w4"
    using assms(5) by (simp add: seq_success_def e rep seq_node_budget_def assms(6) seq_run_budget_def cost_within_def
        Let_def split: option.splits)
  let ?entry = "entry_of (j_args j (no_state out) (resolve_next_node ?g ?n out) CheckpointStatus.Complete None
      (j_resolved_interrupt j)) v"
  obtain c t5 w5 where sv: "j_save j (no_state out) (resolve_next_node ?g ?n out) CheckpointStatus.Complete None
      (j_resolved_interrupt j) (q_expected_head q) w4 = Some (Inr c, w5)"
    and a: "appended (j_thread_id j) [?entry c t5] (store_at w) (store_at w5)"
    using j_save_ok[OF assms(1) us assms(11,10)] unfolding appended_quiet(2)[OF q4] by fastforce
  have adv: "\<exists>fl w' c t. seq_advance j ?q4 out w4 = Some (Inr fl, w') \<and>
     appended (j_thread_id j) [?entry c t] (store_at w) (store_at w') \<and>
     (if ?n \<in> g_interrupt_after ?g then fl = Break (no_state out)
      else \<exists>q'. fl = Continue q' \<and> q_state q' = no_state out \<and> q_input q' = None \<and> \<not> q_first q' \<and>
        q_current q' = resolve_next_node ?g ?n out \<and>
        q_running_cost q' = fadd (q_running_cost q) (cost_or_zero (no_meta out)))"
    using a by (auto simp: seq_advance_def sv Let_def)
  have "seq_step j q w = seq_advance j ?q4 out w4"
    using assms(8,9,12) x succ by (auto simp: seq_step_def Let_def)
  with adv show ?thesis by simp
qed

lemma success_step:
  assumes "j_ck j = ck" and "j_token j = None" and "usable (store_at w)"
    and "answers (j_graph j) (q_current q) (q_input q) (q_state q) (Inr out)"
    and "cost_within (fadd (q_running_cost q) (cost_or_zero (no_meta out))) (g_budget_eur (j_graph j))"
    and "effective_node_budget (j_graph j) (q_current q) = None"
    and "0 < max_execution_records (g_resource_limits (j_graph j))"
    and "q_current q \<notin> g_interrupt_after (j_graph j)" and "q_current q \<noteq> end_node"
    and "q_first q \<or> q_current q \<notin> g_interrupt_before (j_graph j)"
    and "estimated_size (j_env j) (no_state out) \<le> max_checkpoint_bytes (g_resource_limits (j_graph j))"
    and "enc (no_state out) = Inr v"
    and "q_step_count q < max_sequential_steps (g_resource_limits (j_graph j))"
  shows "\<exists>q' w' e. seq_step j q w = Some (Inr (Continue q'), w') \<and> q_state q' = no_state out \<and>
     q_input q' = None \<and> \<not> q_first q' \<and>
     q_current q' = resolve_next_node (j_graph j) (q_current q) out \<and>
     q_running_cost q' = fadd (q_running_cost q) (cost_or_zero (no_meta out)) \<and>
     appended (j_thread_id j) [e] (store_at w) (store_at w') \<and> complete_entry j e \<and>
     enc (no_state out) = Inr (je_state e) \<and>
     je_next_node e = resolve_next_node (j_graph j) (q_current q) out"
proof -
  have c: "complete_entry j (entry_of (j_args j (no_state out) n CheckpointStatus.Complete None
      (j_resolved_interrupt j)) v c t)" for n c t by (simp add: complete_entry_def)
  from success_flow[OF assms(1-7,9-13)] assms(8) obtain q' w' cp t
    where "seq_step j q w = Some (Inr (Continue q'), w')" "q_state q' = no_state out" "q_input q' = None"
      "\<not> q_first q'" "q_current q' = resolve_next_node (j_graph j) (q_current q) out"
      "q_running_cost q' = fadd (q_running_cost q) (cost_or_zero (no_meta out))"
    and "appended (j_thread_id j) [entry_of (j_args j (no_state out) (resolve_next_node (j_graph j) (q_current q) out)
       CheckpointStatus.Complete None (j_resolved_interrupt j)) v cp t] (store_at w) (store_at w')" by fastforce
  with c assms(12) show ?thesis
    by (intro exI[of _ q'] exI[of _ w'] exI conjI) (assumption | simp)+
qed

lemma yield_step:
  assumes "j_ck j = ck" and "j_token j = None" and "usable (store_at w)"
    and "answers (j_graph j) (q_current q) (q_input q) (q_state q) (Inl (Yield request))"
    and "q_current q \<noteq> end_node"
    and "q_first q \<or> q_current q \<notin> g_interrupt_before (j_graph j)"
    and "estimated_size (j_env j) (q_state q) \<le> max_checkpoint_bytes (g_resource_limits (j_graph j))"
    and "enc (q_state q) = Inr v"
    and "q_step_count q < max_sequential_steps (g_resource_limits (j_graph j))"
  shows "\<exists>c t w'. seq_step j q w = Some (Inr (Break (q_state q)), w') \<and>
     appended (j_thread_id j) [entry_of (j_args j (q_state q) (q_current q) CheckpointStatus.Yielded
       (Some request) None) v c t] (store_at w) (store_at w')"
proof -
  let ?q = "q\<lparr>q_step_count := Suc (q_step_count q), q_first := False\<rparr>"
  have "\<exists>t w'. seq_execute j ?q w = seq_result j (?q\<lparr>q_input := None\<rparr>) t 0 (Inl (Yield request)) w' \<and> quiet w w'"
    by (rule answered_execute) (use assms(2,4) in simp_all)
  then obtain t w2 where x: "seq_execute j ?q w = seq_yield j (?q\<lparr>q_input := None\<rparr>) t 0 request w2"
    and q2: "quiet w w2" by auto
  obtain ms w3 where e: "elapsed_ms (j_env j) t w2 = (ms, w3)" by fastforce
  let ?w = "j_finished j (q_current q) ms ''yielded'' None
      (j_span j (q_current q) 0 ms None SpanStatus.Cancelled (Some (yr_message request)) node_meta_default w3)"
  have q: "quiet w ?w" using quiet_trans[OF q2 elapsed_ms_quiet[OF e]] by simp
  note us = usable_quiet[OF q assms(3)]
  from j_save_ok[OF assms(1) us assms(8,7), of "q_current q" CheckpointStatus.Yielded "Some request" None
      "q_expected_head q"]
  obtain c t0 w' where "j_save j (q_state q) (q_current q) CheckpointStatus.Yielded (Some request) None
      (q_expected_head q) ?w = Some (Inr c, w')"
    and a: "appended (j_thread_id j) [entry_of (j_args j (q_state q) (q_current q) CheckpointStatus.Yielded
       (Some request) None) v c t0] (store_at w) (store_at w')" unfolding appended_quiet(2)[OF q] by fastforce
  then have "seq_step j q w = Some (Inr (Break (q_state q)), w')"
    using assms(5,6,9) x by (auto simp: seq_step_def Let_def seq_yield_def e)
  with a show ?thesis by blast
qed

lemma plain_step:
  assumes "j_ck j = ck" and "j_token j = None" and "usable (store_at w)"
    and "plain_graph (j_env j) (j_graph j) N S F" and "\<forall>n. \<forall>s \<in> S n. \<exists>v. enc s = Inr v"
    and "q_current q \<in> N" and "q_state q \<in> S (q_current q)"
    and "q_step_count q < max_sequential_steps (g_resource_limits (j_graph j))"
  shows "\<exists>q' w' e. seq_step j q w = Some (Inr (Continue q'), w') \<and>
     (q_state q', q_current q') = plain_hop (j_graph j) F (q_current q) (q_state q) \<and>
     appended (j_thread_id j) [e] (store_at w) (store_at w') \<and> complete_entry j e \<and>
     enc (q_state q') = Inr (je_state e) \<and> je_next_node e = q_current q'"
proof -
  let ?out = "F (q_current q) (q_state q)"
  let ?next = "resolve_next_node (j_graph j) (q_current q) ?out"
  from assms(4,6) have pn: "plain_node (j_graph j) (S (q_current q)) F (q_current q)"
    and ne: "q_current q \<noteq> end_node" by (auto simp: plain_graph_def)
  have inS: "no_state ?out \<in> S ?next"
    using plain_graph_hop(2)[OF assms(4,6,7)] by (simp add: plain_hop_def)
  have ans: "answers (j_graph j) (q_current q) (q_input q) (q_state q) (Inr ?out)"
    using pn assms(7) by (simp add: plain_node_def)
  from assms(5) inS obtain v where v: "enc (no_state ?out) = Inr v" by blast
  have "\<exists>q' w' e. seq_step j q w = Some (Inr (Continue q'), w') \<and> q_state q' = no_state ?out \<and>
     q_input q' = None \<and> \<not> q_first q' \<and> q_current q' = resolve_next_node (j_graph j) (q_current q) ?out \<and>
     q_running_cost q' = fadd (q_running_cost q) (cost_or_zero (no_meta ?out)) \<and>
     appended (j_thread_id j) [e] (store_at w) (store_at w') \<and> complete_entry j e \<and>
     enc (no_state ?out) = Inr (je_state e) \<and>
     je_next_node e = resolve_next_node (j_graph j) (q_current q) ?out"
    by (rule success_step[OF assms(1-3) ans _ _ _ _ ne _ _ v assms(8)])
       (use assms(4) pn inS in \<open>auto simp: plain_graph_def plain_node_def\<close>)
  then show ?thesis unfolding plain_hop_def by (metis (no_types, lifting))
qed

text \<open>The entries a run appends are the checkpoints of the abstract run.\<close>

definition logs :: "('s, 'x, 'st) job \<Rightarrow> 'v journal_entry list \<Rightarrow> ('s \<times> string) list \<Rightarrow> bool" where
  "logs j es cs \<longleftrightarrow> list_all2 (\<lambda>e (s, n). complete_entry j e \<and> enc s = Inr (je_state e) \<and>
     je_next_node e = n) es cs"

lemma logs_Nil [simp]: "logs j [] []"
  by (simp add: logs_def)

lemma logs_Cons [simp]: "logs j (e # es) ((s, n) # cs) \<longleftrightarrow> complete_entry j e \<and>
     enc s = Inr (je_state e) \<and> je_next_node e = n \<and> logs j es cs"
  by (auto simp: logs_def)

lemma plain_loop:
  assumes "j_ck j = ck" and "j_token j = None" and "usable (store_at w)"
    and "plain_graph (j_env j) (j_graph j) N S F" and "\<forall>n. \<forall>s \<in> S n. \<exists>v. enc s = Inr v"
    and "q_current q \<in> insert end_node N" and "q_state q \<in> S (q_current q)"
    and "q_step_count q \<le> max_sequential_steps (g_resource_limits (j_graph j))"
  shows "\<exists>w' es. seq_loop j q w = Some (ref_result (max_sequential_steps (g_resource_limits (j_graph j)))
        (fst (ref_run (plain_hop (j_graph j) F)
           (max_sequential_steps (g_resource_limits (j_graph j)) - q_step_count q) (q_current q) (q_state q))), w') \<and>
     appended (j_thread_id j) es (store_at w) (store_at w') \<and>
     logs j es (snd (ref_run (plain_hop (j_graph j) F)
           (max_sequential_steps (g_resource_limits (j_graph j)) - q_step_count q) (q_current q) (q_state q)))"
  using assms(3,6,7,8)
proof (induction "max_sequential_steps (g_resource_limits (j_graph j)) - q_step_count q"
    arbitrary: q w)
  case 0
  let ?L = "max_sequential_steps (g_resource_limits (j_graph j))"
  from 0(1,5) have l: "q_step_count q = ?L" by simp
  then have "seq_loop j q w = Some (Inl (StepLimitExceeded ?L ?L), w)"
    by (intro seq_loop_step(2)) (simp add: seq_step_def Let_def)
  with 0(2) show ?case
    by (intro exI[of _ w] exI[of _ "[]"]) (simp add: l ref_result_def logs_def)
next
  case (Suc k)
  let ?L = "max_sequential_steps (g_resource_limits (j_graph j))"
  let ?hop = "plain_hop (j_graph j) F"
  from Suc(2) have fuel: "?L - q_step_count q = Suc k" by simp
  then have lt: "q_step_count q < ?L" by simp
  show ?case
  proof (cases "q_current q = end_node")
    case True
    let ?w = "send_graph_finished (j_thread_id j) (q_running_cost q)
        (observe (OGraphComplete (j_thread_id j) (q_running_cost q) 0) w)"
    show ?thesis
      using seq_loop_end[OF True lt, of w] Suc(3) True by (intro exI[of _ ?w] exI[of _ "[]"]) (simp add: fuel ref_result_def logs_def)
  next
    case False
    with Suc(4) have cur: "q_current q \<in> N" by simp
    from plain_step[OF assms(1,2) Suc(3) assms(4,5) cur Suc(5) lt] obtain q' w1 e
      where s: "seq_step j q w = Some (Inr (Continue q'), w1)"
      and hop: "(q_state q', q_current q') = ?hop (q_current q) (q_state q)"
      and a: "appended (j_thread_id j) [e] (store_at w) (store_at w1)"
      and e: "complete_entry j e" "enc (q_state q') = Inr (je_state e)" "je_next_node e = q_current q'" by blast
    have cnt: "q_step_count q' = Suc (q_step_count q)" using seq_step_count[OF s] by simp
    note nxt = plain_graph_hop(1)[OF assms(4) cur Suc(5) hop]
    note nxs = plain_graph_hop(2)[OF assms(4) cur Suc(5) hop]
    have "k = ?L - q_step_count q'" "q_step_count q' \<le> ?L" using cnt fuel lt by simp_all
    from Suc(1)[OF this(1) appended_usable[OF a] nxt nxs this(2)] obtain w' fs
      where rest: "seq_loop j q' w1 = Some (ref_result ?L (fst (ref_run ?hop (?L - q_step_count q')
          (q_current q') (q_state q'))), w')"
      and fs: "appended (j_thread_id j) fs (store_at w1) (store_at w')"
        "logs j fs (snd (ref_run ?hop (?L - q_step_count q') (q_current q') (q_state q')))" by blast
    have ref: "ref_run ?hop (?L - q_step_count q) (q_current q) (q_state q) =
        (let (r, cs) = ref_run ?hop (?L - q_step_count q') (q_current q') (q_state q')
         in (r, (q_state q', q_current q') # cs))"
    proof -
      have "?L - q_step_count q' = k" using cnt fuel by simp
      with False hop[symmetric] fuel show ?thesis by (simp split: prod.splits)
    qed
    with seq_loop_step(4)[OF s] rest fs appended_trans[OF a fs(1)] e show ?thesis
      by (intro exI[of _ w'] exI[of _ "[e] @ fs"]) (auto simp: ref Let_def split: prod.splits)
  qed
qed

lemma plain_run:
  assumes "j_ck j = ck" and "j_token j = None" and "usable (store_at w)"
    and "plain_graph (j_env j) (j_graph j) N S F" and "\<forall>n. \<forall>s \<in> S n. \<exists>v. enc s = Inr v"
    and "start \<in> insert end_node N" and "s \<in> S start"
    and "ref = ref_run (plain_hop (j_graph j) F)
       (max_sequential_steps (g_resource_limits (j_graph j))) start s"
  shows "\<exists>w' es. run_inner j s start None w =
       Some (ref_result (max_sequential_steps (g_resource_limits (j_graph j))) (fst ref), w') \<and>
     appended (j_thread_id j) es (store_at w) (store_at w') \<and> logs j es (snd ref)"
proof -
  have "run_inner j s start None w = seq_loop j (seq_start s start None None) (w\<lparr>w_last_head := Some None\<rparr>)"
    using assms(1) by (simp add: run_inner_def head_default default_current_head_def on_store_def)
  with plain_loop[of j "w\<lparr>w_last_head := Some None\<rparr>" N S F "seq_start s start None None",
      OF assms(1,2) _ assms(4,5)] assms(3,6,7,8)
  show ?thesis by (simp add: seq_start_def)
qed

text \<open>A run that follows a path reaches its end.\<close>

lemma passes_loop:
  assumes "j_ck j = ck" and "j_token j = None"
    and "0 < max_execution_records (g_resource_limits (j_graph j))"
    and "\<And>s. ok s \<Longrightarrow> (\<exists>v. enc s = Inr v) \<and>
       estimated_size (j_env j) s \<le> max_checkpoint_bytes (g_resource_limits (j_graph j))"
  shows "usable (store_at w) \<Longrightarrow> passes ok (j_graph j) F (q_current q) (q_state q) hops \<Longrightarrow>
     affordable (g_budget_eur (j_graph j)) F (q_running_cost q) (q_current q) (q_state q) hops \<Longrightarrow>
     q_input q = None \<Longrightarrow>
     q_step_count q + length hops \<le> max_sequential_steps (g_resource_limits (j_graph j)) \<Longrightarrow>
     \<exists>q' w' es. seq_loop j q w = seq_loop j q' w' \<and>
       (q_state q', q_current q') = last ((q_state q, q_current q) # hops) \<and> q_input q' = None \<and>
       (q_first q' \<longrightarrow> hops = [] \<and> q' = q) \<and>
       q_step_count q' = q_step_count q + length hops \<and>
       q_running_cost q' = path_cost F (q_running_cost q) (q_current q) (q_state q) hops \<and>
       appended (j_thread_id j) es (store_at w) (store_at w') \<and> logs j es hops"
proof (induction hops arbitrary: q w)
  case Nil
  then show ?case by (intro exI[of _ q] exI[of _ w] exI[of _ "[]"]) simp
next
  case (Cons h hops)
  obtain s' n' where h: "h = (s', n')" by fastforce
  let ?out = "F (q_current q) (q_state q)"
  from Cons.prems(2) have n: "q_current q \<noteq> end_node" "plain_node (j_graph j) {q_state q} F (q_current q)"
    and hop: "no_state ?out = s'" "resolve_next_node (j_graph j) (q_current q) ?out = n'"
    and ok: "ok s'" and rest: "passes ok (j_graph j) F n' s' hops"
    by (auto simp: h plain_hop_def)
  from assms(4)[OF ok] obtain v where v: "enc (no_state ?out) = Inr v"
    and size: "estimated_size (j_env j) (no_state ?out) \<le> max_checkpoint_bytes (g_resource_limits (j_graph j))"
    by (auto simp: hop)
  have lt: "q_step_count q < max_sequential_steps (g_resource_limits (j_graph j))" using Cons.prems(5) by simp
  have "answers (j_graph j) (q_current q) (q_input q) (q_state q) (Inr ?out)"
    using n(2) by (simp add: plain_node_def)
  from success_step[OF assms(1,2) Cons.prems(1) this _ _ assms(3) _ n(1) _ size v lt] n(2) Cons.prems(3)
  obtain q1 w1 e
    where st: "seq_step j q w = Some (Inr (Continue q1), w1)" and q1: "q_state q1 = s'" "q_input q1 = None"
      "\<not> q_first q1" "q_current q1 = n'"
        "q_running_cost q1 = fadd (q_running_cost q) (cost_or_zero (no_meta ?out))"
    and a: "appended (j_thread_id j) [e] (store_at w) (store_at w1)"
    and e: "complete_entry j e" "enc s' = Inr (je_state e)" "je_next_node e = n'"
    by (auto simp: plain_node_def hop h)
  have cnt: "q_step_count q1 = Suc (q_step_count q)" using seq_step_count[OF st] by simp
  have "passes ok (j_graph j) F (q_current q1) (q_state q1) hops"
    "affordable (g_budget_eur (j_graph j)) F (q_running_cost q1) (q_current q1) (q_state q1) hops"
    using rest Cons.prems(3) by (simp_all add: q1 h)
  from Cons.IH[OF appended_usable[OF a] this q1(2)] Cons.prems(5) cnt obtain q' w' es
    where l: "seq_loop j q1 w1 = seq_loop j q' w'" "(q_state q', q_current q') = last ((s', n') # hops)"
      "q_input q' = None" "q_first q' \<longrightarrow> q' = q1" "q_step_count q' = q_step_count q + length (h # hops)"
      "q_running_cost q' = path_cost F (q_running_cost q) (q_current q) (q_state q) (h # hops)"
    and es: "appended (j_thread_id j) es (store_at w1) (store_at w')" "logs j es hops"
    by (auto simp: q1 h)
  have "\<not> q_first q'" using l(4) q1(3) by auto
  moreover have "seq_loop j q w = seq_loop j q' w'" using seq_loop_step(4)[OF st] l(1) by simp
  ultimately show ?case
    using appended_trans[OF a es(1)] es(2) e l
    by (intro exI[of _ q'] exI[of _ w'] exI[of _ "[e] @ es"]) (simp add: h)
qed

text \<open>A run that starts at a node that is only known to answer the resume input it is given.\<close>

lemma gate_run:
  assumes "j_ck j = ck" and "j_token j = None" and "usable (store_at w)"
    and "plain_graph (j_env j) (j_graph j) N S F" and "\<forall>n. \<forall>s \<in> S n. \<exists>v. enc s = Inr v"
    and "answers (j_graph j) gate input s (Inr out)"
    and "effective_node_budget (j_graph j) gate = None" and "gate \<notin> g_interrupt_after (j_graph j)"
    and "gate \<noteq> end_node" and "no_state out \<in> S (resolve_next_node (j_graph j) gate out)"
    and "resolve_next_node (j_graph j) gate out \<in> insert end_node N"
    and "max_sequential_steps (g_resource_limits (j_graph j)) = Suc fuel"
    and "ref = ref_run (plain_hop (j_graph j) F) fuel (resolve_next_node (j_graph j) gate out) (no_state out)"
  shows "\<exists>w' es. run_inner j s gate input w = Some (ref_result (Suc fuel) (fst ref), w') \<and>
     appended (j_thread_id j) es (store_at w) (store_at w') \<and>
     logs j es ((no_state out, resolve_next_node (j_graph j) gate out) # snd ref)"
proof -
  let ?q = "seq_start s gate input None" and ?w = "w\<lparr>w_last_head := Some None\<rparr>"
  have us: "usable (store_at ?w)" using assms(3) by simp
  from assms(5) assms(10) obtain v where v: "enc (no_state out) = Inr v" by blast
  let ?n = "resolve_next_node (j_graph j) gate out"
  have "\<exists>q' w' e. seq_step j ?q ?w = Some (Inr (Continue q'), w') \<and> q_state q' = no_state out \<and>
     q_input q' = None \<and> \<not> q_first q' \<and> q_current q' = resolve_next_node (j_graph j) (q_current ?q) out \<and>
     q_running_cost q' = fadd (q_running_cost ?q) (cost_or_zero (no_meta out)) \<and>
     appended (j_thread_id j) [e] (store_at ?w) (store_at w') \<and> complete_entry j e \<and>
     enc (no_state out) = Inr (je_state e) \<and> je_next_node e = resolve_next_node (j_graph j) (q_current ?q) out"
    by (rule success_step[OF assms(1,2) us _ _ _ _ _ _ _ _ v])
       (use assms(4,6-12) in \<open>auto simp: seq_start_def plain_graph_def\<close>)
  then obtain q' w1 e where st: "seq_step j ?q ?w = Some (Inr (Continue q'), w1)"
    and q': "q_state q' = no_state out" "q_current q' = ?n"
    and a: "appended (j_thread_id j) [e] (store_at w) (store_at w1)"
    and e: "complete_entry j e" "enc (q_state q') = Inr (je_state e)" "je_next_node e = q_current q'"
    by (auto simp: seq_start_def)
  have cnt: "q_step_count q' = 1" using seq_step_count[OF st] by (simp add: seq_start_def)
  have "q_current q' \<in> insert end_node N" "q_state q' \<in> S (q_current q')"
    "q_step_count q' \<le> max_sequential_steps (g_resource_limits (j_graph j))"
    using q' assms(10-12) cnt by simp_all
  from plain_loop[OF assms(1,2) appended_usable[OF a] assms(4,5) this] obtain w' fs
    where l: "seq_loop j q' w1 = Some (ref_result (Suc fuel) (fst ref), w')"
    and fs: "appended (j_thread_id j) fs (store_at w1) (store_at w')" "logs j fs (snd ref)"
    using assms(12,13) cnt q' by auto
  have "run_inner j s gate input w = seq_loop j ?q ?w"
    using assms(1) by (simp add: run_inner_def head_default default_current_head_def on_store_def)
  also have "\<dots> = seq_loop j q' w1" by (rule seq_loop_step(4)[OF st])
  finally have r: "run_inner j s gate input w = Some (ref_result (Suc fuel) (fst ref), w')"
    by (simp add: l)
  have "logs j ([e] @ fs) ((no_state out, resolve_next_node (j_graph j) gate out) # snd ref)"
    using fs(2) e q' by simp
  with r appended_trans[OF a fs(1)] show ?thesis by blast
qed

end

lemma ref_run_suffix:
  "fst (ref_run hop fuel n s) = Some final \<Longrightarrow> i < length (snd (ref_run hop fuel n s)) \<Longrightarrow>
   snd (ref_run hop fuel n s) ! i = (s', n') \<Longrightarrow>
     ref_run hop (fuel - Suc i) n' s' = (Some final, drop (Suc i) (snd (ref_run hop fuel n s)))"
proof (induction hop fuel n s arbitrary: i rule: ref_run.induct)
  case (2 hop fuel n s)
  show ?case
  proof (cases "n = end_node")
    case False
    obtain s1 n1 where h: "hop n s = (s1, n1)" by fastforce
    obtain r cs where r: "ref_run hop fuel n1 s1 = (r, cs)" by fastforce
    from 2 False r show ?thesis by (cases i) (auto simp: h)
  qed (use 2 in simp)
qed simp

lemma ref_run_more:
  "ref_run hop fuel n s = (Some final, cs) \<Longrightarrow> fuel \<le> fuel' \<Longrightarrow> ref_run hop fuel' n s = (Some final, cs)"
proof (induction hop fuel n s arbitrary: fuel' cs rule: ref_run.induct)
  case (2 hop fuel n s)
  then obtain k where k: "fuel' = Suc k" "fuel \<le> k" by (cases fuel') auto
  show ?case
  proof (cases "n = end_node")
    case False
    obtain s1 n1 where h: "hop n s = (s1, n1)" by fastforce
    obtain r cs1 where r: "ref_run hop fuel n1 s1 = (r, cs1)" by fastforce
    from 2(2) False have "r = Some final" by (simp add: h r)
    with 2(1)[OF False h[symmetric]] r k 2(2) False show ?thesis by (simp add: h)
  qed (use 2 k in simp)
qed simp

lemma ref_run_closed:
  assumes "plain_graph env g N S F"
  shows "n \<in> insert end_node N \<Longrightarrow> s \<in> S n \<Longrightarrow> (s', n') \<in> set (snd (ref_run (plain_hop g F) fuel n s)) \<Longrightarrow>
     s' \<in> S n' \<and> n' \<in> insert end_node N"
proof (induction "plain_hop g F" fuel n s rule: ref_run.induct)
  case (2 fuel n s)
  show ?case
  proof (cases "n = end_node")
    case False
    obtain s1 n1 where h: "plain_hop g F n s = (s1, n1)" by fastforce
    from False 2(2) have "n \<in> N" by simp
    from plain_graph_hop[OF assms this 2(3) h[symmetric]] have "s1 \<in> S n1" "n1 \<in> insert end_node N" by simp_all
    with 2(1)[OF False h[symmetric]] 2(4) False show ?thesis
      by (auto simp: h split: prod.splits)
  qed (use 2 in simp)
qed simp

text \<open>A chain of exactly as many nodes as passes: the pass for the end node is missing.\<close>

lemma ref_run_exact:
  "ref_run hop (Suc fuel) n s = (Some final, hops) \<Longrightarrow> length hops = fuel \<Longrightarrow>
     ref_run hop fuel n s = (None, hops) \<and> (hops \<noteq> [] \<longrightarrow> last hops = (final, end_node))"
proof (induction fuel arbitrary: n s hops)
  case (Suc fuel)
  from Suc.prems have n: "n \<noteq> end_node" by auto
  obtain s1 n1 where h: "hop n s = (s1, n1)" by fastforce
  obtain r cs where r: "ref_run hop (Suc fuel) n1 s1 = (r, cs)" by fastforce
  from Suc.prems n h r have p: "r = Some final" "hops = (s1, n1) # cs" "length cs = fuel"
    by auto
  have "n1 = end_node \<and> s1 = final" if "cs = []"
    using r p that by (auto split: if_splits prod.splits)
  with Suc.IH[OF r[unfolded p(1)] p(3)] p n h show ?case by (auto simp del: ref_run.simps(2) simp: ref_run.simps(2)[of hop fuel n s])
qed simp

lemma ref_run_last:
  "ref_run hop fuel n s = (Some final, hops) \<Longrightarrow> last ((s, n) # hops) = (final, end_node)"
proof (induction hop fuel n s arbitrary: hops rule: ref_run.induct)
  case (2 hop fuel n s)
  show ?case
  proof (cases "n = end_node")
    case False
    obtain s1 n1 where h: "hop n s = (s1, n1)" by fastforce
    obtain r cs where r: "ref_run hop fuel n1 s1 = (r, cs)" by fastforce
    from 2(2) False h r have "r = Some final" "hops = (s1, n1) # cs" by auto
    with 2(1)[OF False h[symmetric]] r show ?thesis by simp
  qed (use 2 in simp)
qed simp

lemma ref_run_final:
  assumes "plain_graph env g N S F" and "n \<in> insert end_node N" and "s \<in> S n"
    and "ref_run (plain_hop g F) fuel n s = (Some final, hops)"
  shows "final \<in> S end_node"
proof (cases "hops = []")
  case True
  with ref_run_last[OF assms(4)] assms(3) show ?thesis by simp
next
  case False
  with ref_run_last[OF assms(4)] have "(final, end_node) \<in> set hops" by (metis last_ConsR last_in_set)
  with ref_run_closed[OF assms(1,2,3), of final end_node fuel] assms(4) show ?thesis by simp
qed

end
