(* ===== verification/Run_Properties.thy ===== *)
theory Run_Properties
  imports Seq_Spec
begin

text \<open>
  The properties of sequential runs and of crash recovery over the in-memory checkpointer.
\<close>

section \<open>A sample graph\<close>

text \<open>
  Two nodes, each adding one to a state below 100 and counting its calls in the outside world.
\<close>

definition sample_output :: "string \<Rightarrow> nat \<Rightarrow> nat NodeOutput" where
  "sample_output n s = node_output_bare (min 100 (Suc s))"

definition sample_node :: "string \<Rightarrow> (nat, nat) node" where
  "sample_node n = (\<lambda>ctx s x. (Ready 0 (Inr (sample_output n s)), Suc x))"

definition sample_graph :: "nat \<Rightarrow> (nat, nat) graph" where
  "sample_graph limit = set_resource_limits (with_max_sequential_steps limit resource_limits_default)
     (add_edge ''a'' ''b'' (add_node ''a'' (sample_node ''a'') (add_node ''b'' (sample_node ''b'') graph_new)))"

lemma length_show_nat: "length (show_nat n) \<le> Suc n"
proof (induction n rule: show_nat.induct)
  case (1 n)
  show ?case
  proof (cases "n < 10")
    case False
    then have "n div 10 < n" by simp
    with 1[OF False] False show ?thesis by (subst show_nat.simps) simp
  qed (subst show_nat.simps, simp)
qed

lemma sample_sizes: "s \<le> 100 \<Longrightarrow> estimated_size sample_env s \<le> 10 * 1024 * 1024"
  using length_show_nat[of s] by (simp add: estimated_size_def sample_env_def)

lemmas sample_graph_simps = sample_graph_def set_resource_limits_def with_max_sequential_steps_def
  resource_limits_default_def add_edge_def add_node_def graph_new_def sample_node_def sample_output_def
  end_node_def effective_node_budget_def plain_hop_def resolve_next_node_def edge_target_def
  node_output_bare_def

lemma sample_graph_plain:
  "plain_graph sample_env (sample_graph limit) {''a'', ''b''} (\<lambda>_. {..100}) sample_output"
  using sample_sizes
  by (auto simp: plain_graph_def plain_node_def answers_def sample_graph_simps)

lemma sample_hop:
  "plain_hop (sample_graph limit) sample_output ''a'' s = (min 100 (Suc s), ''b'')"
  "plain_hop (sample_graph limit) sample_output ''b'' s = (min 100 (Suc s), end_node)"
  by (simp_all add: plain_hop_def resolve_next_node_def edge_target_def sample_graph_def
      set_resource_limits_def add_edge_def add_node_def graph_new_def sample_output_def
      node_output_bare_def)

lemma sample_limit [simp]:
  "max_sequential_steps (g_resource_limits (sample_graph limit)) = limit"
  by (simp add: sample_graph_def set_resource_limits_def with_max_sequential_steps_def)

lemma sample_enc: "\<exists>v. e_to_value sample_env s = Inr v"
  by (simp add: sample_env_def)

lemma sample_encs: "\<forall>n. \<forall>s \<in> S n. \<exists>v. e_to_value sample_env s = Inr v"
  by (simp add: sample_enc)

lemma sample_ref:
  "ref_run (plain_hop (sample_graph limit) sample_output) 3 ''a'' 0 =
     (Some 2, [(1, ''b''), (2, end_node)])"
  by (simp add: numeral_3_eq_3 sample_hop end_node_def)

section \<open>Runs\<close>

definition run_job :: "'s env \<Rightarrow> ('s, 'x) graph \<Rightarrow> string \<Rightarrow> cancel_token option \<Rightarrow> string option \<Rightarrow>
    ('s, 'x, mem_store) job" where
  "run_job env g thread_id token resolved = \<lparr>j_env = env, j_graph = g, j_ck = memory_checkpointer env,
     j_thread_id = thread_id, j_token = token, j_resolved_interrupt = resolved\<rparr>"

lemma run_eq:
  "run env g (memory_checkpointer env) t s start token w =
     run_inner (run_job env g t token None) s start None (w\<lparr>w_last_head := None\<rparr>)"
  by (simp add: run_def run_job_def)

lemma run_inner_mem:
  "run_inner (run_job env g t token resolved) s start input w =
     seq_loop (run_job env g t token resolved) (seq_start s start input None)
       (w\<lparr>w_last_head := Some None\<rparr>)"
  by (simp add: run_inner_def run_job_def memory_checkpointer_def default_current_head_def on_store_def)

text \<open>C2: whatever its nodes do, a run that returns has only appended checkpoints to its own thread: all
  but the last are Complete, the last one may be Interrupted or Yielded instead but only when the run
  returns Ok, none is Running or claimed, and the state a run returns is the one in its last checkpoint.\<close>

theorem run_checkpoints:
  assumes "run env g (memory_checkpointer env) t s start token w = Some (r, w')"
    and "\<not> ms_poisoned (w_store w)"
  shows "\<exists>cs. mem_list (w_store w') = (mem_list (w_store w))(t := mem_list (w_store w) t @ cs) \<and>
     (\<forall>c \<in> set cs. mc_claimed_interrupt c = None) \<and>
     (\<forall>c \<in> set (butlast cs). mc_status c = CheckpointStatus.Complete) \<and>
     (case r of
        Inl e \<Rightarrow> (\<forall>c \<in> set cs. mc_status c = CheckpointStatus.Complete)
      | Inr s' \<Rightarrow> (if cs = [] then s' = s
          else e_to_value env s' = Inr (mc_state (last cs)) \<and>
            mc_status (last cs) \<in> {CheckpointStatus.Complete, CheckpointStatus.Interrupted,
              CheckpointStatus.Yielded}))"
proof -
  let ?j = "run_job env g t token None"
  have j: "j_ck ?j = memory_checkpointer env" "j_thread_id ?j = t" by (simp_all add: run_job_def)
  have u: "mem_usable (store_at (w\<lparr>w_last_head := None\<rparr>))" using assms(2) by (simp add: mem_usable_def)
  from mem_run.run_inner_ok[OF j(1) mem_steady u assms(1)[unfolded run_eq]] obtain es
    where a: "mem_run.appended t es (store_at w) (store_at w')"
    and es: "mem_run.run_entries env ?j s r es" by (auto simp: j)
  from mem_appended(2)[OF a] obtain cs where cs: "es = map mem_entry cs"
    and l: "mem_list (w_store w') = (mem_list (w_store w))(t := mem_list (w_store w) t @ cs)" by auto
  have enc: "mem_enc env s' = Inr v \<longleftrightarrow> e_to_value env s' = Inr v" for s' v
    by (simp add: mem_enc_def split: sum.splits)
  from es have "(\<forall>c \<in> set (butlast cs). mc_status c = CheckpointStatus.Complete \<and>
        mc_claimed_interrupt c = None) \<and>
     (case r of Inl e \<Rightarrow> \<forall>c \<in> set cs. mc_status c = CheckpointStatus.Complete \<and> mc_claimed_interrupt c = None
      | Inr s' \<Rightarrow> if cs = [] then s' = s else mc_claimed_interrupt (last cs) = None \<and>
         e_to_value env s' = Inr (mc_state (last cs)) \<and> mc_status (last cs) \<in>
         {CheckpointStatus.Complete, CheckpointStatus.Interrupted, CheckpointStatus.Yielded})"
    unfolding mem_run.run_entries_def cs
    by (auto simp: mem_run.complete_entry_def mem_run.break_entry_def enc last_map map_butlast[symmetric]
        split: sum.splits)
  moreover have "set cs = set (butlast cs) \<union> (if cs = [] then {} else {last cs})"
    by (cases cs rule: rev_cases) auto
  ultimately show ?thesis
    using l by (intro exI[of _ cs]) (auto split: sum.splits if_splits)
qed

definition checkpoint_of :: "'s env \<Rightarrow> MemoryCheckpoint \<Rightarrow> 's \<times> string \<Rightarrow> bool" where
  "checkpoint_of env c h \<longleftrightarrow> mc_status c = CheckpointStatus.Complete \<and>
     e_to_value env (fst h) = Inr (mc_state c) \<and> mc_next_node c = snd h"

lemma mem_enc_iff [simp]: "mem_enc env s = Inr v \<longleftrightarrow> e_to_value env s = Inr v"
  by (simp add: mem_enc_def split: sum.splits)

lemma mem_plain_logged:
  assumes "plain_graph env g N S F" and "\<forall>n. \<forall>s \<in> S n. \<exists>v. e_to_value env s = Inr v"
    and "start \<in> insert end_node N" and "s \<in> S start" and "\<not> ms_poisoned (w_store w)"
    and "ref_run (plain_hop g F) (max_sequential_steps (g_resource_limits g)) start s = (result, hops)"
  shows "\<exists>w' cs. run_inner (run_job env g t None resolved) s start None w =
       Some (ref_result (max_sequential_steps (g_resource_limits g)) result, w') \<and>
     mem_list (w_store w') = (mem_list (w_store w))(t := mem_list (w_store w) t @ cs) \<and>
     list_all2 (checkpoint_of env) cs hops \<and> \<not> ms_poisoned (w_store w') \<and>
     (\<forall>c \<in> set cs. mc_resolved_interrupt c = resolved)"
proof -
  let ?j = "run_job env g t None resolved"
  have j: "j_ck ?j = memory_checkpointer env" "j_token ?j = None" "j_env ?j = env" "j_graph ?j = g"
    "j_thread_id ?j = t" by (simp_all add: run_job_def)
  have u: "mem_usable (store_at w)" using assms(5) by (simp add: mem_usable_def)
  from mem_run.plain_run[of ?j env w N S F start s, unfolded j, OF refl refl u assms(1) _ assms(3,4) refl]
  obtain w' es where r: "run_inner ?j s start None w =
      Some (ref_result (max_sequential_steps (g_resource_limits g)) result, w')"
    and a: "mem_run.appended t es (store_at w) (store_at w')" and lg: "mem_run.logs env ?j es hops"
    using assms(2) by (auto simp: assms(6))
  from mem_appended(2)[OF a] obtain cs where cs: "es = map mem_entry cs"
    and l: "mem_list (w_store w') = (mem_list (w_store w))(t := mem_list (w_store w) t @ cs)" by auto
  from lg have "list_all2 (checkpoint_of env) cs hops"
    unfolding mem_run.logs_def cs list_all2_map1
    by (rule list_all2_mono) (auto simp: mem_run.complete_entry_def checkpoint_of_def)
  moreover have "\<forall>e \<in> set es. je_resolved_interrupt e = resolved"
    using lg by (induction es hops rule: list_induct2') (auto simp: mem_run.logs_def mem_run.complete_entry_def run_job_def)
  ultimately show ?thesis using r l mem_appended(1)[OF a] by (auto simp: cs)
qed

lemma mem_plain_run:
  assumes "plain_graph env g N S F" and "\<forall>n. \<forall>s \<in> S n. \<exists>v. e_to_value env s = Inr v"
    and "start \<in> insert end_node N" and "s \<in> S start" and "\<not> ms_poisoned (w_store w)"
    and "ref_run (plain_hop g F) (max_sequential_steps (g_resource_limits g)) start s = (result, hops)"
  shows "\<exists>w' cs. run_inner (run_job env g t None resolved) s start None w =
       Some (ref_result (max_sequential_steps (g_resource_limits g)) result, w') \<and>
     mem_list (w_store w') = (mem_list (w_store w))(t := mem_list (w_store w) t @ cs) \<and>
     list_all2 (checkpoint_of env) cs hops \<and> \<not> ms_poisoned (w_store w')"
  using mem_plain_logged[OF assms, of t resolved] by blast

text \<open>C1: a sequential run of a graph whose nodes succeed, without budgets, interrupts or a token, is the
  chain of hops its edges and events describe: it returns the state reached at the end node with one
  Complete checkpoint per node on the way, each holding the state and the name of the next node, or it
  fails with the step limit when the limit is too small for the chain.\<close>

theorem run_refines:
  assumes "plain_graph env g N S F" and "\<forall>n. \<forall>s \<in> S n. \<exists>v. e_to_value env s = Inr v"
    and "start \<in> insert end_node N" and "s \<in> S start" and "\<not> ms_poisoned (w_store w)"
    and "ref_run (plain_hop g F) (max_sequential_steps (g_resource_limits g)) start s = (result, hops)"
  shows "\<exists>w' cs. run env g (memory_checkpointer env) t s start None w =
       Some (ref_result (max_sequential_steps (g_resource_limits g)) result, w') \<and>
     mem_list (w_store w') = (mem_list (w_store w))(t := mem_list (w_store w) t @ cs) \<and>
     list_all2 (checkpoint_of env) cs hops"
  using mem_plain_run[OF assms(1-4) _ assms(6), of "w\<lparr>w_last_head := None\<rparr>" t None] assms(5)
  unfolding run_eq by auto

lemma sample_run:
  "\<exists>w'. run sample_env (sample_graph 3) (memory_checkpointer sample_env) ''t'' 0 ''a'' None
       (sample_world 0 mem_new) = Some (Inr 2, w')"
proof -
  have "\<exists>w' cs. run_inner (run_job sample_env (sample_graph 3) ''t'' None None) 0 ''a'' None
      ((sample_world 0 mem_new)\<lparr>w_last_head := None\<rparr>) = Some (ref_result 3 (Some 2), w')"
    using mem_plain_run[OF sample_graph_plain sample_encs, of "''a''" 0
        "(sample_world 0 mem_new)\<lparr>w_last_head := None\<rparr>" 3 "Some 2" "[(1, ''b''), (2, end_node)]" "''t''" None]
    by (auto simp: sample_ref sample_world_def mem_new_def)
  then show ?thesis by (simp add: run_eq ref_result_def)
qed

theorem run_checkpoints_witness:
  "\<exists>w'. run sample_env (sample_graph 3) (memory_checkpointer sample_env) ''t'' 0 ''a'' None
       (sample_world 0 mem_new) = Some (Inr 2, w') \<and>
     (\<forall>c \<in> set (butlast (mem_list (w_store w') ''t'')). mc_status c = CheckpointStatus.Complete)"
proof -
  obtain w' where r: "run sample_env (sample_graph 3) (memory_checkpointer sample_env) ''t'' 0 ''a'' None
       (sample_world 0 mem_new) = Some (Inr 2, w')" using sample_run by blast
  have m: "mem_list mem_new ''t'' = []" "\<not> ms_poisoned mem_new"
    by (simp_all add: mem_new_def mem_list_def)
  from run_checkpoints[OF r] r m show ?thesis by (auto simp: sample_world_def)
qed

theorem run_refines_witness:
  "\<exists>w' cs. run sample_env (sample_graph 3) (memory_checkpointer sample_env) ''t'' 0 ''a'' None
       (sample_world 0 mem_new) = Some (Inr 2, w') \<and>
     list_all2 (checkpoint_of sample_env) cs [(1, ''b''), (2, end_node)]"
  using run_refines[OF sample_graph_plain sample_encs, of "''a''" 0 "sample_world 0 mem_new"
      3 "Some 2" "[(1, ''b''), (2, end_node)]" "''t''"]
  by (auto simp: sample_ref ref_result_def sample_world_def mem_new_def)

section \<open>The step limit\<close>

text \<open>C10: the step limit counts the pass that only recognises the end: a chain of exactly
  \<open>max_sequential_steps\<close> nodes fails with the step limit although every node has run and the last
  checkpoint holds the final state with the end as next node.\<close>

theorem run_step_limit_counts_end:
  assumes "plain_graph env g N S F" and "\<forall>n. \<forall>s \<in> S n. \<exists>v. e_to_value env s = Inr v"
    and "start \<in> insert end_node N" and "s \<in> S start" and "\<not> ms_poisoned (w_store w)"
    and "limit = max_sequential_steps (g_resource_limits g)" and "0 < limit"
    and "ref_run (plain_hop g F) (Suc limit) start s = (Some final, hops)" and "length hops = limit"
  shows "\<exists>w' c. run env g (memory_checkpointer env) t s start None w =
       Some (Inl (StepLimitExceeded limit limit), w') \<and>
     last_opt (mem_list (w_store w') t) = Some c \<and> checkpoint_of env c (final, end_node)"
proof -
  from ref_run_exact[OF assms(8,9)] assms(7,9) have ref: "ref_run (plain_hop g F) limit start s = (None, hops)"
    and l: "hops \<noteq> []" "last hops = (final, end_node)" by auto
  from mem_plain_run[OF assms(1-4) _ ref[unfolded assms(6)], of "w\<lparr>w_last_head := None\<rparr>" t None] assms(5)
  obtain w' cs where r: "run env g (memory_checkpointer env) t s start None w =
       Some (ref_result limit None, w')"
    and cs: "mem_list (w_store w') t = mem_list (w_store w) t @ cs" "list_all2 (checkpoint_of env) cs hops"
    by (auto simp: run_eq assms(6))
  from cs(2) l(1) have ne: "cs \<noteq> []" by auto
  have "checkpoint_of env (last cs) (last hops)"
    by (rule list_all2_last[OF cs(2) ne])
  with ne r cs(1) l(2) show ?thesis by (auto simp: ref_result_def last_opt_def)
qed

theorem run_step_limit_counts_end_witness:
  "\<exists>w' c. run sample_env (sample_graph 2) (memory_checkpointer sample_env) ''t'' 0 ''a'' None
       (sample_world 0 mem_new) = Some (Inl (StepLimitExceeded 2 2), w') \<and>
     last_opt (mem_list (w_store w') ''t'') = Some c \<and> checkpoint_of sample_env c (2, end_node)"
proof -
  have "ref_run (plain_hop (sample_graph 2) sample_output) (Suc 2) ''a'' 0 =
     (Some 2, [(1, ''b''), (2, end_node)])" using sample_ref by (simp add: numeral_3_eq_3 numeral_2_eq_2)
  from run_step_limit_counts_end[OF sample_graph_plain sample_encs _ _ _ _ _ this, of "sample_world 0 mem_new" "''t''"]
  show ?thesis by (simp add: sample_world_def mem_new_def)
qed

text \<open>C11: with \<open>max_execution_records\<close> 0 a run does not return: the first node that succeeds is never
  recorded, so its checkpoint is never written.\<close>

theorem run_without_history_hangs:
  assumes "start \<noteq> end_node" and "plain_node g S F start" and "s \<in> S" and "g_budget_eur g = None"
    and "max_execution_records (g_resource_limits g) = 0"
    and "0 < max_sequential_steps (g_resource_limits g)"
  shows "run env g (memory_checkpointer env) t s start None w = None"
proof -
  let ?j = "run_job env g t None None"
  let ?q = "(seq_start s start None None)\<lparr>q_step_count := 1, q_first := False\<rparr>"
  have "seq_execute ?j ?q (w\<lparr>w_last_head := Some None\<rparr>) = None"
    by (rule plain_execute_stuck[of ?j S F]) (use assms in \<open>simp_all add: run_job_def seq_start_def\<close>)
  then have "seq_step ?j (seq_start s start None None) (w\<lparr>w_last_head := Some None\<rparr>) = None"
    using assms(1,6) by (simp add: seq_step_def run_job_def seq_start_def Let_def)
  then have "seq_loop ?j (seq_start s start None None) (w\<lparr>w_last_head := Some None\<rparr>) = None"
    by (rule seq_loop_step(1))
  then show ?thesis unfolding run_eq run_inner_mem by simp
qed

theorem run_without_history_hangs_witness:
  "run sample_env (set_resource_limits (with_max_execution_records 0 resource_limits_default) (sample_graph 3))
     (memory_checkpointer sample_env) ''t'' 0 ''a'' None (sample_world 0 mem_new) = None"
proof (rule run_without_history_hangs[where S = "{..100}" and F = sample_output])
  show "plain_node (set_resource_limits (with_max_execution_records 0 resource_limits_default) (sample_graph 3))
      {..100} sample_output ''a''"
    by (simp add: plain_node_def answers_def sample_graph_def set_resource_limits_def add_edge_def add_node_def
        graph_new_def sample_node_def effective_node_budget_def)
qed (simp_all add: end_node_def sample_graph_def set_resource_limits_def add_edge_def add_node_def
      graph_new_def with_max_execution_records_def resource_limits_default_def)

section \<open>Crash recovery\<close>

lemma mem_resume_load:
  assumes "\<not> ms_poisoned (w_store w)"
  shows "on_store (ck_load_state (memory_checkpointer env) t) w =
     Some (load_entry (mem_dec env) t (last_opt (mem_journal (w_store w) t)), w)"
  using assms by (simp add: on_store_def memory_checkpointer_def mem_load_spec mem_usable_def)

lemma last_journal:
  "last_opt (mem_list st t) = Some c \<Longrightarrow> last_opt (mem_journal st t) = Some (mem_entry c)"
  by (simp add: mem_journal_def last_opt_map)

text \<open>C3: a run that is cut after any of its checkpoints and resumed from the store ends in the same state
  as the run that was not cut, and writes exactly the checkpoints that were missing.\<close>

theorem crash_resume:
  assumes "plain_graph env g N S F"
    and "\<forall>n. \<forall>s \<in> S n. \<exists>v. e_to_value env s = Inr v \<and> e_from_value env v = Inr s"
    and "start \<in> insert end_node N" and "s \<in> S start" and "\<not> ms_poisoned (w_store w)"
    and "ref_run (plain_hop g F) (max_sequential_steps (g_resource_limits g)) start s = (Some final, hops)"
    and "i < length hops" and "last_opt (mem_list (w_store w) t) = Some c"
    and "checkpoint_of env c (hops ! i)"
  shows "\<exists>w' cs. resume env g (memory_checkpointer env) t None w = Some (Inr (Some final), w') \<and>
     mem_list (w_store w') t = mem_list (w_store w) t @ cs \<and>
     list_all2 (checkpoint_of env) cs (drop (Suc i) hops)"
proof -
  let ?L = "max_sequential_steps (g_resource_limits g)"
  obtain s' n' where h: "hops ! i = (s', n')" by fastforce
  have mem: "(s', n') \<in> set (snd (ref_run (plain_hop g F) ?L start s))"
    using assms(6,7) h by (metis nth_mem snd_conv)
  from ref_run_closed[OF assms(1,3,4) mem] have s': "s' \<in> S n'" "n' \<in> insert end_node N" by auto
  from assms(9) h have c: "mc_status c = CheckpointStatus.Complete" "mc_next_node c = n'"
    "e_to_value env s' = Inr (mc_state c)" by (simp_all add: checkpoint_of_def)
  moreover obtain v where "e_to_value env s' = Inr v" "e_from_value env v = Inr s'" using assms(2) s'(1) by blast
  ultimately have dec: "e_from_value env (mc_state c) = Inr s'" by simp
  have "ref_run (plain_hop g F) (?L - Suc i) n' s' = (Some final, drop (Suc i) hops)"
    using ref_run_suffix[of "plain_hop g F" ?L start s final i s' n'] assms(6,7) h by simp
  from ref_run_more[OF this] have ref: "ref_run (plain_hop g F) ?L n' s' = (Some final, drop (Suc i) hops)"
    by simp
  have enc: "\<forall>n. \<forall>s \<in> S n. \<exists>v. e_to_value env s = Inr v" using assms(2) by blast
  from mem_plain_run[OF assms(1) enc s'(2,1) _ ref, of "w\<lparr>w_last_head := None\<rparr>" t "mc_claimed_interrupt c"]
  obtain w' cs where r: "run_inner (run_job env g t None (mc_claimed_interrupt c)) s' n' None
        (w\<lparr>w_last_head := None\<rparr>) = Some (Inr final, w')"
    and l: "mem_list (w_store w') t = mem_list (w_store w) t @ cs"
    and cs: "list_all2 (checkpoint_of env) cs (drop (Suc i) hops)"
    using assms(5) by (auto simp: ref_result_def)
  have ld: "load_entry (mem_dec env) t (last_opt (mem_journal (w_store w) t)) =
      Inr (Some (s', mc_to_meta t c, mc_dag c))"
    by (simp add: last_journal[OF assms(8)] load_entry_def mem_dec_def dec)
  have m: "cm_status (mc_to_meta t c) = CheckpointStatus.Complete" "cm_next_node (mc_to_meta t c) = n'"
    "cm_claimed_interrupt (mc_to_meta t c) = mc_claimed_interrupt c"
    by (simp_all add: mc_to_meta_def c)
  have "resume env g (memory_checkpointer env) t None w = Some (Inr (Some final), w')"
    using r by (simp add: resume_def resume_with_def mem_resume_load[OF assms(5)] ld m Let_def
        resume_run_def resume_job_def run_job_def)
  with l cs show ?thesis by blast
qed

definition sample_checkpoint :: "nat \<Rightarrow> string \<Rightarrow> MemoryCheckpoint" where
  "sample_checkpoint s n = \<lparr>mc_checkpoint_id = ''c'', mc_state = JNumber (JInt (int s)),
     mc_next_node = n, mc_dag = None, mc_status = CheckpointStatus.Complete, mc_created_at = 0,
     mc_yield_request = None, mc_claimed_interrupt = None, mc_resolved_interrupt = None\<rparr>"

definition crashed_store :: mem_store where
  "crashed_store = \<lparr>ms_poisoned = False, ms_map = [''t'' \<mapsto> [sample_checkpoint 1 ''b'']]\<rparr>"

theorem crash_resume_witness:
  "\<exists>w'. resume sample_env (sample_graph 3) (memory_checkpointer sample_env) ''t'' None
       (sample_world 0 crashed_store) = Some (Inr (Some 2), w')"
proof -
  have e: "\<forall>n :: string. \<forall>s \<in> {..100}. \<exists>v. e_to_value sample_env s = Inr v \<and> e_from_value sample_env v = Inr s"
    by (simp add: sample_env_def)
  have l: "last_opt (mem_list (w_store (sample_world (0 :: nat) crashed_store)) ''t'') =
      Some (sample_checkpoint 1 ''b'')"
    by (simp add: sample_world_def crashed_store_def mem_list_def last_opt_def)
  have c: "checkpoint_of sample_env (sample_checkpoint 1 ''b'') ([(1, ''b''), (2, end_node)] ! 0)"
    by (simp add: checkpoint_of_def sample_checkpoint_def sample_env_def)
  have r: "ref_run (plain_hop (sample_graph 3) sample_output)
      (max_sequential_steps (g_resource_limits (sample_graph 3))) ''a'' 0 =
      (Some 2, [(1, ''b''), (2, end_node)])" by (simp add: sample_ref)
  from crash_resume[OF sample_graph_plain e _ _ _ r _ l c] show ?thesis
    by (auto simp: sample_world_def crashed_store_def)
qed

end
