(* ===== verification/Graph_Builder.thy ===== *)
theory Graph_Builder
  imports Observe Run_Properties
begin

text \<open>
  \<open>GraphBuilder\<close> of \<open>src/graph.rs\<close>: the graph under construction with the observers it is given. Each
  method passes on to the method of the graph. A chain of closures put together with it runs them
  one after the other.
\<close>

section \<open>The builder\<close>

text \<open>The record \<open>graph\<close> has no observers; the builder holds the emitter and the hook beside it.\<close>

record ('s, 'x, 'm) GraphBuilder =
  gb_graph :: "('s, 'x) graph"
  gb_emitter :: "'m emitter"
  gb_metrics_hook :: "'m metrics_hook"

definition graph_builder :: "('s, 'x, 'm) GraphBuilder" where
  "graph_builder = \<lparr>gb_graph = graph_new, gb_emitter = noop_emit, gb_metrics_hook = default_metrics_hook\<rparr>"

definition b_node :: "string \<Rightarrow> ('s, 'x) node \<Rightarrow> ('s, 'x, 'm) GraphBuilder \<Rightarrow> ('s, 'x, 'm) GraphBuilder" where
  "b_node n f b = b\<lparr>gb_graph := add_node n f (gb_graph b)\<rparr>"

definition b_node_with_config ::
  "string \<Rightarrow> ('s, 'x) node \<Rightarrow> NodeConfig \<Rightarrow> ('s, 'x, 'm) GraphBuilder \<Rightarrow> ('s, 'x, 'm) GraphBuilder" where
  "b_node_with_config n f c b = b\<lparr>gb_graph := add_node_with_config n f c (gb_graph b)\<rparr>"

definition b_edge :: "string \<Rightarrow> string \<Rightarrow> ('s, 'x, 'm) GraphBuilder \<Rightarrow> ('s, 'x, 'm) GraphBuilder" where
  "b_edge src target b = b\<lparr>gb_graph := add_edge src target (gb_graph b)\<rparr>"

definition b_conditional_edge ::
  "string \<Rightarrow> ('s \<Rightarrow> string) \<Rightarrow> ('s, 'x, 'm) GraphBuilder \<Rightarrow> ('s, 'x, 'm) GraphBuilder" where
  "b_conditional_edge src f b = b\<lparr>gb_graph := add_conditional_edge src f (gb_graph b)\<rparr>"

definition b_retry_policy :: "RetryPolicy \<Rightarrow> ('s, 'x, 'm) GraphBuilder \<Rightarrow> ('s, 'x, 'm) GraphBuilder" where
  "b_retry_policy p b = b\<lparr>gb_graph := set_retry_policy p (gb_graph b)\<rparr>"

definition b_budget_eur :: "f64 \<Rightarrow> ('s, 'x, 'm) GraphBuilder \<Rightarrow> ('s, 'x, 'm) GraphBuilder" where
  "b_budget_eur c b = b\<lparr>gb_graph := set_budget_eur c (gb_graph b)\<rparr>"

definition b_crash_recovery_policy ::
  "CrashRecoveryPolicy \<Rightarrow> ('s, 'x, 'm) GraphBuilder \<Rightarrow> ('s, 'x, 'm) GraphBuilder" where
  "b_crash_recovery_policy p b = b\<lparr>gb_graph := set_crash_recovery_policy p (gb_graph b)\<rparr>"

definition b_wave_failure_policy ::
  "WaveFailurePolicy \<Rightarrow> ('s, 'x, 'm) GraphBuilder \<Rightarrow> ('s, 'x, 'm) GraphBuilder" where
  "b_wave_failure_policy p b = b\<lparr>gb_graph := set_wave_failure_policy p (gb_graph b)\<rparr>"

definition b_interrupt_before :: "string \<Rightarrow> ('s, 'x, 'm) GraphBuilder \<Rightarrow> ('s, 'x, 'm) GraphBuilder" where
  "b_interrupt_before n b = b\<lparr>gb_graph := add_interrupt_before n (gb_graph b)\<rparr>"

definition b_interrupt_after :: "string \<Rightarrow> ('s, 'x, 'm) GraphBuilder \<Rightarrow> ('s, 'x, 'm) GraphBuilder" where
  "b_interrupt_after n b = b\<lparr>gb_graph := add_interrupt_after n (gb_graph b)\<rparr>"

definition b_emitter :: "'m emitter \<Rightarrow> ('s, 'x, 'm) GraphBuilder \<Rightarrow> ('s, 'x, 'm) GraphBuilder" where
  "b_emitter e b = b\<lparr>gb_emitter := e\<rparr>"

definition b_metrics_hook :: "'m metrics_hook \<Rightarrow> ('s, 'x, 'm) GraphBuilder \<Rightarrow> ('s, 'x, 'm) GraphBuilder" where
  "b_metrics_hook h b = b\<lparr>gb_metrics_hook := h\<rparr>"

definition b_fn_node :: "string \<Rightarrow> ('s, 'x) node \<Rightarrow> ('s, 'x, 'm) GraphBuilder \<Rightarrow> ('s, 'x, 'm) GraphBuilder" where
  "b_fn_node n f b = b\<lparr>gb_graph := add_fn_node n f (gb_graph b)\<rparr>"

definition b_simple_fn_node :: "string \<Rightarrow> ('s \<Rightarrow> 'x \<Rightarrow> 's node_result future \<times> 'x) \<Rightarrow>
    ('s, 'x, 'm) GraphBuilder \<Rightarrow> ('s, 'x, 'm) GraphBuilder" where
  "b_simple_fn_node n f b = b\<lparr>gb_graph := add_simple_fn_node n f (gb_graph b)\<rparr>"

definition b_dynamic_node ::
  "string \<Rightarrow> ('s, 'x) dynamic_node \<Rightarrow> ('s, 'x, 'm) GraphBuilder \<Rightarrow> ('s, 'x, 'm) GraphBuilder" where
  "b_dynamic_node n f b = b\<lparr>gb_graph := add_dynamic_node n f (gb_graph b)\<rparr>"

definition b_resource_limits :: "ResourceLimits \<Rightarrow> ('s, 'x, 'm) GraphBuilder \<Rightarrow> ('s, 'x, 'm) GraphBuilder" where
  "b_resource_limits l b = b\<lparr>gb_graph := set_resource_limits l (gb_graph b)\<rparr>"

definition b_build :: "('s, 'x, 'm) GraphBuilder \<Rightarrow> ('s, 'x) graph" where
  "b_build b = gb_graph b"

section \<open>A chain of closures\<close>

definition closure :: "('s \<Rightarrow> 's) \<Rightarrow> 's \<Rightarrow> 'x \<Rightarrow> 's node_result future \<times> 'x" where
  "closure f s x = (Ready 0 (Inr (node_output_bare (f s))), x)"

text \<open>\<open>.simple_fn_node(n, f).edge(n, next)\<close> for each step in turn.\<close>

fun chain :: "(string \<times> ('s \<Rightarrow> 's)) list \<Rightarrow> ('s, 'x, 'm) GraphBuilder \<Rightarrow> ('s, 'x, 'm) GraphBuilder" where
  "chain [] b = b"
| "chain ((n, f) # steps) b = chain steps (b_edge n (case steps of [] \<Rightarrow> end_node | (m, _) # _ \<Rightarrow> m)
     (b_simple_fn_node n (closure f) b))"

definition first_step :: "(string \<times> 'a) list \<Rightarrow> string" where
  "first_step steps = (case steps of [] \<Rightarrow> end_node | (m, _) # _ \<Rightarrow> m)"

text \<open>The state and the next node after each step.\<close>

fun chain_hops :: "(string \<times> ('s \<Rightarrow> 's)) list \<Rightarrow> 's \<Rightarrow> ('s \<times> string) list" where
  "chain_hops [] s = []"
| "chain_hops ((n, f) # steps) s = (f s, first_step steps) # chain_hops steps (f s)"

text \<open>A graph that has a node and an edge for each step of a chain, and nothing else to say of them.\<close>

definition has_chain :: "('s, 'x) graph \<Rightarrow> (string \<times> ('s \<Rightarrow> 's)) list \<Rightarrow> bool" where
  "has_chain g steps \<longleftrightarrow> (\<forall>i < length steps. case steps ! i of (n, f) \<Rightarrow>
     g_nodes g n = Some (\<lambda>_. closure f) \<and>
     g_edges g n = Some (Unconditional (first_step (drop (Suc i) steps))))"

lemma chain_simps:
  "gb_graph (chain ((n, f) # steps) b) = gb_graph (chain steps
     (b\<lparr>gb_graph := add_edge n (first_step steps) (add_node n (\<lambda>_. closure f) (gb_graph b))\<rparr>))"
  by (simp add: b_edge_def b_simple_fn_node_def add_simple_fn_node_def first_step_def closure_def)

lemma chain_keeps:
  "n \<notin> fst ` set steps \<Longrightarrow> g_nodes (gb_graph (chain steps b)) n = g_nodes (gb_graph b) n \<and>
     g_edges (gb_graph (chain steps b)) n = g_edges (gb_graph b) n"
  by (induction steps b rule: chain.induct)
     (auto simp: b_edge_def b_simple_fn_node_def add_simple_fn_node_def add_edge_def add_node_def)

lemma chain_settings:
  "g_dynamic_nodes (gb_graph (chain steps b)) = g_dynamic_nodes (gb_graph b) \<and>
   g_budget_eur (gb_graph (chain steps b)) = g_budget_eur (gb_graph b) \<and>
   g_interrupt_before (gb_graph (chain steps b)) = g_interrupt_before (gb_graph b) \<and>
   g_interrupt_after (gb_graph (chain steps b)) = g_interrupt_after (gb_graph b) \<and>
   g_node_configs (gb_graph (chain steps b)) = g_node_configs (gb_graph b) \<and>
   g_resource_limits (gb_graph (chain steps b)) = g_resource_limits (gb_graph b)"
  by (induction steps b rule: chain.induct)
     (auto simp: b_edge_def b_simple_fn_node_def add_simple_fn_node_def add_edge_def add_node_def)

lemma built_settings:
  fixes steps :: "(string \<times> ('s \<Rightarrow> 's)) list"
  defines "g \<equiv> b_build (chain steps (graph_builder :: ('s, 'x, 'm) GraphBuilder))"
  shows "g_dynamic_nodes g = Map.empty" "g_budget_eur g = None" "g_interrupt_before g = {}"
    "g_interrupt_after g = {}" "g_node_configs g = Map.empty" "g_resource_limits g = resource_limits_default"
proof -
  let ?b = "graph_builder :: ('s, 'x, 'm) GraphBuilder"
  have "gb_graph ?b = graph_new" by (simp add: graph_builder_def)
  with chain_settings[of steps ?b] show "g_dynamic_nodes g = Map.empty" "g_budget_eur g = None"
    "g_interrupt_before g = {}" "g_interrupt_after g = {}" "g_node_configs g = Map.empty"
    "g_resource_limits g = resource_limits_default"
    unfolding g_def b_build_def by (simp_all add: graph_new_def)
qed

lemma has_chain_chain: "distinct (map fst steps) \<Longrightarrow> has_chain (gb_graph (chain steps b)) steps"
proof (induction steps arbitrary: b)
  case (Cons step steps)
  obtain n f where step: "step = (n, f)" by fastforce
  let ?b = "b\<lparr>gb_graph := add_edge n (first_step steps) (add_node n (\<lambda>_. closure f) (gb_graph b))\<rparr>"
  from Cons.prems step have n: "n \<notin> fst ` set steps" and d: "distinct (map fst steps)" by auto
  from chain_keeps[OF n, of ?b] have "g_nodes (gb_graph (chain steps ?b)) n = Some (\<lambda>_. closure f)"
    "g_edges (gb_graph (chain steps ?b)) n = Some (Unconditional (first_step steps))"
    by (simp_all add: add_edge_def add_node_def)
  with Cons.IH[OF d, of ?b] show ?case
    by (auto simp: step chain_simps has_chain_def nth_Cons simp del: chain.simps split: nat.splits)
qed (simp add: has_chain_def)

section \<open>The run of a chain\<close>

lemma has_chain_tl: "has_chain g (step # steps) \<Longrightarrow> has_chain g steps"
  by (auto simp: has_chain_def)

lemma has_chain_at:
  assumes "has_chain g steps" and "(n, f) \<in> set steps"
  shows "g_nodes g n = Some (\<lambda>_. closure f) \<and>
     (\<exists>m \<in> insert end_node (fst ` set steps). g_edges g n = Some (Unconditional m))"
proof -
  from assms(2) obtain i where i: "i < length steps" "steps ! i = (n, f)" by (auto simp: in_set_conv_nth)
  have "first_step (drop (Suc i) steps) \<in> insert end_node (fst ` set steps)"
  proof (cases "drop (Suc i) steps")
    case (Cons step rest)
    with set_drop_subset[of "Suc i" steps] have "step \<in> set steps" by simp
    then have "fst step \<in> fst ` set steps" by simp
    with Cons show ?thesis by (cases step) (simp add: first_step_def)
  qed (simp add: first_step_def)
  moreover have "g_nodes g n = Some (\<lambda>_. closure f)"
    "g_edges g n = Some (Unconditional (first_step (drop (Suc i) steps)))"
    using assms(1) i by (auto simp: has_chain_def)
  ultimately show ?thesis by blast
qed

lemma chain_ref_run:
  assumes "end_node \<notin> fst ` set steps"
    and "\<And>n f. (n, f) \<in> set steps \<Longrightarrow> F n = (\<lambda>s. node_output_bare (f s))"
  shows "has_chain g steps \<Longrightarrow> length steps < fuel \<Longrightarrow>
     ref_run (plain_hop g F) fuel (first_step steps) s = (Some (fold snd steps s), chain_hops steps s)"
  using assms
proof (induction steps arbitrary: fuel s)
  case Nil
  then show ?case by (cases fuel) (simp_all add: first_step_def)
next
  case (Cons step steps)
  obtain n f where step: "step = (n, f)" by fastforce
  obtain k where k: "fuel = Suc k" "length steps < k" using Cons.prems(2) by (cases fuel) auto
  have e: "g_edges g n = Some (Unconditional (first_step steps))"
    using Cons.prems(1) unfolding has_chain_def step by (elim allE[of _ 0]) simp
  have "F n = (\<lambda>s. node_output_bare (f s))" using Cons.prems(4)[of n f] step by simp
  then have h: "plain_hop g F n s = (f s, first_step steps)"
    by (simp add: plain_hop_def resolve_next_node_def edge_target_def node_output_bare_def e)
  have "ref_run (plain_hop g F) k (first_step steps) (f s) =
      (Some (fold snd steps (f s)), chain_hops steps (f s))"
    using Cons.prems(3,4) k(2) by (intro Cons.IH has_chain_tl[OF Cons.prems(1)]) auto
  moreover have "n \<noteq> end_node" using Cons.prems(3) step by auto
  ultimately show ?case by (simp add: step k(1) h) (simp add: first_step_def h)
qed

lemma chain_plain:
  assumes "has_chain g steps" and "end_node \<notin> fst ` set steps"
    and "\<And>n f. (n, f) \<in> set steps \<Longrightarrow> F n = (\<lambda>s. node_output_bare (f s))"
    and "g_dynamic_nodes g = Map.empty" and "g_budget_eur g = None" and "g_interrupt_before g = {}"
    and "g_interrupt_after g = {}" and "g_node_configs g = Map.empty"
    and "g_resource_limits g = resource_limits_default"
    and "\<And>f s. f \<in> snd ` set steps \<Longrightarrow> s \<in> S \<Longrightarrow> f s \<in> S"
    and "\<And>s. s \<in> S \<Longrightarrow> estimated_size env s \<le> max_checkpoint_bytes resource_limits_default"
  shows "plain_graph env g (fst ` set steps) (\<lambda>_. S) F"
proof -
  have "plain_node g S F n \<and> (\<forall>s \<in> S. no_state (F n s) \<in> S \<and>
      snd (plain_hop g F n s) \<in> insert end_node (fst ` set steps))" if "(n, f) \<in> set steps" for n f
    using has_chain_at[OF assms(1) that] assms(3)[OF that] assms(10)[of f] that
    by (force simp: plain_node_def answers_def effective_node_budget_def assms(4-8) closure_def
        plain_hop_def resolve_next_node_def edge_target_def node_output_bare_def)
  then have "\<forall>n \<in> fst ` set steps. plain_node g S F n \<and> (\<forall>s \<in> S. no_state (F n s) \<in> S \<and>
      snd (plain_hop g F n s) \<in> insert end_node (fst ` set steps))" by fastforce
  moreover have "0 < max_execution_records (g_resource_limits g)"
    by (simp add: assms(9) resource_limits_default_def)
  ultimately show ?thesis using assms(2,5,9,11) by (auto simp: plain_graph_def plain_hop_def)
qed

text \<open>C37: a chain of closures put together with the builder runs them in order: from the first step, a run
  with the default limits returns the last closure's state and leaves one Complete checkpoint per step,
  with the state after it and the name of the next.\<close>

theorem built_chain_runs:
  assumes "distinct (map fst steps)" and "end_node \<notin> fst ` set steps" and "length steps < 1000"
    and "s \<in> S" and "\<And>f s. f \<in> snd ` set steps \<Longrightarrow> s \<in> S \<Longrightarrow> f s \<in> S"
    and "\<And>s. s \<in> S \<Longrightarrow> \<exists>v. e_to_value env s = Inr v"
    and "\<And>s. s \<in> S \<Longrightarrow> estimated_size env s \<le> 10 * 1024 * 1024"
    and "\<not> ms_poisoned (w_store w)"
  shows "\<exists>w' cs. run env (b_build (chain steps (graph_builder :: ('s, 'x, 'm) GraphBuilder))) (memory_checkpointer env) t s
       (first_step steps) None w = Some (Inr (fold snd steps s), w') \<and>
     mem_list (w_store w') t = mem_list (w_store w) t @ cs \<and>
     list_all2 (checkpoint_of env) cs (chain_hops steps s)"
proof -
  let ?b = "graph_builder :: ('s, 'x, 'm) GraphBuilder"
  let ?g = "b_build (chain steps ?b)" and ?w = "w\<lparr>w_last_head := None\<rparr>"
  define F where "F = (\<lambda>n s. node_output_bare (the (map_of steps n) s))"
  note settings = built_settings[where steps = steps and ?'x = 'x and ?'m = 'm]
  have g: "has_chain ?g steps" unfolding b_build_def by (rule has_chain_chain[OF assms(1)])
  have F: "F n = (\<lambda>s. node_output_bare (f s))" if "(n, f) \<in> set steps" for n f
    using map_of_is_SomeI[OF assms(1) that] by (simp add: F_def)
  have "plain_graph env ?g (fst ` set steps) (\<lambda>_. S) F"
    by (rule chain_plain[OF g assms(2) F])
       (use assms(5,7) in \<open>simp_all add: settings, simp add: resource_limits_default_def\<close>)
  moreover have "ref_run (plain_hop ?g F) (max_sequential_steps (g_resource_limits ?g)) (first_step steps) s =
      (Some (fold snd steps s), chain_hops steps s)"
    by (rule chain_ref_run[OF assms(2) F g])
       (use assms(3) in \<open>simp_all add: settings resource_limits_default_def\<close>)
  moreover have "first_step steps \<in> insert end_node (fst ` set steps)"
    by (auto simp: first_step_def split: list.split)
  moreover have "\<not> ms_poisoned (w_store ?w)" using assms(8) by simp
  ultimately show ?thesis
    using mem_plain_run[of env ?g "fst ` set steps" "\<lambda>_. S" F "first_step steps" s ?w "Some (fold snd steps s)"
        "chain_hops steps s" t None] assms(4,6)
    by (fastforce simp: run_eq ref_result_def)
qed

theorem built_chain_runs_witness:
  "\<exists>w' cs. run sample_env (b_build (chain [(''double'', \<lambda>s. min 100 (2 * s)), (''add'', \<lambda>s. min 100 (s + 3))]
       (graph_builder :: (nat, nat, unit) GraphBuilder))) (memory_checkpointer sample_env) ''t'' 5 ''double'' None
       (sample_world 0 mem_new) = Some (Inr 13, w') \<and>
     mem_list (w_store w') ''t'' = cs \<and> list_all2 (checkpoint_of sample_env) cs [(10, ''add''), (13, end_node)]"
proof -
  let ?steps = "[(''double'', \<lambda>s. min 100 (2 * s)), (''add'', \<lambda>s. min 100 (s + 3))] :: (string \<times> (nat \<Rightarrow> nat)) list"
  have "\<exists>w' cs. run sample_env (b_build (chain ?steps (graph_builder :: (nat, nat, unit) GraphBuilder)))
       (memory_checkpointer sample_env) ''t'' 5 (first_step ?steps) None
       (sample_world 0 mem_new) = Some (Inr (fold snd ?steps 5), w') \<and>
     mem_list (w_store w') ''t'' = mem_list (w_store (sample_world (0 :: nat) mem_new)) ''t'' @ cs \<and>
     list_all2 (checkpoint_of sample_env) cs (chain_hops ?steps 5)"
    by (rule built_chain_runs[where S = "{..100 :: nat}"])
       (use sample_sizes in \<open>auto simp: end_node_def sample_enc sample_world_def mem_new_def\<close>)
  then show ?thesis
    by (auto simp: first_step_def sample_world_def mem_new_def mem_list_def)
qed

end
