(* ===== verification/Hitl_Properties.thy ===== *)
theory Hitl_Properties
  imports Run_Properties
begin

text \<open>
  Human in the loop over the in-memory checkpointer: yielding, resuming with input, retrying a
  resume, and what a resume that fails leaves behind.
\<close>

section \<open>A thread that waits for input\<close>

text \<open>The thread's last checkpoint awaits interrupt \<open>i\<close>, which nothing has resolved yet.\<close>

definition waiting :: "mem_store \<Rightarrow> string \<Rightarrow> string \<Rightarrow> MemoryCheckpoint \<Rightarrow> YieldRequest \<Rightarrow> bool" where
  "waiting st t i c request \<longleftrightarrow> \<not> ms_poisoned st \<and> last_opt (mem_list st t) = Some c \<and>
     mc_status c = CheckpointStatus.Yielded \<and> mc_yield_request c = Some request \<and>
     yr_interrupt_id request = i \<and> (\<forall>c' \<in> set (mem_list st t). mc_resolved_interrupt c' \<noteq> Some i)"

definition claimed_checkpoint :: "string \<Rightarrow> MemoryCheckpoint \<Rightarrow> MemoryCheckpoint" where
  "claimed_checkpoint i c = c\<lparr>mc_status := CheckpointStatus.Running, mc_claimed_interrupt := Some i\<rparr>"

definition claimed_store :: "mem_store \<Rightarrow> string \<Rightarrow> string \<Rightarrow> MemoryCheckpoint \<Rightarrow> mem_store" where
  "claimed_store st t i c =
     st\<lparr>ms_map := (ms_map st)(t \<mapsto> butlast (mem_list st t) @ [claimed_checkpoint i c])\<rparr>"

lemma mem_ck_claim [simp]: "ck_claim_interrupt (memory_checkpointer env) = mem_claim_interrupt"
  by (simp add: memory_checkpointer_def)

lemma waiting_claim:
  assumes "waiting st t i c request"
  shows "mem_claim_interrupt t i (st, y) = Some (Inr Claimed, (claimed_store st t i c, y))"
proof -
  from assms obtain l where l: "ms_map st t = Some l" "mem_list st t = l"
    by (cases "ms_map st t") (auto simp: waiting_def mem_list_def)
  with assms show ?thesis
    by (auto simp: waiting_def mem_claim_interrupt_def claimed_store_def claimed_checkpoint_def)
qed

lemma claimed_store_simps [simp]:
  "ms_poisoned (claimed_store st t i c) = ms_poisoned st"
  "mem_list (claimed_store st t i c) = (mem_list st)(t := butlast (mem_list st t) @ [claimed_checkpoint i c])"
  by (simp_all add: claimed_store_def)

lemma claimed_checkpoint_simps [simp]:
  "mc_state (claimed_checkpoint i c) = mc_state c"
  "mc_next_node (claimed_checkpoint i c) = mc_next_node c"
  "mc_dag (claimed_checkpoint i c) = mc_dag c"
  "mc_checkpoint_id (claimed_checkpoint i c) = mc_checkpoint_id c"
  "mc_yield_request (claimed_checkpoint i c) = mc_yield_request c"
  "mc_status (claimed_checkpoint i c) = CheckpointStatus.Running"
  "mc_claimed_interrupt (claimed_checkpoint i c) = Some i"
  "mc_resolved_interrupt (claimed_checkpoint i c) = mc_resolved_interrupt c"
  by (simp_all add: claimed_checkpoint_def)

lemma mem_load_last:
  assumes "\<not> ms_poisoned (w_store w)" and "last_opt (mem_list (w_store w) t) = Some c"
    and "e_from_value env (mc_state c) = Inr s"
  shows "on_store (ck_load_state (memory_checkpointer env) t) w = Some (Inr (Some (s, mc_to_meta t c, mc_dag c)), w)"
  by (simp add: mem_resume_load[OF assms(1)] last_journal[OF assms(2)] load_entry_def mem_dec_def assms(3))

lemma mc_to_meta_sel [simp]:
  "cm_status (mc_to_meta t c) = mc_status c" "cm_next_node (mc_to_meta t c) = mc_next_node c"
  "cm_claimed_interrupt (mc_to_meta t c) = mc_claimed_interrupt c"
  "cm_yield_request (mc_to_meta t c) = mc_yield_request c"
  "cm_checkpoint_id (mc_to_meta t c) = mc_checkpoint_id c"
  by (simp_all add: mc_to_meta_def)

text \<open>The call of a resume on a waiting thread, up to what follows the claim.\<close>

lemma resume_waiting:
  assumes "waiting (w_store w) t i c request" and "e_from_value env (mc_state c) = Inr s"
  shows "resume_with_input env g (memory_checkpointer env) t i input rctx token w =
     resume_claimed env g (memory_checkpointer env) t i input rctx token s
       (mc_to_meta t (claimed_checkpoint i c)) (w\<lparr>w_store := claimed_store (w_store w) t i c\<rparr>)"
proof -
  let ?w = "w\<lparr>w_store := claimed_store (w_store w) t i c\<rparr>"
  have cl: "on_store (mem_claim_interrupt t i) w = Some (Inr Claimed, ?w)"
    by (simp add: on_store_def waiting_claim[OF assms(1)])
  have "\<not> ms_poisoned (w_store ?w)" using assms(1) by (simp add: waiting_def)
  from mem_load_last[OF this, of t "claimed_checkpoint i c" env s] assms(2)
  have "on_store (ck_load_state (memory_checkpointer env) t) ?w =
      Some (Inr (Some (s, mc_to_meta t (claimed_checkpoint i c), mc_dag c)), ?w)"
    by simp
  then show ?thesis
    by (simp add: resume_with_input_def cl)
qed

text \<open>A resume of a thread in which the interrupt is resolved changes nothing.\<close>

lemma resume_resolved:
  assumes "\<not> ms_poisoned (w_store w)" and "last_opt (mem_list (w_store w) t) = Some c"
    and "e_from_value env (mc_state c) = Inr s"
    and "c' \<in> set (mem_list (w_store w) t)" and "mc_resolved_interrupt c' = Some i"
  shows "resume_with_input env g (memory_checkpointer env) t i input rctx token w = Some (Inr (Some s), w)"
proof -
  from assms(2) obtain l where l: "ms_map (w_store w) t = Some l" "mem_list (w_store w) t = l"
    by (cases "ms_map (w_store w) t") (auto simp: mem_list_def)
  have "mem_claim_interrupt t i (w_store w, w_sys w) = Some (Inr AlreadyCompleted, (w_store w, w_sys w))"
    using assms(1,4,5) l by (auto simp: mem_claim_interrupt_def)
  then have "on_store (mem_claim_interrupt t i) w = Some (Inr AlreadyCompleted, w)" by (simp add: on_store_def)
  with mem_load_last[OF assms(1-3)] show ?thesis by (simp add: resume_with_input_def)
qed

text \<open>A resume of a thread whose claim is still held is refused.\<close>

lemma resume_busy:
  assumes "\<not> ms_poisoned (w_store w)" and "last_opt (mem_list (w_store w) t) = Some c"
    and "e_from_value env (mc_state c) = Inr s" and "mc_status c = CheckpointStatus.Running"
    and "mc_claimed_interrupt c = Some i"
    and "\<forall>c' \<in> set (mem_list (w_store w) t). mc_resolved_interrupt c' \<noteq> Some i"
  shows "resume_with_input env g (memory_checkpointer env) t i input rctx token w =
     Some (Inl (resume_in_progress t i), w)"
proof -
  from assms(2) obtain l where l: "ms_map (w_store w) t = Some l" "mem_list (w_store w) t = l"
    by (cases "ms_map (w_store w) t") (auto simp: mem_list_def)
  have "mem_claim_interrupt t i (w_store w, w_sys w) = Some (Inr InProgress, (w_store w, w_sys w))"
    using assms l by (auto simp: mem_claim_interrupt_def)
  then have "on_store (mem_claim_interrupt t i) w = Some (Inr InProgress, w)" by (simp add: on_store_def)
  with mem_load_last[OF assms(1-3)] show ?thesis by (simp add: resume_with_input_def)
qed

section \<open>A sample graph with a gate\<close>

text \<open>The gate yields until it is given an input, then adds one like the other nodes.\<close>

definition sample_request :: "ResumeMode \<Rightarrow> json option \<Rightarrow> YieldRequest" where
  "sample_request mode schema = \<lparr>yr_interrupt_id = ''i'', yr_message = ''approve?'', yr_schema = schema,
     yr_resume_mode = mode, yr_payload_ref = None\<rparr>"

definition gate_node :: "(nat, nat) node" where
  "gate_node = (\<lambda>ctx s x. (Ready 0 (if cx_resumed_input ctx = None
      then Inl (Yield (sample_request ReEntry None)) else Inr (sample_output ''gate'' s)), x))"

definition gate_graph :: "(nat, nat) graph" where
  "gate_graph = add_edge ''gate'' ''a'' (add_node ''gate'' gate_node (sample_graph 5))"

definition waiting_checkpoint :: "ResumeMode \<Rightarrow> json option \<Rightarrow> MemoryCheckpoint" where
  "waiting_checkpoint mode schema = (sample_checkpoint 0 ''gate'')\<lparr>
     mc_status := CheckpointStatus.Yielded, mc_yield_request := Some (sample_request mode schema)\<rparr>"

definition waiting_store :: "ResumeMode \<Rightarrow> json option \<Rightarrow> mem_store" where
  "waiting_store mode schema =
     \<lparr>ms_poisoned = False, ms_map = [''t'' \<mapsto> [waiting_checkpoint mode schema]]\<rparr>"

definition waiting_world :: "ResumeMode \<Rightarrow> json option \<Rightarrow> (nat, mem_store) world" where
  "waiting_world mode schema = sample_world 0 (waiting_store mode schema)"

lemma waiting_world_waits:
  "waiting (w_store (waiting_world mode schema)) ''t'' ''i'' (waiting_checkpoint mode schema)
     (sample_request mode schema)"
  by (simp add: waiting_def waiting_world_def sample_world_def waiting_store_def mem_list_def
      last_opt_def waiting_checkpoint_def sample_checkpoint_def sample_request_def)

lemma waiting_checkpoint_simps [simp]:
  "mc_next_node (waiting_checkpoint mode schema) = ''gate''"
  "e_from_value sample_env (JNumber (JInt 0)) = Inr 0"
  "mc_state (waiting_checkpoint mode schema) = JNumber (JInt 0)"
  by (simp_all add: waiting_checkpoint_def sample_checkpoint_def sample_env_def)

lemma sample_request_simps [simp]:
  "yr_resume_mode (sample_request mode schema) = mode" "yr_schema (sample_request mode schema) = schema"
  by (simp_all add: sample_request_def)

lemma gate_graph_simps [simp]:
  "g_budget_eur gate_graph = None" "g_interrupt_after gate_graph = {}" "g_interrupt_before gate_graph = {}"
  "g_node_configs gate_graph = Map.empty" "g_dynamic_nodes gate_graph = Map.empty"
  "g_resource_limits gate_graph = g_resource_limits (sample_graph 5)"
  "g_edges gate_graph ''gate'' = Some (Unconditional ''a'')"
  "n \<noteq> ''gate'' \<Longrightarrow> g_edges gate_graph n = g_edges (sample_graph 5) n"
  "g_nodes gate_graph ''gate'' = Some gate_node"
  "n \<noteq> ''gate'' \<Longrightarrow> g_nodes gate_graph n = g_nodes (sample_graph 5) n"
  by (simp_all add: gate_graph_def add_edge_def add_node_def sample_graph_def set_resource_limits_def
      graph_new_def)

lemma gate_graph_plain: "plain_graph sample_env gate_graph {''a'', ''b''} (\<lambda>_. {..100}) sample_output"
  using sample_sizes
  by (auto simp: plain_graph_def plain_node_def answers_def sample_graph_simps gate_graph_def)

lemma gate_answers:
  "answers gate_graph ''gate'' None s (Inl (Yield (sample_request ReEntry None)))"
  "answers gate_graph ''gate'' (Some v) s (Inr (sample_output ''gate'' s))"
  by (simp_all add: answers_def gate_node_def)

lemma gate_hops:
  "ref_run (plain_hop gate_graph sample_output) 4 ''a'' 1 = (Some 3, [(2, ''b''), (3, end_node)])"
proof -
  have "(4 :: nat) = Suc (Suc (Suc (Suc 0)))" by simp
  then show ?thesis by (simp only:) (simp add: sample_graph_simps gate_graph_def)
qed

lemma sample_decodes: "\<forall>n. \<forall>s \<in> S n. \<exists>v. e_to_value sample_env s = Inr v \<and> e_from_value sample_env v = Inr s"
  by (simp add: sample_env_def)

section \<open>Yielding\<close>

text \<open>The gate behind the node \<open>b\<close>.\<close>

definition yield_late_graph :: "(nat, nat) graph" where
  "yield_late_graph = add_edge ''b'' ''gate'' gate_graph"

text \<open>A run up to the end of a path: nothing is said of the node there.\<close>

lemma run_prefix:
  assumes "passes (saveable env g) g F start s hops" and "(s', n) = last ((s, start) # hops)"
    and "hops \<noteq> [] \<longrightarrow> 0 < max_execution_records (g_resource_limits g) \<and> n \<notin> g_interrupt_before g"
    and "length hops \<le> max_sequential_steps (g_resource_limits g)" and "\<not> ms_poisoned (w_store w)"
    and "affordable (g_budget_eur g) F (Fin 0) start s hops"
  obtains q w1 cs where
    "run env g (memory_checkpointer env) t s start None w = seq_loop (run_job env g t None None) q w1"
    "q_state q = s'" "q_current q = n" "q_input q = None" "q_first q \<or> n \<notin> g_interrupt_before g"
    "q_step_count q = length hops" "q_running_cost q = path_cost F (Fin 0) start s hops"
    "mem_list (w_store w1) = (mem_list (w_store w))(t := mem_list (w_store w) t @ cs)"
    "list_all2 (checkpoint_of env) cs hops" "\<forall>c \<in> set cs. mc_resolved_interrupt c = None"
    "\<not> ms_poisoned (w_store w1)"
proof -
  let ?j = "run_job env g t None None" and ?q = "seq_start s start None None"
  let ?w = "w\<lparr>w_last_head := Some None\<rparr>"
  have j: "j_ck ?j = memory_checkpointer env" "j_token ?j = None" "j_env ?j = env" "j_graph ?j = g"
    "j_thread_id ?j = t" by (simp_all add: run_job_def)
  have q: "q_current ?q = start" "q_input ?q = None" "q_state ?q = s" "q_first ?q" "q_step_count ?q = 0"
    "q_running_cost ?q = Fin 0" by (simp_all add: seq_start_def)
  have u: "mem_usable (store_at ?w)" using assms(5) by (simp add: mem_usable_def)
  have ok: "(\<exists>v. mem_enc env x = Inr v) \<and> estimated_size env x \<le> max_checkpoint_bytes (g_resource_limits g)"
    if "saveable env g x" for x using that by (simp add: saveable_def)
  have "\<exists>q' w1 es. seq_loop ?j ?q ?w = seq_loop ?j q' w1 \<and> (q_state q', q_current q') = (s', n) \<and>
      q_input q' = None \<and> (q_first q' \<or> n \<notin> g_interrupt_before g) \<and> q_step_count q' = length hops \<and>
      q_running_cost q' = path_cost F (Fin 0) start s hops \<and>
      mem_run.appended t es (store_at ?w) (store_at w1) \<and> mem_run.logs env ?j es hops"
  proof (cases "hops = []")
    case True
    then show ?thesis using assms(2) q u by (intro exI[of _ ?q] exI[of _ ?w] exI[of _ "[]"]) simp
  next
    case False
    with assms(3) have g: "0 < max_execution_records (g_resource_limits g)" "n \<notin> g_interrupt_before g" by simp_all
    from mem_run.passes_loop[of ?j env "saveable env g" ?w F ?q hops, unfolded j q, OF refl refl g(1) ok u
        assms(1,6)] assms(2,4) g(2) show ?thesis by fastforce
  qed
  then obtain q' w1 es where l: "seq_loop ?j ?q ?w = seq_loop ?j q' w1" and q': "q_state q' = s'"
    "q_current q' = n" "q_input q' = None" "q_first q' \<or> n \<notin> g_interrupt_before g"
    "q_step_count q' = length hops" "q_running_cost q' = path_cost F (Fin 0) start s hops"
    and es: "mem_run.appended t es (store_at ?w) (store_at w1)"
    and lg: "mem_run.logs env ?j es hops" by auto
  from mem_appended(2)[OF es] obtain cs where cs: "es = map mem_entry cs"
    and l1: "mem_list (w_store w1) = (mem_list (w_store w))(t := mem_list (w_store w) t @ cs)" by auto
  from lg have "list_all2 (\<lambda>c h. checkpoint_of env c h \<and> mc_resolved_interrupt c = None) cs hops"
    unfolding mem_run.logs_def cs list_all2_map1
    by (rule list_all2_mono) (auto simp: mem_run.complete_entry_def checkpoint_of_def run_job_def)
  then have c: "list_all2 (checkpoint_of env) cs hops" "\<forall>c \<in> set cs. mc_resolved_interrupt c = None"
    by (auto simp: list_all2_conv_all_nth in_set_conv_nth)
  have "run env g (memory_checkpointer env) t s start None w = seq_loop ?j q' w1"
    unfolding run_eq run_inner_mem using l by simp
  from that[OF this q' l1 c] mem_run.appended_usable[OF es] show thesis by (simp add: mem_usable_def)
qed

lemma run_until_yield:
  assumes "passes (saveable env g) g F start s hops" and "(s', gate) = last ((s, start) # hops)"
    and "hops \<noteq> [] \<longrightarrow> 0 < max_execution_records (g_resource_limits g) \<and> gate \<notin> g_interrupt_before g"
    and "answers g gate None s' (Inl (Yield request))" and "gate \<noteq> end_node"
    and "estimated_size env s' \<le> max_checkpoint_bytes (g_resource_limits g)"
    and "e_to_value env s' = Inr v" and "length hops < max_sequential_steps (g_resource_limits g)"
    and "\<not> ms_poisoned (w_store w)" and "affordable (g_budget_eur g) F (Fin 0) start s hops"
  shows "\<exists>w' cs c. run env g (memory_checkpointer env) t s start None w = Some (Inr s', w') \<and>
     mem_list (w_store w') = (mem_list (w_store w))(t := mem_list (w_store w) t @ cs @ [c]) \<and>
     list_all2 (checkpoint_of env) cs hops \<and> (\<forall>c' \<in> set cs. mc_resolved_interrupt c' = None) \<and>
     mc_status c = CheckpointStatus.Yielded \<and> mc_next_node c = gate \<and> mc_state c = v \<and>
     mc_yield_request c = Some request \<and> mc_claimed_interrupt c = None \<and>
     mc_resolved_interrupt c = None \<and> \<not> ms_poisoned (w_store w')"
proof -
  let ?j = "run_job env g t None None"
  have j: "j_ck ?j = memory_checkpointer env" "j_token ?j = None" "j_env ?j = env" "j_graph ?j = g"
    "j_thread_id ?j = t" by (simp_all add: run_job_def)
  obtain q' w1 cs where l: "run env g (memory_checkpointer env) t s start None w = seq_loop ?j q' w1"
    and q': "q_state q' = s'" "q_current q' = gate" "q_input q' = None" "q_first q' \<or> gate \<notin> g_interrupt_before g"
      "q_step_count q' = length hops"
    and cs: "mem_list (w_store w1) = (mem_list (w_store w))(t := mem_list (w_store w) t @ cs)"
      "list_all2 (checkpoint_of env) cs hops" "\<forall>c \<in> set cs. mc_resolved_interrupt c = None"
    and np: "\<not> ms_poisoned (w_store w1)"
    by (rule run_prefix[OF assms(1-3) _ assms(9,10)]) (use assms(8) in auto)
  from np have u: "mem_usable (store_at w1)" by (simp add: mem_usable_def)
  from mem_run.yield_step[of ?j env w1 q' request v, unfolded j q', OF refl refl u assms(4,5) q'(4) assms(6)]
  obtain c t0 w2 where st: "seq_step ?j q' w1 = Some (Inr (Break s'), w2)"
    and a: "mem_run.appended t [entry_of (j_args ?j s' gate CheckpointStatus.Yielded (Some request) None) v c t0]
       (store_at w1) (store_at w2)" using assms(7,8) by auto
  have "run env g (memory_checkpointer env) t s start None w = Some (Inr s', w2)"
    unfolding l by (rule seq_loop_step(3)[OF st])
  moreover from mem_appended[OF a] obtain m where
    m: "mem_entry m = entry_of (j_args ?j s' gate CheckpointStatus.Yielded (Some request) None) v c t0"
    and "mem_list (w_store w2) = (mem_list (w_store w1))(t := mem_list (w_store w1) t @ [m])"
    and "\<not> ms_poisoned (w_store w2)" by auto
  moreover have "mc_status m = CheckpointStatus.Yielded \<and> mc_next_node m = gate \<and> mc_state m = v \<and>
     mc_yield_request m = Some request \<and> mc_claimed_interrupt m = None \<and> mc_resolved_interrupt m = None"
    using arg_cong[OF m, of je_status] arg_cong[OF m, of je_next_node] arg_cong[OF m, of je_state]
      arg_cong[OF m, of je_yield_request] arg_cong[OF m, of je_claimed_interrupt]
      arg_cong[OF m, of je_resolved_interrupt]
    by simp
  ultimately show ?thesis using cs by auto
qed

text \<open>C13: when a run reaches a node that yields, after any number of nodes that succeed within the
  budget, it returns the
  state the node was given. Behind the Complete checkpoints of the nodes before it is one more: Yielded,
  at that node, with that state and the request, neither claimed nor resolving anything.\<close>

theorem run_yields:
  assumes "passes (saveable env g) g F start s hops" and "(s', gate) = last ((s, start) # hops)"
    and "hops \<noteq> [] \<longrightarrow> 0 < max_execution_records (g_resource_limits g) \<and> gate \<notin> g_interrupt_before g"
    and "answers g gate None s' (Inl (Yield request))" and "gate \<noteq> end_node"
    and "estimated_size env s' \<le> max_checkpoint_bytes (g_resource_limits g)"
    and "e_to_value env s' = Inr v" and "length hops < max_sequential_steps (g_resource_limits g)"
    and "\<not> ms_poisoned (w_store w)" and "affordable (g_budget_eur g) F (Fin 0) start s hops"
  shows "\<exists>w' cs c. run env g (memory_checkpointer env) t s start None w = Some (Inr s', w') \<and>
     mem_list (w_store w') = (mem_list (w_store w))(t := mem_list (w_store w) t @ cs @ [c]) \<and>
     list_all2 (checkpoint_of env) cs hops \<and> (\<forall>c' \<in> set cs. mc_resolved_interrupt c' = None) \<and>
     mc_status c = CheckpointStatus.Yielded \<and> mc_next_node c = gate \<and> mc_state c = v \<and>
     mc_yield_request c = Some request \<and> mc_claimed_interrupt c = None \<and>
     mc_resolved_interrupt c = None \<and> \<not> ms_poisoned (w_store w')"
  by (rule run_until_yield[OF assms])

theorem run_yields_witness:
  "\<exists>w' c1 c. run sample_env yield_late_graph (memory_checkpointer sample_env) ''t'' 0 ''b'' None
       (sample_world 0 mem_new) = Some (Inr 1, w') \<and>
     mem_list (w_store w') ''t'' = [c1, c] \<and> mc_status c1 = CheckpointStatus.Complete \<and>
     mc_status c = CheckpointStatus.Yielded \<and> mc_next_node c = ''gate''"
proof -
  have p: "passes (saveable sample_env yield_late_graph) yield_late_graph sample_output ''b'' 0 [(1, ''gate'')]"
    using sample_sizes[of 1]
    by (simp add: end_node_def plain_node_def effective_node_budget_def yield_late_graph_def answers_def
        sample_graph_simps gate_graph_def saveable_def sample_enc)
  have e: "e_to_value sample_env 1 = Inr (JNumber (JInt 1))" by (simp add: sample_env_def)
  have a: "answers yield_late_graph ''gate'' None s (Inl (Yield (sample_request ReEntry None)))" for s
    using gate_answers(1)[of s] by (simp add: answers_def yield_late_graph_def add_edge_def)
  have lim: "[(1 :: nat, ''gate'')] \<noteq> [] \<longrightarrow> 0 < max_execution_records (g_resource_limits yield_late_graph) \<and>
      ''gate'' \<notin> g_interrupt_before yield_late_graph"
    and b: "affordable (g_budget_eur yield_late_graph) sample_output (Fin 0) ''b'' 0 [(1, ''gate'')]"
    by (simp_all add: yield_late_graph_def sample_graph_simps gate_graph_def)
  have m: "mem_list mem_new ''t'' = []" "\<not> ms_poisoned mem_new"
    by (simp_all add: mem_new_def mem_list_def)
  have sz: "estimated_size sample_env 1 \<le> max_checkpoint_bytes (g_resource_limits yield_late_graph)"
    "length [(1 :: nat, ''gate'')] < max_sequential_steps (g_resource_limits yield_late_graph)"
    using sample_sizes[of 1] by (simp_all add: yield_late_graph_def sample_graph_simps gate_graph_def)
  from run_yields[OF p _ lim a _ sz(1) e sz(2) _ b, of "sample_world 0 mem_new" "''t''"] m
  show ?thesis by (auto simp: sample_world_def end_node_def list_all2_Cons2 checkpoint_of_def)
qed

section \<open>Resuming with input\<close>

definition input_ok :: "'s env \<Rightarrow> string \<Rightarrow> json \<Rightarrow> YieldRequest \<Rightarrow> bool" where
  "input_ok env i input request \<longleftrightarrow> (\<forall>schema. yr_schema request = Some schema \<longrightarrow>
     validate_input_against_schema env i input schema = Inr ())"

lemma input_ok_lift:
  "input_ok env i input request \<Longrightarrow>
     lift_result (case yr_schema request of None \<Rightarrow> Inr ()
       | Some schema \<Rightarrow> validate_input_against_schema env i input schema) w = Some (Inr (), w)"
  by (auto simp: input_ok_def lift_result_def split: option.splits)

lemma resume_claimed_eq:
  assumes "cm_yield_request meta = Some request" and "yr_interrupt_id request = i"
    and "input_ok env i input request"
  shows "resume_claimed env g ck t i input rctx token s meta w =
     then_ok (case yr_resume_mode request of
         ReEntry \<Rightarrow> run_or_revert env g ck t i token s (cm_next_node meta) request
                     (cm_next_node meta) (Some input) w
       | Handoff \<Rightarrow> run_or_revert env g ck t i token s (cm_next_node meta) request
                     (edge_target g (cm_next_node meta) s) None w)
       (\<lambda>final w. then_ok (audit_resume env g t i meta rctx (compute_response_hash env input) w)
          (\<lambda>_ w. Some (Inr (Some final), w)))"
  using assms by (simp add: resume_claimed_def input_ok_lift Let_def)

lemma audit_ok:
  assumes "0 < max_execution_records (g_resource_limits g)"
  shows "\<exists>w'. audit_resume env g t i meta rctx hash w = Some (Inr (), w') \<and> w_store w' = w_store w"
proof -
  obtain tm w1 where c: "read_clock env w = (tm, w1)" by fastforce
  from quiet_store[OF read_clock_quiet[OF c]] show ?thesis
    using assms by (simp add: audit_resume_def c push_record_def evict_pos Let_def)
qed

lemma resume_job_run_job:
  "resume_job env g (memory_checkpointer env) t token resolved = run_job env g t token resolved"
  by (simp add: resume_job_def run_job_def)

text \<open>What a resume that re-enters a gate leaves behind: the claim on the old checkpoint, then the
  checkpoint of the gate and those of the chain that follows, all of which resolve the interrupt.\<close>

lemma resume_reentry:
  assumes "waiting (w_store w) t i c request" and "yr_resume_mode request = ReEntry"
    and "input_ok env i input request" and "e_from_value env (mc_state c) = Inr s"
    and "answers g (mc_next_node c) (Some input) s (Inr out)"
    and "effective_node_budget g (mc_next_node c) = None"
    and "mc_next_node c \<notin> g_interrupt_after g" and "mc_next_node c \<noteq> end_node"
    and "plain_graph env g N S F" and "\<forall>n. \<forall>s \<in> S n. \<exists>v. e_to_value env s = Inr v"
    and "no_state out \<in> S n" and "n = resolve_next_node g (mc_next_node c) out" and "n \<in> insert end_node N"
    and "max_sequential_steps (g_resource_limits g) = Suc fuel"
    and "ref_run (plain_hop g F) fuel n (no_state out) = (Some final, hops)"
  shows "\<exists>w' cs. resume_with_input env g (memory_checkpointer env) t i input rctx None w =
       Some (Inr (Some final), w') \<and>
     mem_list (w_store w') t = butlast (mem_list (w_store w) t) @ [claimed_checkpoint i c] @ cs \<and>
     list_all2 (checkpoint_of env) cs ((no_state out, n) # hops) \<and>
     (\<forall>c' \<in> set cs. mc_resolved_interrupt c' = Some i) \<and> \<not> ms_poisoned (w_store w')"
proof -
  let ?w = "w\<lparr>w_store := claimed_store (w_store w) t i c\<rparr>" and ?init = "w\<lparr>w_store := claimed_store (w_store w) t i c, w_last_head := None\<rparr>"
  let ?j = "run_job env g t None (Some i)" and ?gate = "mc_next_node c"
  let ?meta = "mc_to_meta t (claimed_checkpoint i c)"
  have j: "j_ck ?j = memory_checkpointer env" "j_token ?j = None" "j_env ?j = env" "j_graph ?j = g"
    "j_thread_id ?j = t" "j_resolved_interrupt ?j = Some i" by (simp_all add: run_job_def)
  have u: "mem_usable (store_at ?init)" using assms(1) by (simp add: waiting_def mem_usable_def)
  have enc: "\<forall>n. \<forall>s \<in> S n. \<exists>v. mem_enc env s = Inr v" using assms(10) by simp
  have nx: "resolve_next_node g ?gate out \<in> insert end_node N" using assms(12,13) by simp
  from mem_run.gate_run[of ?j env ?init N S F ?gate "Some input" s out fuel, unfolded j, OF refl refl u assms(9)
      enc assms(5-8) assms(11)[unfolded assms(12)] nx assms(14) refl]
  obtain w1 es where r: "run_inner ?j s ?gate (Some input) ?init = Some (Inr final, w1)"
    and a: "mem_run.appended t es (store_at ?init) (store_at w1)"
    and lg: "mem_run.logs env ?j es ((no_state out, n) # hops)"
    using assms(12,15) by (auto simp: ref_result_def)
  from mem_appended(1)[OF a] mem_appended(2)[OF a] obtain cs where cs: "es = map mem_entry cs" and np: "\<not> ms_poisoned (w_store w1)"
    and l: "mem_list (w_store w1) t = butlast (mem_list (w_store w) t) @ [claimed_checkpoint i c] @ cs"
    by auto
  have lc: "list_all2 (\<lambda>c h. checkpoint_of env c h \<and> mc_resolved_interrupt c = Some i) cs ((no_state out, n) # hops)"
    using lg unfolding mem_run.logs_def cs list_all2_map1
    by (rule list_all2_mono) (auto simp: mem_run.complete_entry_def checkpoint_of_def j)
  have "list_all2 (checkpoint_of env) cs ((no_state out, n) # hops)"
    and "\<forall>c' \<in> set cs. mc_resolved_interrupt c' = Some i"
    using lc by (auto simp: list_all2_conv_all_nth in_set_conv_nth)
  moreover
  from audit_ok[of g env t i ?meta rctx "compute_response_hash env input" w1] assms(9)
  obtain w' where au: "audit_resume env g t i ?meta rctx (compute_response_hash env input) w1 = Some (Inr (), w')"
    and st: "w_store w' = w_store w1" by (auto simp: plain_graph_def)
  have "run_or_revert env g (memory_checkpointer env) t i None s ?gate request ?gate (Some input) ?w =
      Some (Inr final, w1)"
    using r by (simp add: run_or_revert_def resume_job_run_job)
  then have "resume_with_input env g (memory_checkpointer env) t i input rctx None w = Some (Inr (Some final), w')"
    using assms(1) au
    by (simp add: resume_waiting[OF assms(1,4)] resume_claimed_eq[of _ request i env input]
        assms(2,3) waiting_def)
  ultimately show ?thesis using l np st by auto
qed

text \<open>C14: resuming a waiting thread with an input its schema allows re-enters the node that yielded, gives
  it the input and runs on to the end: the old checkpoint is marked as claimed, every new one resolves
  the interrupt; and repeating the call, with whatever input, returns the same state and changes nothing.\<close>

theorem resume_with_input_completes:
  assumes "waiting (w_store w) t i c request" and "yr_resume_mode request = ReEntry"
    and "input_ok env i input request" and "e_from_value env (mc_state c) = Inr s"
    and "answers g (mc_next_node c) (Some input) s (Inr out)"
    and "effective_node_budget g (mc_next_node c) = None"
    and "mc_next_node c \<notin> g_interrupt_after g" and "mc_next_node c \<noteq> end_node"
    and "plain_graph env g N S F"
    and "\<forall>n. \<forall>s \<in> S n. \<exists>v. e_to_value env s = Inr v \<and> e_from_value env v = Inr s"
    and "no_state out \<in> S n" and "n = resolve_next_node g (mc_next_node c) out" and "n \<in> insert end_node N"
    and "max_sequential_steps (g_resource_limits g) = Suc fuel"
    and "ref_run (plain_hop g F) fuel n (no_state out) = (Some final, hops)"
  shows "\<exists>w' cs. resume_with_input env g (memory_checkpointer env) t i input rctx None w =
       Some (Inr (Some final), w') \<and>
     mem_list (w_store w') t = butlast (mem_list (w_store w) t) @ [claimed_checkpoint i c] @ cs \<and>
     list_all2 (checkpoint_of env) cs ((no_state out, n) # hops) \<and>
     (\<forall>c' \<in> set cs. mc_resolved_interrupt c' = Some i) \<and>
     (\<forall>g' input' rctx2 token'. resume_with_input env g' (memory_checkpointer env) t i input' rctx2 token' w' =
        Some (Inr (Some final), w'))"
proof -
  have enc: "\<forall>n. \<forall>s \<in> S n. \<exists>v. e_to_value env s = Inr v" using assms(10) by blast
  from resume_reentry[OF assms(1-9) enc assms(11-15)] obtain w' cs where
    r: "resume_with_input env g (memory_checkpointer env) t i input rctx None w = Some (Inr (Some final), w')"
    and l: "mem_list (w_store w') t = butlast (mem_list (w_store w) t) @ [claimed_checkpoint i c] @ cs"
    and lc: "list_all2 (checkpoint_of env) cs ((no_state out, n) # hops)"
    and rs: "\<forall>c' \<in> set cs. mc_resolved_interrupt c' = Some i" and np: "\<not> ms_poisoned (w_store w')" by blast
  from lc have ne: "cs \<noteq> []" by auto
  have "checkpoint_of env (last cs) (last ((no_state out, n) # hops))"
    by (rule list_all2_last[OF lc ne])
  then have st: "e_to_value env final = Inr (mc_state (last cs))"
    using ref_run_last[OF assms(15)] by (simp add: checkpoint_of_def)
  have fin: "final \<in> S end_node" by (rule ref_run_final[OF assms(9,13,11,15)])
  obtain v where "e_to_value env final = Inr v" "e_from_value env v = Inr final"
    using assms(10) fin by blast
  with st have dec: "e_from_value env (mc_state (last cs)) = Inr final" by simp
  have lo: "last_opt (mem_list (w_store w') t) = Some (last cs)" using l ne by (simp add: last_opt_def)
  have "last cs \<in> set (mem_list (w_store w') t)" "mc_resolved_interrupt (last cs) = Some i"
    using l ne rs by auto
  from resume_resolved[OF np lo dec this]
  show ?thesis using r l lc rs by blast
qed

theorem resume_with_input_completes_witness:
  "\<exists>w'. resume_with_input sample_env gate_graph (memory_checkpointer sample_env) ''t'' ''i'' JNull
       (resume_context_new ''me'') None (waiting_world ReEntry None) = Some (Inr (Some 3), w') \<and>
     resume_with_input sample_env gate_graph (memory_checkpointer sample_env) ''t'' ''i'' (JBool True)
       (resume_context_new ''you'') None w' = Some (Inr (Some 3), w')"
proof -
  let ?c = "waiting_checkpoint ReEntry None" and ?out = "sample_output ''gate'' 0"
  have n: "''a'' = resolve_next_node gate_graph (mc_next_node ?c) ?out"
    by (simp add: resolve_next_node_def edge_target_def sample_output_def node_output_bare_def)
  have r: "ref_run (plain_hop gate_graph sample_output) 4 ''a'' (no_state ?out) =
      (Some 3, [(2, ''b''), (3, end_node)])"
    using gate_hops by (simp add: sample_output_def node_output_bare_def)
  have a: "answers gate_graph (mc_next_node ?c) (Some JNull) 0 (Inr ?out)"
    using gate_answers(2)[of JNull 0] by simp
  have b: "effective_node_budget gate_graph (mc_next_node ?c) = None"
    by (simp add: effective_node_budget_def)
  have i: "input_ok sample_env ''i'' JNull (sample_request ReEntry None)" by (simp add: input_ok_def)
  have m: "max_sequential_steps (g_resource_limits gate_graph) = Suc 4" by simp
  from resume_with_input_completes[OF waiting_world_waits _ i _ a b _ _ gate_graph_plain sample_decodes _ n _ m r,
      where rctx = "resume_context_new ''me''"]
  obtain w' where "resume_with_input sample_env gate_graph (memory_checkpointer sample_env) ''t'' ''i'' JNull
       (resume_context_new ''me'') None (waiting_world ReEntry None) = Some (Inr (Some 3), w')"
    and "\<And>rctx. resume_with_input sample_env gate_graph (memory_checkpointer sample_env) ''t'' ''i'' (JBool True)
       rctx None w' = Some (Inr (Some 3), w')"
    by (auto simp: end_node_def sample_output_def node_output_bare_def)
  then show ?thesis by blast
qed

section \<open>Resumes that fail\<close>

text \<open>C16: when the input does not satisfy the schema, the claim has already been taken and is not given
  back: the thread stays Running, and every later resume of the interrupt, valid input included, is
  refused as in progress.\<close>

theorem schema_failure_blocks_thread:
  assumes "waiting (w_store w) t i c request" and "e_from_value env (mc_state c) = Inr s"
    and "yr_schema request = Some schema"
    and "validate_input_against_schema env i input schema = Inl e"
  shows "\<exists>w'. resume_with_input env g (memory_checkpointer env) t i input rctx token w = Some (Inl e, w') \<and>
     mem_list (w_store w') t = butlast (mem_list (w_store w) t) @ [claimed_checkpoint i c] \<and>
     (\<forall>g' input' rctx2 token'. resume_with_input env g' (memory_checkpointer env) t i input' rctx2 token' w' =
        Some (Inl (resume_in_progress t i), w'))"
proof -
  let ?w = "w\<lparr>w_store := claimed_store (w_store w) t i c\<rparr>"
  have r: "resume_with_input env g (memory_checkpointer env) t i input rctx token w = Some (Inl e, ?w)"
    using assms(1,3,4)
    by (simp add: resume_waiting[OF assms(1,2)] resume_claimed_def waiting_def lift_result_def)
  have l: "mem_list (w_store ?w) t = butlast (mem_list (w_store w) t) @ [claimed_checkpoint i c]" by simp
  have nr: "\<forall>c' \<in> set (mem_list (w_store ?w) t). mc_resolved_interrupt c' \<noteq> Some i"
    using assms(1) by (auto simp: waiting_def last_opt_def dest: in_set_butlastD split: if_splits)
  have "resume_with_input env g' (memory_checkpointer env) t i input' rctx2 token' ?w =
        Some (Inl (resume_in_progress t i), ?w)" for g' input' rctx2 token'
    by (rule resume_busy[of ?w t "claimed_checkpoint i c" env s i])
       (use assms(1,2) nr in \<open>simp_all add: waiting_def\<close>)
  with r l show ?thesis by blast
qed

definition string_schema :: json where
  "string_schema = JObject [(''type'', JString ''string'')]"

theorem schema_failure_blocks_thread_witness:
  "\<exists>e w'. resume_with_input sample_env gate_graph (memory_checkpointer sample_env) ''t'' ''i'' JNull
       (resume_context_new ''me'') None (waiting_world ReEntry (Some string_schema)) = Some (Inl e, w') \<and>
     resume_with_input sample_env gate_graph (memory_checkpointer sample_env) ''t'' ''i'' (JString ''yes'')
       (resume_context_new ''me'') None w' = Some (Inl (resume_in_progress ''t'' ''i''), w')"
proof -
  obtain e where v: "validate_input_against_schema sample_env ''i'' JNull string_schema = Inl e"
    by (simp add: validate_input_against_schema_def check_type_def string_schema_def type_ok_def)
  have "yr_schema (sample_request ReEntry (Some string_schema)) = Some string_schema"
    "e_from_value sample_env (mc_state (waiting_checkpoint ReEntry (Some string_schema))) = Inr 0" by simp_all
  from schema_failure_blocks_thread[OF waiting_world_waits this(2,1) v, where rctx = "resume_context_new ''me''"
      and token = None and g = gate_graph]
  show ?thesis by blast
qed

lemma mem_revert:
  assumes "\<not> ms_poisoned (w_store w)" and "e_to_value env s = Inr v"
  shows "\<exists>w' c. revert_to_yielded (memory_checkpointer env) t s n request last_head w = Some (Inr (), w') \<and>
     mem_list (w_store w') = (mem_list (w_store w))(t := mem_list (w_store w) t @ [c]) \<and>
     \<not> ms_poisoned (w_store w') \<and> mc_status c = CheckpointStatus.Yielded \<and> mc_state c = v \<and>
     mc_next_node c = n \<and> mc_yield_request c = Some request \<and> mc_claimed_interrupt c = None \<and>
     mc_resolved_interrupt c = None"
proof -
  let ?a = "\<lparr>sa_thread_id = t, sa_state = s, sa_next_node = n, sa_dag = None,
      sa_status = CheckpointStatus.Yielded, sa_yield_request = Some request,
      sa_claimed_interrupt = None, sa_resolved_interrupt = None\<rparr>"
  have u: "mem_usable (store_at w)" using assms(1) by (simp add: mem_usable_def)
  have v: "mem_enc env (sa_state ?a) = Inr v" using assms(2) by simp
  define head where "head = (case last_head of Some head \<Rightarrow> head | None \<Rightarrow> None)"
  from mem_run.save_bound_ok[OF u v, of head] obtain i tm st y
    where sv: "save_bound (memory_checkpointer env) ?a head w = Some (Inr i, w\<lparr>w_store := st, w_sys := y\<rparr>)"
    and a: "mem_run.appended t [entry_of ?a v i tm] (store_at w) (st, y)" by auto
  from mem_appended(2)[OF a] obtain c where c: "mem_entry c = entry_of ?a v i tm"
    and l: "mem_list st = (mem_list (w_store w))(t := mem_list (w_store w) t @ [c])" by auto
  have "revert_to_yielded (memory_checkpointer env) t s n request last_head w =
      Some (Inr (), w\<lparr>w_store := st, w_sys := y\<rparr>)"
    using sv by (cases last_head) (simp_all add: revert_to_yielded_def head_def
        mem_run.head_default default_current_head_def on_store_def)
  moreover have "mc_status c = CheckpointStatus.Yielded \<and> mc_state c = v \<and>
     mc_next_node c = n \<and> mc_yield_request c = Some request \<and> mc_claimed_interrupt c = None \<and>
     mc_resolved_interrupt c = None"
    using arg_cong[OF c, of je_status] arg_cong[OF c, of je_state] arg_cong[OF c, of je_next_node]
      arg_cong[OF c, of je_yield_request] arg_cong[OF c, of je_claimed_interrupt]
      arg_cong[OF c, of je_resolved_interrupt] by simp
  ultimately show ?thesis
    using l mem_appended(1)[OF a]
    by (intro exI[of _ "w\<lparr>w_store := st, w_sys := y\<rparr>"] exI[of _ c]) simp
qed

text \<open>C17: when the run of a resume fails with an error, whether it re-enters the node or hands off to the
  target of its edge, the resume fails with that error and the thread is put back: its last checkpoint is
  again Yielded at the same node with the same state and the same request, and without a claim. If the
  run had written no checkpoint the thread waits for the interrupt as before; if it had, the interrupt
  counts as resolved, and every later resume reports success with the state from before the resume,
  without running anything.\<close>

theorem resume_failure_rollback:
  assumes "waiting (w_store w) t i c request"
    and "(start, given) = (case yr_resume_mode request of ReEntry \<Rightarrow> (mc_next_node c, Some input)
       | Handoff \<Rightarrow> (edge_target g (mc_next_node c) s, None))"
    and "input_ok env i input request" and "e_from_value env (mc_state c) = Inr s"
    and "e_to_value env s = Inr (mc_state c)"
    and "run_inner (run_job env g t token (Some i)) s start given
       (w\<lparr>w_store := claimed_store (w_store w) t i c, w_last_head := None\<rparr>) = Some (Inl e, w1)"
  shows "\<exists>w' c'. resume_with_input env g (memory_checkpointer env) t i input rctx token w = Some (Inl e, w') \<and>
     last_opt (mem_list (w_store w') t) = Some c' \<and> mc_next_node c' = mc_next_node c \<and>
     mc_state c' = mc_state c \<and> mc_status c' = CheckpointStatus.Yielded \<and>
     mc_yield_request c' = Some request \<and> mc_claimed_interrupt c' = None \<and>
     (if mem_list (w_store w1) t = butlast (mem_list (w_store w) t) @ [claimed_checkpoint i c]
      then waiting (w_store w') t i c' request
      else (\<forall>g' input' rctx2 token'. resume_with_input env g' (memory_checkpointer env) t i input' rctx2 token' w' =
        Some (Inr (Some s), w')))"
proof -
  let ?init = "w\<lparr>w_store := claimed_store (w_store w) t i c, w_last_head := None\<rparr>"
  let ?j = "run_job env g t token (Some i)" and ?meta = "mc_to_meta t (claimed_checkpoint i c)"
  have j: "j_ck ?j = memory_checkpointer env" "j_thread_id ?j = t" "j_resolved_interrupt ?j = Some i"
    by (simp_all add: run_job_def)
  have u: "mem_usable (store_at ?init)" using assms(1) by (simp add: waiting_def mem_usable_def)
  from mem_run.run_inner_ok[OF j(1) mem_steady u assms(6)] obtain es
    where a: "mem_run.appended t es (store_at ?init) (store_at w1)"
    and en: "mem_run.run_entries env ?j s (Inl e) es" by (auto simp: j)
  from mem_appended(2)[OF a] obtain cs where cs: "es = map mem_entry cs"
    and l1: "mem_list (w_store w1) t = butlast (mem_list (w_store w) t) @ [claimed_checkpoint i c] @ cs" by auto
  have rs: "\<forall>c \<in> set cs. mc_resolved_interrupt c = Some i"
    using en by (auto simp: mem_run.run_entries_def cs mem_run.complete_entry_def j)
  from mem_revert[OF mem_appended(1)[OF a] assms(5), of t "mc_next_node c" request "w_last_head w1"]
  obtain w' c' where rv: "revert_to_yielded (memory_checkpointer env) t s (mc_next_node c) request (w_last_head w1) w1 =
        Some (Inr (), w')"
    and l: "mem_list (w_store w') t = mem_list (w_store w1) t @ [c']" and np: "\<not> ms_poisoned (w_store w')"
    and c': "mc_status c' = CheckpointStatus.Yielded" "mc_state c' = mc_state c" "mc_next_node c' = mc_next_node c"
      "mc_yield_request c' = Some request" "mc_claimed_interrupt c' = None" "mc_resolved_interrupt c' = None" by auto
  have "run_or_revert env g (memory_checkpointer env) t i token s (mc_next_node c) request start
      given (w\<lparr>w_store := claimed_store (w_store w) t i c\<rparr>) = Some (Inl e, w')"
    using assms(6) rv by (simp add: run_or_revert_def resume_job_run_job)
  then have r: "resume_with_input env g (memory_checkpointer env) t i input rctx token w = Some (Inl e, w')"
    using assms(1,2) by (cases "yr_resume_mode request")
       (simp_all add: resume_waiting[OF assms(1,4)] resume_claimed_eq[of _ request i env input] assms(3) waiting_def)
  have lo: "last_opt (mem_list (w_store w') t) = Some c'" by (simp add: l)
  have "waiting (w_store w') t i c' request" if "cs = []"
    using assms(1) np c' lo that
    by (auto simp: waiting_def l l1 last_opt_def dest: in_set_butlastD split: if_splits)
  moreover have "resume_with_input env g' (memory_checkpointer env) t i input' rctx2 token' w' =
      Some (Inr (Some s), w')" if ne: "cs \<noteq> []" for g' input' rctx2 token'
  proof -
    have "last cs \<in> set (mem_list (w_store w') t)" "mc_resolved_interrupt (last cs) = Some i"
      using ne rs by (simp_all add: l l1)
    from resume_resolved[OF np lo _ this] show ?thesis using assms(4) c'(2) by simp
  qed
  moreover have "mem_list (w_store w1) t = butlast (mem_list (w_store w) t) @ [claimed_checkpoint i c] \<longleftrightarrow> cs = []"
    by (simp add: l1)
  ultimately show ?thesis using r lo c' by (intro exI[of _ w'] exI[of _ c']) auto
qed

text \<open>C18: a handoff from a node without an outgoing edge ends at once and writes no checkpoint: the thread
  stays claimed and Running although the resume reported success, and repeating the resume is refused
  as in progress instead of returning the state.\<close>

theorem handoff_to_end_unresolved:
  assumes "waiting (w_store w) t i c request" and "yr_resume_mode request = Handoff"
    and "input_ok env i input request" and "e_from_value env (mc_state c) = Inr s"
    and "g_edges g (mc_next_node c) = None" and "0 < max_sequential_steps (g_resource_limits g)"
    and "0 < max_execution_records (g_resource_limits g)"
  shows "\<exists>w'. resume_with_input env g (memory_checkpointer env) t i input rctx token w =
       Some (Inr (Some s), w') \<and>
     mem_list (w_store w') t = butlast (mem_list (w_store w) t) @ [claimed_checkpoint i c] \<and>
     (\<forall>g' input' rctx2 token'. resume_with_input env g' (memory_checkpointer env) t i input' rctx2 token' w' =
        Some (Inl (resume_in_progress t i), w'))"
proof -
  let ?w = "w\<lparr>w_store := claimed_store (w_store w) t i c\<rparr>" and ?meta = "mc_to_meta t (claimed_checkpoint i c)"
  let ?j = "run_job env g t token (Some i)"
  have "\<exists>w1. run_inner ?j s end_node None (?w\<lparr>w_last_head := None\<rparr>) = Some (Inr s, w1) \<and>
      w_store w1 = w_store ?w"
    unfolding run_inner_mem using assms(6) by (subst seq_loop_end) (simp_all add: seq_start_def run_job_def)
  then obtain w1 where r: "run_inner ?j s end_node None (?w\<lparr>w_last_head := None\<rparr>) = Some (Inr s, w1)"
    and st1: "w_store w1 = w_store ?w" by blast
  from audit_ok[OF assms(7), of env t i ?meta rctx "compute_response_hash env input" w1] obtain w'
    where au: "audit_resume env g t i ?meta rctx (compute_response_hash env input) w1 = Some (Inr (), w')"
    and st: "w_store w' = w_store ?w" using st1 by auto
  have "run_or_revert env g (memory_checkpointer env) t i token s (mc_next_node c) request
      (edge_target g (mc_next_node c) s) None ?w = Some (Inr s, w1)"
    using r by (simp add: run_or_revert_def resume_job_run_job edge_target_def assms(5))
  then have res: "resume_with_input env g (memory_checkpointer env) t i input rctx token w = Some (Inr (Some s), w')"
    using assms(1) au by (simp add: resume_waiting[OF assms(1,4)] resume_claimed_eq[of _ request i env input]
        assms(2,3) waiting_def)
  have l: "mem_list (w_store w') t = butlast (mem_list (w_store w) t) @ [claimed_checkpoint i c]"
    by (simp add: st)
  have nr: "\<forall>c' \<in> set (mem_list (w_store w') t). mc_resolved_interrupt c' \<noteq> Some i"
    using assms(1) by (auto simp: st waiting_def last_opt_def dest: in_set_butlastD split: if_splits)
  have "resume_with_input env g' (memory_checkpointer env) t i input' rctx2 token' w' =
        Some (Inl (resume_in_progress t i), w')" for g' input' rctx2 token'
    by (rule resume_busy[of w' t "claimed_checkpoint i c" env s i])
       (use assms(1,4) nr st in \<open>simp_all add: waiting_def\<close>)
  with res l show ?thesis by blast
qed

text \<open>A graph whose edge leads to a node that it does not have.\<close>

definition stray_graph :: "(nat, nat) graph" where
  "stray_graph = add_edge ''gate'' ''gate'' graph_new"

theorem resume_failure_rollback_witness:
  "\<forall>mode. \<exists>w' c'. resume_with_input sample_env stray_graph (memory_checkpointer sample_env) ''t'' ''i'' JNull
       (resume_context_new ''me'') None (waiting_world mode None) = Some (Inl (NodeNotFound ''gate''), w') \<and>
     waiting (w_store w') ''t'' ''i'' c' (sample_request mode None)"
proof
  fix mode
  let ?c = "waiting_checkpoint mode None" and ?given = "if mode = ReEntry then Some JNull else None"
  let ?j = "run_job sample_env stray_graph ''t'' None (Some ''i'')"
  let ?init = "(waiting_world mode None)\<lparr>w_store :=
      claimed_store (w_store (waiting_world mode None)) ''t'' ''i'' ?c, w_last_head := None\<rparr>"
  have "seq_step ?j (seq_start 0 ''gate'' ?given None) (?init\<lparr>w_last_head := Some None\<rparr>) =
      Some (Inl (NodeNotFound ''gate''), ?init\<lparr>w_last_head := Some None\<rparr>)"
    by (simp add: seq_step_def run_job_def seq_start_def Let_def end_node_def seq_execute_def find_node_def
        stray_graph_def add_edge_def graph_new_def resource_limits_default_def)
  then have r: "run_inner ?j 0 ''gate'' ?given ?init =
      Some (Inl (NodeNotFound ''gate''), ?init\<lparr>w_last_head := Some None\<rparr>)"
    unfolding run_inner_mem by (simp add: seq_loop_step(2))
  have m: "(''gate'', ?given) = (case yr_resume_mode (sample_request mode None) of
      ReEntry \<Rightarrow> (mc_next_node ?c, Some JNull) | Handoff \<Rightarrow> (edge_target stray_graph (mc_next_node ?c) 0, None))"
    by (cases mode) (simp_all add: edge_target_def stray_graph_def add_edge_def)
  have e: "e_to_value sample_env 0 = Inr (mc_state ?c)" by (simp add: sample_env_def)
  have i: "input_ok sample_env ''i'' JNull (sample_request mode None)" by (simp add: input_ok_def)
  have l: "mem_list (w_store (?init\<lparr>w_last_head := Some None\<rparr>)) ''t'' =
      butlast (mem_list (w_store (waiting_world mode None)) ''t'') @ [claimed_checkpoint ''i'' ?c]" by simp
  have d: "e_from_value sample_env (mc_state ?c) = Inr 0" by simp
  from resume_failure_rollback[OF waiting_world_waits m i d e r, where rctx = "resume_context_new ''me''"]
  show "\<exists>w' c'. resume_with_input sample_env stray_graph (memory_checkpointer sample_env) ''t'' ''i'' JNull
       (resume_context_new ''me'') None (waiting_world mode None) = Some (Inl (NodeNotFound ''gate''), w') \<and>
     waiting (w_store w') ''t'' ''i'' c' (sample_request mode None)"
    unfolding l if_P[OF refl] by blast
qed

theorem handoff_to_end_unresolved_witness:
  "\<exists>w'. resume_with_input sample_env graph_new (memory_checkpointer sample_env) ''t'' ''i'' JNull
       (resume_context_new ''me'') None (waiting_world Handoff None) = Some (Inr (Some 0), w') \<and>
     resume_with_input sample_env graph_new (memory_checkpointer sample_env) ''t'' ''i'' JNull
       (resume_context_new ''me'') None w' = Some (Inl (resume_in_progress ''t'' ''i''), w')"
proof -
  have e: "g_edges (graph_new :: (nat, nat) graph) (mc_next_node (waiting_checkpoint Handoff None)) = None"
    and n: "0 < max_sequential_steps (g_resource_limits (graph_new :: (nat, nat) graph))"
      "0 < max_execution_records (g_resource_limits (graph_new :: (nat, nat) graph))"
    by (simp_all add: graph_new_def resource_limits_default_def)
  have i: "input_ok sample_env ''i'' JNull (sample_request Handoff None)"
    and d: "e_from_value sample_env (mc_state (waiting_checkpoint Handoff None)) = Inr 0"
    and m: "yr_resume_mode (sample_request Handoff None) = Handoff" by (simp_all add: input_ok_def)
  from handoff_to_end_unresolved[OF waiting_world_waits m i d e n,
      where rctx = "resume_context_new ''me''" and token = None]
  show ?thesis by blast
qed

end
