(* ===== verification/Step_Properties.thy ===== *)
theory Step_Properties
  imports Hitl_Properties
begin

text \<open>
  Properties of single steps of the sequential runner: budgets, declared interrupts, the policies of
  crash recovery, execution identifiers, timeouts, child nodes and the schema check.
\<close>

lemma sample_step:
  "\<exists>q' w'. seq_step (run_job sample_env (sample_graph 3) ''t'' None None) (seq_start 0 ''a'' None None)
     (sample_world 0 mem_new) = Some (Inr (Continue q'), w')"
proof -
  let ?j = "run_job sample_env (sample_graph 3) ''t'' None None"
  have j: "j_ck ?j = memory_checkpointer sample_env" "j_token ?j = None" "j_env ?j = sample_env"
    "j_graph ?j = sample_graph 3" by (simp_all add: run_job_def)
  have "mem_usable (store_at (sample_world (0 :: nat) mem_new))"
    by (simp add: mem_usable_def sample_world_def mem_new_def)
  from mem_run.plain_step[of ?j sample_env "sample_world 0 mem_new" "{''a'', ''b''}" "\<lambda>_. {..100}" sample_output
      "seq_start 0 ''a'' None None", unfolded j, OF refl refl this sample_graph_plain]
  show ?thesis using sample_enc by (auto simp: seq_start_def)
qed

section \<open>Budgets\<close>

lemma seq_node_budget_passes:
  "seq_node_budget j n ms m w = Some (Inr (), w') \<Longrightarrow> effective_node_budget (j_graph j) n = Some b \<Longrightarrow>
     \<not> fgt (cost_or_zero m) b"
  by (auto simp: seq_node_budget_def split: if_splits)

lemma seq_run_budget_passes:
  "seq_run_budget j n a ms m c w = Some (Inr (), w') \<Longrightarrow> g_budget_eur (j_graph j) = Some b \<Longrightarrow> \<not> fgt c b"
  by (auto simp: seq_run_budget_def split: if_splits)

lemma seq_success_budget:
  assumes "seq_success j q t a out w = Some (Inr fl, w')"
  shows "cost_within (cost_or_zero (no_meta out)) (effective_node_budget (j_graph j) (q_current q)) \<and>
     cost_within (fadd (q_running_cost q) (cost_or_zero (no_meta out))) (g_budget_eur (j_graph j)) \<and>
     (\<forall>q'. fl = Continue q' \<longrightarrow> q_running_cost q' = fadd (q_running_cost q) (cost_or_zero (no_meta out)))"
  using assms
  by (auto simp: seq_success_def Let_def then_ok_Some cost_within_def seq_advance_def
      split: prod.splits option.splits if_splits dest: seq_node_budget_passes seq_run_budget_passes)

lemma seq_result_continue:
  "seq_result j q t a res w = Some (Inr (Continue q'), w') \<Longrightarrow>
     \<exists>out. res = Inr out \<and> seq_success j q t a out w = Some (Inr (Continue q'), w')"
  by (induction j q t a res w rule: seq_result.induct)
     (auto simp: seq_yield_def then_ok_Some Let_def split: prod.splits)

text \<open>A run goes on to the next node only after a node whose cost is within the node's budget and
  with which the accumulated cost of the run is within the budget of the graph.\<close>

theorem budget_enforced:
  assumes "seq_step j q w = Some (Inr (Continue q'), w')"
  shows "\<exists>cost. q_running_cost q' = fadd (q_running_cost q) cost \<and>
     cost_within cost (effective_node_budget (j_graph j) (q_current q)) \<and>
     cost_within (q_running_cost q') (g_budget_eur (j_graph j))"
proof -
  let ?q = "q\<lparr>q_step_count := Suc (q_step_count q), q_first := False\<rparr>"
  have "seq_execute j ?q w = Some (Inr (Continue q'), w')"
    using assms by (auto simp: seq_step_def Let_def seq_end_def seq_interrupt_def then_ok_Some split: if_splits)
  then obtain t a res w1 where "seq_result j (?q\<lparr>q_input := None\<rparr>) t a res w1 = Some (Inr (Continue q'), w')"
    by (auto simp: seq_execute_def Let_def split: option.splits prod.splits sum.splits)
  then obtain out where "seq_success j (?q\<lparr>q_input := None\<rparr>) t a out w1 = Some (Inr (Continue q'), w')"
    by (blast dest: seq_result_continue)
  from seq_success_budget[OF this] show ?thesis
    by (intro exI[of _ "cost_or_zero (no_meta out)"]) simp
qed

theorem budget_enforced_witness:
  "\<exists>q' w'. seq_step (run_job sample_env (sample_graph 3) ''t'' None None) (seq_start 0 ''a'' None None)
     (sample_world 0 mem_new) = Some (Inr (Continue q'), w') \<and>
     cost_within (q_running_cost q') (g_budget_eur (sample_graph 3))"
proof -
  obtain q' w' where st: "seq_step (run_job sample_env (sample_graph 3) ''t'' None None)
      (seq_start 0 ''a'' None None) (sample_world 0 mem_new) = Some (Inr (Continue q'), w')"
    using sample_step by blast
  from budget_enforced[OF st] st show ?thesis by (auto simp: run_job_def)
qed

text \<open>Once the accumulated cost is a NaN it stays one and no budget is ever exceeded again.\<close>

theorem nan_cost_disables_budget:
  "fadd NaN cost = NaN \<and> seq_run_budget j name attempt ms meta (fadd NaN cost) w = Some (Inr (), w)"
  by (simp add: seq_run_budget_def split: option.splits)

section \<open>Declared interrupts\<close>

text \<open>A declared interrupt before a node that is not the first of the run stops the run before the node
  is called: the outside world is untouched, and one Interrupted checkpoint is appended with the state
  and the node to resume at.\<close>

theorem interrupt_before_stops:
  assumes "\<not> q_first q" and "q_current q \<in> g_interrupt_before g" and "q_current q \<noteq> end_node"
    and "q_step_count q < max_sequential_steps (g_resource_limits g)"
    and "estimated_size env (q_state q) \<le> max_checkpoint_bytes (g_resource_limits g)"
    and "e_to_value env (q_state q) = Inr v" and "\<not> ms_poisoned (w_store w)"
  shows "\<exists>w' c. seq_step (run_job env g t token resolved) q w = Some (Inr (Break (q_state q)), w') \<and>
     w_ext w' = w_ext w \<and> mem_list (w_store w') t = mem_list (w_store w) t @ [c] \<and>
     mc_status c = CheckpointStatus.Interrupted \<and> mc_next_node c = q_current q \<and> mc_state c = v \<and> \<not> ms_poisoned (w_store w')"
proof -
  let ?j = "run_job env g t token resolved" and ?q = "q\<lparr>q_step_count := Suc (q_step_count q)\<rparr>"
  have j: "j_ck ?j = memory_checkpointer env" "j_env ?j = env" "j_graph ?j = g"
    "j_thread_id ?j = t" "j_resolved_interrupt ?j = resolved" by (simp_all add: run_job_def)
  have u: "mem_usable (store_at w)" using assms(7) by (simp add: mem_usable_def)
  have v: "mem_enc env (q_state q) = Inr v" using assms(6) by simp
  from mem_run.j_save_ok[of ?j env w "q_state q" v "q_current q" CheckpointStatus.Interrupted None resolved
      "q_expected_head q", OF j(1) u v] assms(5) obtain c tm st y where
    sv: "j_save ?j (q_state q) (q_current q) CheckpointStatus.Interrupted None resolved (q_expected_head q) w =
      Some (Inr c, w\<lparr>w_store := st, w_sys := y\<rparr>)"
    and a: "mem_run.appended t [entry_of (j_args ?j (q_state q) (q_current q) CheckpointStatus.Interrupted
      None resolved) v c tm] (store_at w) (st, y)" by (auto simp: j)
  have "seq_step ?j q w = Some (Inr (Break (q_state q)), w\<lparr>w_store := st, w_sys := y\<rparr>)"
    using assms(1-4) sv by (simp add: seq_step_def j Let_def seq_interrupt_def)
  moreover from mem_appended[OF a] obtain m where
    m: "mem_entry m = entry_of (j_args ?j (q_state q) (q_current q) CheckpointStatus.Interrupted None resolved) v c tm"
    and "mem_list st t = mem_list (w_store w) t @ [m]" and "\<not> ms_poisoned st" by auto
  moreover have "mc_status m = CheckpointStatus.Interrupted \<and> mc_next_node m = q_current q \<and> mc_state m = v"
    using arg_cong[OF m, of je_status] arg_cong[OF m, of je_next_node] arg_cong[OF m, of je_state] by simp
  ultimately show ?thesis
    by (intro exI[of _ "w\<lparr>w_store := st, w_sys := y\<rparr>"] exI[of _ m]) simp
qed

section \<open>Paths\<close>

text \<open>A run whose path leads to the end.\<close>

lemma run_path:
  assumes "passes (saveable env g) g F start s hops" and "last ((s, start) # hops) = (s', end_node)"
    and "affordable (g_budget_eur g) F (Fin 0) start s hops" and "0 < max_execution_records (g_resource_limits g)"
    and "length hops < max_sequential_steps (g_resource_limits g)" and "\<not> ms_poisoned (w_store w)"
  shows "\<exists>w'. run_inner (run_job env g t None resolved) s start None w = Some (Inr s', w')"
proof -
  let ?j = "run_job env g t None resolved" and ?q = "seq_start s start None None"
  let ?w = "w\<lparr>w_last_head := Some None\<rparr>"
  have j: "j_ck ?j = memory_checkpointer env" "j_token ?j = None" "j_env ?j = env" "j_graph ?j = g"
    "j_thread_id ?j = t" by (simp_all add: run_job_def)
  have q: "q_current ?q = start" "q_input ?q = None" "q_state ?q = s" "q_step_count ?q = 0"
    "q_running_cost ?q = Fin 0" by (simp_all add: seq_start_def)
  have u: "mem_usable (store_at ?w)" using assms(6) by (simp add: mem_usable_def)
  have ok: "(\<exists>v. mem_enc env x = Inr v) \<and> estimated_size env x \<le> max_checkpoint_bytes (g_resource_limits g)"
    if "saveable env g x" for x using that by (simp add: saveable_def)
  from mem_run.passes_loop[of ?j env "saveable env g" ?w F ?q hops, unfolded j q, OF refl refl assms(4) ok u
      assms(1,3)] assms(2,5) obtain q' w1
    where l: "seq_loop ?j ?q ?w = seq_loop ?j q' w1" and q': "q_state q' = s'" "q_current q' = end_node"
      "q_step_count q' = length hops" by auto
  have "\<exists>w'. seq_loop ?j q' w1 = Some (Inr s', w')"
    using assms(5) by (subst seq_loop_end) (simp_all add: q' j)
  with l show ?thesis unfolding run_inner_mem by simp
qed

text \<open>A resume that is not a crash recovery runs on from the node the checkpoint names.\<close>

lemma resume_path:
  assumes "last_opt (mem_list (w_store w) t) = Some c" and "\<not> ms_poisoned (w_store w)"
    and "e_from_value env (mc_state c) = Inr s" and "mc_status c \<noteq> CheckpointStatus.Running"
    and "passes (saveable env g) g F (mc_next_node c) s hops"
    and "last ((s, mc_next_node c) # hops) = (s', end_node)"
    and "affordable (g_budget_eur g) F (Fin 0) (mc_next_node c) s hops"
    and "0 < max_execution_records (g_resource_limits g)"
    and "length hops < max_sequential_steps (g_resource_limits g)"
  shows "\<exists>w'. resume env g (memory_checkpointer env) t None w = Some (Inr (Some s'), w')"
proof -
  have "\<exists>w'. run_inner (run_job env g t None (mc_claimed_interrupt c)) s (mc_next_node c) None
      (w\<lparr>w_last_head := None\<rparr>) = Some (Inr s', w')"
    by (rule run_path[OF assms(5-9)]) (use assms(2) in simp)
  then show ?thesis
    using assms(4) by (auto simp: resume_def resume_with_def mem_load_last[OF assms(2,1,3)] Let_def
        resume_run_def resume_job_run_job)
qed

text \<open>The first step of a run at a node that succeeds.\<close>

lemma first_step:
  assumes "plain_node g' {s} F start" and "start \<noteq> end_node" and "plain_hop g' F start s = (s', n')"
    and "g_nodes g = g_nodes g'" and "g_edges g = g_edges g'" and "g_dynamic_nodes g = g_dynamic_nodes g'"
    and "g_node_configs g = g_node_configs g'"
    and "cost_within (fadd (Fin 0) (cost_or_zero (no_meta (F start s)))) (g_budget_eur g)"
    and "0 < max_execution_records (g_resource_limits g)"
    and "0 < max_sequential_steps (g_resource_limits g)" and "saveable env g s'"
    and "\<not> ms_poisoned (w_store w)"
  shows "\<exists>fl w1 c. seq_step (run_job env g t None None) (seq_start s start None None) w = Some (Inr fl, w1) \<and>
     (if start \<in> g_interrupt_after g then fl = Break s'
      else \<exists>q'. fl = Continue q' \<and> q_state q' = s' \<and> q_current q' = n' \<and> \<not> q_first q' \<and> q_step_count q' = 1) \<and>
     mem_list (w_store w1) t = mem_list (w_store w) t @ [c] \<and> checkpoint_of env c (s', n') \<and>
     \<not> ms_poisoned (w_store w1)"
proof -
  let ?j = "run_job env g t None None" and ?q = "seq_start s start None None" and ?out = "F start s"
  have j: "j_ck ?j = memory_checkpointer env" "j_token ?j = None" "j_env ?j = env" "j_graph ?j = g"
    "j_thread_id ?j = t" by (simp_all add: run_job_def)
  have q: "q_current ?q = start" "q_input ?q = None" "q_state ?q = s" "q_first ?q" "q_step_count ?q = 0"
    "q_running_cost ?q = Fin 0" by (simp_all add: seq_start_def)
  have u: "mem_usable (store_at w)" using assms(12) by (simp add: mem_usable_def)
  have hop: "no_state ?out = s'" "resolve_next_node g start ?out = n'"
  proof -
    have "edge_target g = edge_target g'" by (intro ext) (simp add: edge_target_def assms(5))
    with assms(3) show "no_state ?out = s'" "resolve_next_node g start ?out = n'"
      by (auto simp: plain_hop_def resolve_next_node_def split: option.splits)
  qed
  have ans: "answers g start None s (Inr ?out)" and nb: "effective_node_budget g start = None"
    using assms(1,4,6,7)
    by (simp_all add: plain_node_def answers_def effective_node_budget_def cong: option.case_cong)
  obtain v where v: "mem_enc env s' = Inr v" and sz: "estimated_size env s' \<le> max_checkpoint_bytes (g_resource_limits g)"
    using assms(11) by (auto simp: saveable_def)
  from mem_run.success_flow[of ?j env w ?q ?out v, unfolded j q hop, OF refl refl u ans assms(8) nb assms(9,2) _ sz v
      assms(10)] q(4)
  obtain fl w1 c0 t0 where st: "seq_step ?j ?q w = Some (Inr fl, w1)"
    and a: "mem_run.appended t [entry_of (j_args ?j s' n' CheckpointStatus.Complete None
       (j_resolved_interrupt ?j)) v c0 t0] (store_at w) (store_at w1)"
    and fl: "if start \<in> g_interrupt_after g then fl = Break s'
      else \<exists>q'. fl = Continue q' \<and> q_state q' = s' \<and> q_input q' = None \<and> \<not> q_first q' \<and> q_current q' = n'"
    by (auto split: if_splits)
  from mem_appended[OF a] obtain m where
    m: "mem_entry m = entry_of (j_args ?j s' n' CheckpointStatus.Complete None (j_resolved_interrupt ?j)) v c0 t0"
    and l: "mem_list (w_store w1) t = mem_list (w_store w) t @ [m]" and np: "\<not> ms_poisoned (w_store w1)" by auto
  have "checkpoint_of env m (s', n')"
    using arg_cong[OF m, of je_status] arg_cong[OF m, of je_next_node] arg_cong[OF m, of je_state] v
    by (simp add: checkpoint_of_def)
  moreover have "q_step_count q' = 1" if "fl = Continue q'" for q'
    using seq_step_count[OF st[unfolded that]] q(5) by simp
  ultimately show ?thesis using st fl l np by (intro exI[of _ fl] exI[of _ w1] exI[of _ m]) auto
qed

text \<open>The interrupted run stops after its first node, and the checkpoint it leaves names the next one.\<close>

lemma stopped_run:
  assumes "passes (saveable env g) g F start s ((s', n') # hops)" and "n' \<noteq> end_node"
    and "affordable (g_budget_eur g) F (Fin 0) start s ((s', n') # hops)"
    and "0 < max_execution_records (g_resource_limits g)"
    and "Suc (length hops) < max_sequential_steps (g_resource_limits g)" and "\<not> ms_poisoned (w_store w)"
    and "g' \<in> {add_interrupt_after start g, add_interrupt_before n' g}"
  shows "\<exists>w' c. run env g' (memory_checkpointer env) t s start None w = Some (Inr s', w') \<and>
     last_opt (mem_list (w_store w') t) = Some c \<and> \<not> ms_poisoned (w_store w') \<and>
     e_to_value env s' = Inr (mc_state c) \<and> mc_next_node c = n' \<and> mc_status c \<noteq> CheckpointStatus.Running"
proof -
  let ?j = "run_job env g' t None None" and ?q = "seq_start s start None None"
  let ?w = "w\<lparr>w_last_head := Some None\<rparr>"
  have first: "plain_node g {s} F start" "start \<noteq> end_node" "plain_hop g F start s = (s', n')"
    "saveable env g s'" using assms(1) by simp_all
  have g': "g_nodes g' = g_nodes g" "g_edges g' = g_edges g" "g_dynamic_nodes g' = g_dynamic_nodes g"
    "g_node_configs g' = g_node_configs g" "g_resource_limits g' = g_resource_limits g"
    using assms(7) by (auto simp: add_interrupt_after_def add_interrupt_before_def)
  have b: "cost_within (fadd (Fin 0) (cost_or_zero (no_meta (F start s)))) (g_budget_eur g')"
    using assms(3,7) by (auto simp: add_interrupt_after_def add_interrupt_before_def)
  have lim: "0 < max_execution_records (g_resource_limits g')" "0 < max_sequential_steps (g_resource_limits g')"
    "saveable env g' s'" "\<not> ms_poisoned (w_store ?w)"
    using assms(4,5,6) first(4) g'(5) by (simp_all add: saveable_def)
  from first_step[OF first(1-3) g'(1-4) b lim, of t] obtain fl w2 c
    where st: "seq_step ?j ?q ?w = Some (Inr fl, w2)"
    and fl: "if start \<in> g_interrupt_after g' then fl = Break s'
      else \<exists>q'. fl = Continue q' \<and> q_state q' = s' \<and> q_current q' = n' \<and> \<not> q_first q' \<and> q_step_count q' = 1"
    and c: "mem_list (w_store w2) t = mem_list (w_store w) t @ [c]" "checkpoint_of env c (s', n')"
      "\<not> ms_poisoned (w_store w2)" by auto
  show ?thesis
  proof (cases "start \<in> g_interrupt_after g'")
    case True
    then have "run env g' (memory_checkpointer env) t s start None w = Some (Inr s', w2)"
      unfolding run_eq run_inner_mem using fl by (intro seq_loop_step(3)) (simp add: st)
    with c show ?thesis by (intro exI[of _ w2] exI[of _ c]) (simp add: last_opt_def checkpoint_of_def)
  next
    case False
    with fl obtain q' where q': "fl = Continue q'" "q_state q' = s'" "q_current q' = n'" "\<not> q_first q'"
      "q_step_count q' = 1" by auto
    from False assms(7) have pre: "g' = add_interrupt_before n' g" by (auto simp: add_interrupt_after_def)
    obtain v where v: "e_to_value env s' = Inr v" using lim(3) by (auto simp: saveable_def)
    have q2: "q_current q' \<in> g_interrupt_before g'" "q_current q' \<noteq> end_node"
      "q_step_count q' < max_sequential_steps (g_resource_limits g')"
      "estimated_size env (q_state q') \<le> max_checkpoint_bytes (g_resource_limits g')"
      "e_to_value env (q_state q') = Inr v"
      using q' assms(2,5) g'(5) lim(3) v by (simp_all add: pre add_interrupt_before_def saveable_def)
    from interrupt_before_stops[OF q'(4) q2 c(3), of t None None] obtain w3 c3
      where st3: "seq_step ?j q' w2 = Some (Inr (Break s'), w3)"
      and c3: "mem_list (w_store w3) t = mem_list (w_store w2) t @ [c3]" "mc_status c3 = CheckpointStatus.Interrupted"
        "mc_next_node c3 = n'" "mc_state c3 = v" "\<not> ms_poisoned (w_store w3)" by (auto simp: q')
    have "run env g' (memory_checkpointer env) t s start None w = Some (Inr s', w3)"
      by (simp add: run_eq run_inner_mem seq_loop_step(4)[OF st[unfolded q'(1)]] seq_loop_step(3)[OF st3])
    with c3 v show ?thesis by (intro exI[of _ w3] exI[of _ c3]) (simp add: last_opt_def)
  qed
qed

lemma stop_and_resume:
  assumes "passes (saveable env g) g F start s ((s', n') # hops)"
    and "last ((s', n') # hops) = (final, end_node)" and "n' \<noteq> end_node"
    and "affordable (g_budget_eur g) F (Fin 0) start s ((s', n') # hops)"
    and "0 < max_execution_records (g_resource_limits g)"
    and "Suc (length hops) < max_sequential_steps (g_resource_limits g)"
    and "\<And>v. e_to_value env s' = Inr v \<Longrightarrow> e_from_value env v = Inr s'" and "\<not> ms_poisoned (w_store w)"
    and "g' \<in> {add_interrupt_after start g, add_interrupt_before n' g}"
    and "affordable (g_budget_eur g) F (Fin 0) n' s' hops"
  shows "\<exists>w1 w2 w3. run env g (memory_checkpointer env) t s start None w = Some (Inr final, w1) \<and>
     run env g' (memory_checkpointer env) t s start None w = Some (Inr s', w2) \<and>
     resume env g (memory_checkpointer env) t None w2 = Some (Inr (Some final), w3)"
proof -
  have "\<exists>w1. run_inner (run_job env g t None None) s start None (w\<lparr>w_last_head := None\<rparr>) = Some (Inr final, w1)"
    by (rule run_path[OF assms(1)]) (use assms(2,4-6,8) in simp_all)
  then obtain w1 where full: "run env g (memory_checkpointer env) t s start None w = Some (Inr final, w1)"
    unfolding run_eq by blast
  have rest: "passes (saveable env g) g F n' s' hops" using assms(1) by simp
  from stopped_run[OF assms(1,3-6,8,9), of t] obtain w2 c where
    r: "run env g' (memory_checkpointer env) t s start None w = Some (Inr s', w2)"
    and c: "last_opt (mem_list (w_store w2) t) = Some c" "\<not> ms_poisoned (w_store w2)"
      "e_to_value env s' = Inr (mc_state c)" "mc_next_node c = n'" "mc_status c \<noteq> CheckpointStatus.Running" by blast
  have "\<exists>w3. resume env g (memory_checkpointer env) t None w2 = Some (Inr (Some final), w3)"
    by (rule resume_path[OF c(1,2) assms(7)[OF c(3)] c(5), where F = F and hops = hops])
       (use c(4) rest assms(2,5,6,10) in simp_all)
  with full r show ?thesis by blast
qed

text \<open>C21: a run that a declared interrupt stops, after its first node or before its second, returns the
  state reached, and a resume of the thread with a graph that does not declare the interrupt ends in the
  state in which the run that nothing stops ends. Under a budget this needs the costs of the whole path,
  and those of the rest alone, to be within it.\<close>

theorem interrupts_resume:
  assumes "passes (saveable env g) g F start s ((s', n') # hops)"
    and "last ((s', n') # hops) = (final, end_node)" and "n' \<noteq> end_node"
    and "affordable (g_budget_eur g) F (Fin 0) start s ((s', n') # hops)"
    and "0 < max_execution_records (g_resource_limits g)"
    and "Suc (length hops) < max_sequential_steps (g_resource_limits g)"
    and "\<And>v. e_to_value env s' = Inr v \<Longrightarrow> e_from_value env v = Inr s'" and "\<not> ms_poisoned (w_store w)"
    and "g' \<in> {add_interrupt_after start g, add_interrupt_before n' g}"
    and "affordable (g_budget_eur g) F (Fin 0) n' s' hops"
  shows "\<exists>w1 w2 w3. run env g (memory_checkpointer env) t s start None w = Some (Inr final, w1) \<and>
     run env g' (memory_checkpointer env) t s start None w = Some (Inr s', w2) \<and>
     resume env g (memory_checkpointer env) t None w2 = Some (Inr (Some final), w3)"
  by (rule stop_and_resume[OF assms])

theorem interrupts_resume_witness:
  "\<exists>w2 w3. run sample_env (add_interrupt_before ''b'' (sample_graph 5)) (memory_checkpointer sample_env) ''t'' 0
       ''a'' None (sample_world 0 mem_new) = Some (Inr 1, w2) \<and>
     resume sample_env (sample_graph 5) (memory_checkpointer sample_env) ''t'' None w2 = Some (Inr (Some 2), w3)"
proof -
  let ?g = "sample_graph 5"
  have p: "passes (saveable sample_env ?g) ?g sample_output ''a'' 0 ((1, ''b'') # [(2, end_node)])"
    using sample_sizes[of 1] sample_sizes[of 2] sample_enc
    by (simp add: plain_node_def answers_def saveable_def sample_graph_simps)
  have l: "last ((1 :: nat, ''b'') # [(2, end_node)]) = (2, end_node)" by simp
  have lim: "''b'' \<noteq> end_node" "affordable (g_budget_eur ?g) sample_output (Fin 0) ''a'' 0 ((1, ''b'') # [(2, end_node)])"
    "0 < max_execution_records (g_resource_limits ?g)"
    "Suc (length [(2 :: nat, end_node)]) < max_sequential_steps (g_resource_limits ?g)"
    "\<not> ms_poisoned (w_store (sample_world (0 :: nat) mem_new))"
    "add_interrupt_before ''b'' ?g \<in> {add_interrupt_after ''a'' ?g, add_interrupt_before ''b'' ?g}"
    "affordable (g_budget_eur ?g) sample_output (Fin 0) ''b'' 1 [(2, end_node)]"
    by (simp_all add: sample_graph_simps sample_world_def mem_new_def)
  have dec: "e_from_value sample_env v = Inr 1" if "e_to_value sample_env 1 = Inr v" for v
    using that by (auto simp: sample_env_def)
  from interrupts_resume[OF p l lim(1-4) dec lim(5-7), of "''t''"] show ?thesis by blast
qed

section \<open>Crash recovery\<close>

text \<open>A resumed run over nodes that succeed, from whatever node the recovery chooses.\<close>

lemma resumed_run:
  assumes "plain_graph env g N S F" and "\<forall>n. \<forall>s \<in> S n. \<exists>v. e_to_value env s = Inr v"
    and "start \<in> insert end_node N" and "s \<in> S start" and "\<not> ms_poisoned (w_store w)"
    and "ref_run (plain_hop g F) (max_sequential_steps (g_resource_limits g)) start s = (Some final, hops)"
  shows "\<exists>w' cs. resume_run env g (memory_checkpointer env) t None resolved s start w = Some (Inr (Some final), w') \<and>
     mem_list (w_store w') t = mem_list (w_store w) t @ cs \<and> list_all2 (checkpoint_of env) cs hops \<and>
     (\<forall>c \<in> set cs. mc_resolved_interrupt c = resolved)"
proof -
  have "\<not> ms_poisoned (w_store (w\<lparr>w_last_head := None\<rparr>))" using assms(5) by simp
  from mem_plain_logged[OF assms(1-4) this assms(6), of t resolved] show ?thesis
    by (fastforce simp: resume_run_def resume_job_run_job ref_result_def)
qed

text \<open>C22: what becomes of a node that was Running when the process died, with the state \<open>s\<close> that was saved
  before it (rebound by the caller). \<open>FailFast\<close>: the resumption fails and changes nothing.
  \<open>ResetToPending\<close>: the node is executed again, its output on \<open>s\<close> is saved, and the run goes on from
  there to its end. \<open>SkipAndContinue\<close>: the node is not executed: the run goes on in the state \<open>s\<close> at the
  target of the node's edge, and saves what follows the node only; but a node without an edge is executed
  again. Every checkpoint of the resumption resolves the interrupt that the crashed one had claimed.\<close>

theorem resume_crash_policies:
  assumes "\<not> ms_poisoned (w_store w)" and "last_opt (mem_list (w_store w) t) = Some c"
    and "e_from_value env (mc_state c) = Inr s0" and "s = rebind s0" and "mc_status c = CheckpointStatus.Running"
    and "plain_graph env g N S F" and "\<forall>n. \<forall>s \<in> S n. \<exists>v. e_to_value env s = Inr v"
    and "mc_next_node c \<in> N" and "s \<in> S (mc_next_node c)"
    and "max_sequential_steps (g_resource_limits g) = Suc fuel"
    and "plain_hop g F (mc_next_node c) s = (s1, n1)"
    and "ref_run (plain_hop g F) fuel n1 s1 = (Some again, hops1)"
    and "\<And>edge. g_edges g (mc_next_node c) = Some edge \<Longrightarrow> s \<in> S (follow_edge edge s) \<and>
       follow_edge edge s \<in> insert end_node N \<and>
       ref_run (plain_hop g F) (Suc fuel) (follow_edge edge s) s = (Some skipped, hops2)"
  shows "case g_crash_recovery_policy g of
      CrashRecoveryPolicy.FailFast \<Rightarrow> resume_with env g (memory_checkpointer env) t None rebind w =
        Some (Inl (crash_fail_fast t), w)
    | policy \<Rightarrow> (let skip = (policy = CrashRecoveryPolicy.SkipAndContinue \<and> g_edges g (mc_next_node c) \<noteq> None) in
        \<exists>w' cs. resume_with env g (memory_checkpointer env) t None rebind w =
            Some (Inr (Some (if skip then skipped else again)), w') \<and>
          mem_list (w_store w') t = mem_list (w_store w) t @ cs \<and>
          list_all2 (checkpoint_of env) cs (if skip then hops2 else (s1, n1) # hops1) \<and>
          (\<forall>c' \<in> set cs. mc_resolved_interrupt c' = mc_claimed_interrupt c))"
proof -
  let ?run = "\<lambda>start. resume_run env g (memory_checkpointer env) t None (mc_claimed_interrupt c) s start w"
  let ?n = "mc_next_node c" and ?rest = "\<lambda>start final hops. \<exists>w' cs. resume_run env g (memory_checkpointer env) t None
      (mc_claimed_interrupt c) s start w = Some (Inr (Some final), w') \<and>
      mem_list (w_store w') t = mem_list (w_store w) t @ cs \<and> list_all2 (checkpoint_of env) cs hops \<and>
      (\<forall>c' \<in> set cs. mc_resolved_interrupt c' = mc_claimed_interrupt c)"
  have res: "resume_with env g (memory_checkpointer env) t None rebind w = (case g_crash_recovery_policy g of
      CrashRecoveryPolicy.FailFast \<Rightarrow> Some (Inl (crash_fail_fast t), w)
    | CrashRecoveryPolicy.ResetToPending \<Rightarrow> ?run ?n
    | CrashRecoveryPolicy.SkipAndContinue \<Rightarrow>
        ?run (case g_edges g ?n of None \<Rightarrow> ?n | Some edge \<Rightarrow> follow_edge edge s))"
    using assms(5) by (simp add: resume_with_def mem_load_last[OF assms(1-3)] Let_def assms(4)
        split: CrashRecoveryPolicy.splits option.splits)
  have ne: "?n \<noteq> end_node" using assms(6,8) by (auto simp: plain_graph_def)
  have "ref_run (plain_hop g F) (Suc fuel) ?n s = (Some again, (s1, n1) # hops1)"
    using ne by (simp add: assms(11,12))
  from resumed_run[OF assms(6,7) _ assms(9,1), unfolded assms(10), OF _ this] assms(8)
  have again: "?rest ?n again ((s1, n1) # hops1)" by blast
  have skip: "?rest (follow_edge edge s) skipped hops2" if "g_edges g ?n = Some edge" for edge
    using resumed_run[OF assms(6,7) _ _ assms(1), unfolded assms(10)] assms(13)[OF that] by blast
  show ?thesis
    using again skip
    by (cases "g_crash_recovery_policy g"; cases "g_edges g ?n") (simp_all add: res Let_def)
qed

definition running_store :: mem_store where
  "running_store = \<lparr>ms_poisoned = False, ms_map = [''t'' \<mapsto>
     [(sample_checkpoint 0 ''a'')\<lparr>mc_status := CheckpointStatus.Running, mc_claimed_interrupt := Some ''i''\<rparr>]]\<rparr>"

abbreviation recovering :: "CrashRecoveryPolicy \<Rightarrow> (nat, nat) graph" where
  "recovering policy \<equiv> set_crash_recovery_policy policy (sample_graph 3)"

lemma recovering_plain: "plain_graph sample_env (recovering policy) {''a'', ''b''} (\<lambda>_. {..100}) sample_output"
  using sample_sizes by (auto simp: plain_graph_def plain_node_def answers_def sample_graph_simps
      set_crash_recovery_policy_def effective_node_budget_def plain_hop_def resolve_next_node_def edge_target_def)

text \<open>The node \<open>a\<close> crashed in a chain of \<open>a\<close> and \<open>b\<close>, each of which adds one; the state is rebound from 0 to 1.\<close>

theorem resume_crash_policies_witness:
  "(\<exists>w'. resume_with sample_env (recovering CrashRecoveryPolicy.ResetToPending) (memory_checkpointer sample_env) ''t''
     None Suc (sample_world 0 running_store) = Some (Inr (Some 3), w') \<and> length (mem_list (w_store w') ''t'') = 3) \<and>
   (\<exists>w'. resume_with sample_env (recovering CrashRecoveryPolicy.SkipAndContinue) (memory_checkpointer sample_env) ''t''
     None Suc (sample_world 0 running_store) = Some (Inr (Some 2), w') \<and> length (mem_list (w_store w') ''t'') = 2) \<and>
   resume_with sample_env (recovering CrashRecoveryPolicy.FailFast) (memory_checkpointer sample_env) ''t'' None Suc
     (sample_world 0 running_store) = Some (Inl (crash_fail_fast ''t''), sample_world 0 running_store)"
proof -
  let ?c = "(sample_checkpoint 0 ''a'')\<lparr>mc_status := CheckpointStatus.Running, mc_claimed_interrupt := Some ''i''\<rparr>"
  let ?w = "sample_world (0 :: nat) running_store"
  have c: "\<not> ms_poisoned (w_store ?w)" "last_opt (mem_list (w_store ?w) ''t'') = Some ?c"
    "e_from_value sample_env (mc_state ?c) = Inr 0" "1 = Suc 0" "mc_status ?c = CheckpointStatus.Running"
    and l: "length (mem_list (w_store ?w) ''t'') = 1"
    by (simp_all add: sample_world_def running_store_def mem_list_def last_opt_def sample_checkpoint_def
        sample_env_def)
  have n: "mc_next_node ?c = ''a''" by (simp add: sample_checkpoint_def)
  have hop: "plain_hop (recovering policy) sample_output n s = plain_hop (sample_graph 3) sample_output n s" for policy n s
    by (simp add: plain_hop_def resolve_next_node_def edge_target_def set_crash_recovery_policy_def
        split: option.split)
  have limit: "max_sequential_steps (g_resource_limits (recovering policy)) = Suc 2" for policy
    by (simp add: set_crash_recovery_policy_def)
  have ref: "ref_run (plain_hop (recovering policy) sample_output) 2 ''b'' 2 = (Some 3, [(3, end_node)])"
    "ref_run (plain_hop (recovering policy) sample_output) (Suc 2) ''b'' 1 = (Some 2, [(2, end_node)])" for policy
    by (simp_all add: numeral_2_eq_2 hop sample_hop) (simp_all add: end_node_def)
  have skip: "(1 :: nat) \<in> {..100} \<and> follow_edge edge 1 \<in> insert end_node {''a'', ''b''} \<and>
      ref_run (plain_hop (recovering policy) sample_output) (Suc 2) (follow_edge edge 1) 1 = (Some 2, [(2, end_node)])"
    if "g_edges (recovering policy) (mc_next_node ?c) = Some edge" for policy edge
  proof -
    have "follow_edge edge 1 = ''b''"
      using that by (auto simp: n set_crash_recovery_policy_def sample_graph_simps)
    then show ?thesis using ref(2)[of policy] by simp
  qed
  have first: "plain_hop (recovering policy) sample_output (mc_next_node ?c) 1 = (2, ''b'')" for policy
    by (simp add: hop n sample_hop)
  have "mc_next_node ?c \<in> {''a'', ''b''}" "(1 :: nat) \<in> {..100}" by (simp_all add: n)
  note all = resume_crash_policies[where rebind = Suc and S = "\<lambda>_. {..100}",
      OF c recovering_plain sample_encs this limit first ref(1) skip]
  have e: "g_edges (recovering policy) (mc_next_node ?c) \<noteq> None" for policy
    by (simp add: n set_crash_recovery_policy_def sample_graph_simps)
  have p: "g_crash_recovery_policy (recovering policy) = policy" for policy
    by (simp add: set_crash_recovery_policy_def)
  show ?thesis
    using all[of CrashRecoveryPolicy.ResetToPending] all[of CrashRecoveryPolicy.SkipAndContinue]
      all[of CrashRecoveryPolicy.FailFast] e l
    by (auto simp: p Let_def dest!: list_all2_lengthD)
qed

section \<open>Execution identifiers\<close>

lemma execution_seed_differs:
  "c \<noteq> ''initial'' \<Longrightarrow> execution_seed t n (Some c) \<noteq> execution_seed t n None"
  by (simp add: execution_seed_def)

text \<open>The execution identifier of a node does not survive a crash: in the run the node after a
  checkpoint is called with an identifier made from that checkpoint, and when the same step is run again
  by a resume it is called with an identifier made from the text initial instead.\<close>

theorem execution_id_changes_on_resume:
  assumes "seq_step (run_job env g t token None) q w = Some (Inr (Continue q'), w')"
    and "\<And>u. e_uuid_text env u \<noteq> ''initial''"
  shows "\<exists>c. q_last_checkpoint_id q' = Some c \<and>
     cs_last_checkpoint_id (seq_site (run_job env g t token None) q' node) = Some c \<and>
     cs_last_checkpoint_id (seq_site (run_job env g t token None)
       (seq_start (q_state q') (q_current q') None None) node) = None \<and>
     execution_seed t (q_current q') (Some c) \<noteq> execution_seed t (q_current q') None"
proof -
  let ?j = "run_job env g t token None"
  let ?q = "q\<lparr>q_step_count := Suc (q_step_count q), q_first := False\<rparr>"
  have "seq_execute ?j ?q w = Some (Inr (Continue q'), w')"
    using assms(1) by (auto simp: seq_step_def Let_def seq_end_def seq_interrupt_def then_ok_Some split: if_splits)
  then obtain tm a res w1 where "seq_result ?j (?q\<lparr>q_input := None\<rparr>) tm a res w1 = Some (Inr (Continue q'), w')"
    by (auto simp: seq_execute_def Let_def split: option.splits prod.splits sum.splits)
  then obtain out where "seq_success ?j (?q\<lparr>q_input := None\<rparr>) tm a out w1 = Some (Inr (Continue q'), w')"
    by (blast dest: seq_result_continue)
  then obtain q2 w2 where "seq_advance ?j q2 out w2 = Some (Inr (Continue q'), w')"
    by (auto simp: seq_success_def Let_def then_ok_Some split: prod.splits)
  then obtain s n c w3 w4 where sv: "j_save ?j s n CheckpointStatus.Complete None None (q_expected_head q2) w3 = Some (Inr c, w4)"
    and c: "q_last_checkpoint_id q' = Some c"
    by (auto simp: seq_advance_def then_ok_Some Let_def run_job_def split: if_splits)
  from sv obtain u where "c = e_uuid_text env u"
    by (auto simp: j_save_def checked_save_def save_bound_def run_job_def memory_checkpointer_def
        default_save_state_bound_def on_store_def lift_result_def then_ok_Some mem_save_state_def Let_def
        split: prod.splits option.splits sum.splits if_splits)
  with assms(2) have "c \<noteq> ''initial''" by simp
  from execution_seed_differs[OF this] c show ?thesis
    by (simp add: seq_site_def run_job_def seq_start_def)
qed

theorem execution_id_changes_on_resume_witness:
  "\<exists>q' w' c. seq_step (run_job sample_env (sample_graph 3) ''t'' None None) (seq_start 0 ''a'' None None)
     (sample_world 0 mem_new) = Some (Inr (Continue q'), w') \<and>
     execution_seed ''t'' (q_current q') (Some c) \<noteq> execution_seed ''t'' (q_current q') None"
proof -
  obtain q' w' where st: "seq_step (run_job sample_env (sample_graph 3) ''t'' None None)
      (seq_start 0 ''a'' None None) (sample_world 0 mem_new) = Some (Inr (Continue q'), w')"
    using sample_step by blast
  have "e_uuid_text sample_env u \<noteq> ''initial''" for u
  proof
    assume "e_uuid_text sample_env u = ''initial''"
    then have "set (replicate u (CHR ''u'')) = set ''initial''" by (simp add: sample_env_def)
    then show False by (simp add: set_replicate_conv_if split: if_splits)
  qed
  from execution_id_changes_on_resume[OF st this] st show ?thesis by blast
qed

section \<open>Timeouts\<close>

text \<open>A call under a timeout always comes to an end, at the timeout at the latest, unless the node
  itself ends before it; a node that ends in time is not affected by the timeout.\<close>

theorem timeout_bounds:
  "(case with_timeout n (Some d) f of Never \<Rightarrow> False | Panics u m \<Rightarrow> u \<le> d | Ready u r \<Rightarrow> u \<le> d) \<and>
   (case f of
      Never \<Rightarrow> with_timeout n (Some d) f = Ready d (timed_out n d)
    | Panics u m \<Rightarrow> with_timeout n (Some d) f = (if u \<le> d then f else Ready d (timed_out n d))
    | Ready u r \<Rightarrow> with_timeout n (Some d) f = (if u \<le> d then f else Ready d (timed_out n d)))"
  by (cases f) simp_all

section \<open>Child nodes\<close>

lemma child_result_no_yield: "child_result r \<noteq> Inl (Yield request)"
  by (cases r rule: child_result.cases) simp_all

text \<open>A child node never yields into the dynamic node that runs it: its yield becomes the error
  \<open>YieldInDynamicNode\<close> with the same interrupt, every other result is handed on as it is, and an
  unknown child is a fatal error.\<close>

theorem run_child_cannot_yield:
  "(\<forall>d request. fst (run_child env nodes n ctx s w) \<noteq> Ready d (Inl (Yield request))) \<and>
   (case nodes n of
      None \<Rightarrow> (\<exists>m. run_child env nodes n ctx s w = (Ready 0 (Inl (Fatal m)), w))
    | Some node \<Rightarrow> (\<exists>cctx f. fst (node cctx s (fst w)) = f \<and> cx_resumed_input cctx = None \<and>
        cx_thread_id cctx = cx_thread_id ctx \<and> cx_attempt cctx = 0 \<and>
        fst (run_child env nodes n ctx s w) = map_future child_result f))"
proof (cases "nodes n")
  case None
  then show ?thesis by (cases w) (auto simp: run_child_def)
next
  case (Some node)
  obtain x y where w: "w = (x, y)" by (cases w)
  obtain cctx y' where c: "node_context_new env (cx_thread_id ctx) n 0 (cx_last_checkpoint_id ctx)
      (cx_budget_remaining_eur ctx) (cx_cancellation ctx) None y = (cctx, y')" by fastforce
  then have cc: "cx_resumed_input cctx = None" "cx_thread_id cctx = cx_thread_id ctx" "cx_attempt cctx = 0"
    by (auto simp: node_context_new_def new_v4_def Let_def)
  obtain f x' where f: "node cctx s x = (f, x')" by fastforce
  have r: "run_child env nodes n ctx s w = (map_future child_result f, (x', y'))"
    by (simp add: run_child_def w Some c f)
  have "map_future child_result f \<noteq> Ready d (Inl (Yield request))" for d request
    using child_result_no_yield by (cases f) auto
  with r f cc show ?thesis by (auto simp: Some w)
qed

section \<open>The schema check\<close>

text \<open>When a value has the type a schema names.\<close>

fun has_type :: "string \<Rightarrow> json \<Rightarrow> bool" where
  "has_type ty JNull = (ty = ''null'')"
| "has_type ty (JBool _) = (ty = ''boolean'')"
| "has_type ty (JNumber n) = (ty = ''number'' \<or> ty = ''integer'' \<and>
     (case n of JInt i \<Rightarrow> - (2 ^ 63) \<le> i \<and> i < 2 ^ 64 | JFloat _ \<Rightarrow> False))"
| "has_type ty (JString _) = (ty = ''string'')"
| "has_type ty (JArray _) = (ty = ''array'')"
| "has_type ty (JObject _) = (ty = ''object'')"

lemma type_ok_has_type: "type_ok ty (actual_type v) = has_type ty v"
  by (cases v) (auto simp: type_ok_def split: json_number.splits)

text \<open>The schema check accepts exactly the inputs that have the type the schema names, if it names one
  by a string, and that are among the values of its enumeration, if it has one; it ignores the rest of
  the schema.\<close>

theorem schema_check_spec:
  "validate_input_against_schema env i input schema = Inr () \<longleftrightarrow>
     (case Option.bind (json_get ''type'' schema) json_as_str of None \<Rightarrow> True | Some ty \<Rightarrow> has_type ty input) \<and>
     (case Option.bind (json_get ''enum'' schema) json_as_array of None \<Rightarrow> True | Some vs \<Rightarrow> input \<in> set vs)"
  by (auto simp: validate_input_against_schema_def check_type_def check_enum_def type_ok_has_type
      split: option.splits sum.splits if_splits)

end
