(* ===== verification/F64_Bounds.thy ===== *)
theory F64_Bounds
  imports F64
begin

text \<open>How far a rounded result is from the exact one, for the costs of the program.\<close>

section \<open>Powers of two\<close>

lemma pow2_powi: "pow2 e = 2 powi e"
  by (simp add: pow2_def power_int_def inverse_eq_divide power_one_over)

lemma pow2_int: "pow2 (int k) = of_nat (2 ^ k)"
  by (simp add: pow2_def)

lemma pow2_pos: "0 < pow2 e"
  by (simp add: pow2_powi)

lemma pow2_mono: "e \<le> f \<Longrightarrow> pow2 e \<le> pow2 f"
  by (simp add: pow2_powi power_int_increasing)

lemma pow2_diff: "pow2 (e - f) = pow2 e / pow2 f"
  by (simp add: pow2_powi power_int_diff)

lemma ilog2_nat_bounds: "0 < n \<Longrightarrow> 2 ^ ilog2_nat n \<le> n \<and> n < 2 ^ Suc (ilog2_nat n)"
proof (induction n rule: ilog2_nat.induct)
  case (1 n)
  show ?case
  proof (cases "n < 2")
    case True
    with 1(2) have "n = 1" by simp
    then show ?thesis by (simp add: ilog2_nat.simps)
  next
    case False
    then have "0 < n div 2" by simp
    with 1(1)[OF False] have "2 ^ ilog2_nat (n div 2) \<le> n div 2" "n div 2 < 2 ^ Suc (ilog2_nat (n div 2))" by simp_all
    then show ?thesis using False by (subst (1 2) ilog2_nat.simps) (simp, linarith)
  qed
qed

text \<open>\<open>ilog2\<close> is the exponent of the leading bit.\<close>

lemma pow2_ilog2:
  assumes "0 < r"
  shows "pow2 (ilog2 r) \<le> r"
proof -
  obtain n d where q: "quotient_of r = (n, d)" by fastforce
  have d: "0 < d" using quotient_of_denom_pos[OF q] .
  have r: "r = of_int n / of_int d" using quotient_of_div[OF q] .
  then have n: "0 < n" using assms d by (simp add: zero_less_divide_iff)
  let ?n = "nat n" and ?d = "nat d"
  let ?e = "int (ilog2_nat ?n) - int (ilog2_nat ?d)"
  have nd: "2 ^ ilog2_nat ?n \<le> ?n" "?d < 2 ^ Suc (ilog2_nat ?d)"
    using ilog2_nat_bounds[of ?n] ilog2_nat_bounds[of ?d] n d by simp_all
  have "pow2 (?e - 1) \<le> r"
  proof -
    have "pow2 (?e - 1) = pow2 (int (ilog2_nat ?n)) / pow2 (int (Suc (ilog2_nat ?d)))"
      by (simp add: pow2_diff[symmetric] algebra_simps)
    also have "\<dots> = of_nat (2 ^ ilog2_nat ?n) / of_nat (2 ^ Suc (ilog2_nat ?d))"
      unfolding pow2_int ..
    also have "\<dots> \<le> of_nat ?n / of_nat ?d"
    proof (rule frac_le)
      show "(of_nat (2 ^ ilog2_nat ?n) :: rat) \<le> of_nat ?n" using nd(1) unfolding of_nat_le_iff .
      show "(of_nat ?d :: rat) \<le> of_nat (2 ^ Suc (ilog2_nat ?d))" using nd(2) unfolding of_nat_le_iff by simp
    qed (use d in simp_all)
    also have "\<dots> = r" using n d by (simp add: r)
    finally show ?thesis .
  qed
  then show ?thesis by (simp add: ilog2_def q Let_def)
qed

section \<open>The error of one rounding\<close>

lemma round_half_even_error: "\<bar>of_int (round_half_even x) - x\<bar> \<le> 1 / 2"
proof -
  have "0 \<le> x - of_int \<lfloor>x\<rfloor>" "x - of_int \<lfloor>x\<rfloor> < 1" by linarith+
  then show ?thesis by (auto simp: round_half_even_def Let_def abs_le_iff)
qed

lemma round_half_even_nonneg: "0 \<le> x \<Longrightarrow> 0 \<le> round_half_even x"
  by (simp add: round_half_even_def Let_def)

text \<open>Between 0 and 1 the rounded value is finite and off by at most \<open>2 ^ - 53\<close>.\<close>

lemma round64_error:
  assumes "0 \<le> r" and "r \<le> 1"
  obtains v where "round64 r = Fin v" "0 \<le> v" "\<bar>v - r\<bar> \<le> 1 / 2 ^ 53"
proof (cases "r = 0")
  case True
  with that[of 0] show thesis by (simp add: round64_def)
next
  case False
  with assms(1) have r: "0 < r" by simp
  let ?e = "max (ilog2 r) (- 1022)"
  let ?u = "pow2 (?e - 52)"
  let ?v = "of_int (round_half_even (r / ?u)) * ?u"
  have e: "pow2 ?e \<le> 1"
  proof (cases "ilog2 r \<le> - 1022")
    case True
    then have "?e = - 1022" by simp
    then show ?thesis by (simp add: pow2_def)
  next
    case False
    then have "?e = ilog2 r" by simp
    with pow2_ilog2[OF r] assms(2) show ?thesis by simp
  qed
  have u: "0 < ?u" "?u \<le> 1 / 2 ^ 52"
    using pow2_pos e by (simp_all add: pow2_diff) (simp add: pow2_def divide_right_mono)
  have "?v - r = (of_int (round_half_even (r / ?u)) - r / ?u) * ?u" using u(1) by (simp add: field_simps)
  then have "\<bar>?v - r\<bar> = \<bar>of_int (round_half_even (r / ?u)) - r / ?u\<bar> * ?u" using u(1) by (simp add: abs_mult)
  also have "\<dots> \<le> 1 / 2 * (1 / 2 ^ 52)"
    by (rule mult_mono[OF round_half_even_error u(2)]) (use u(1) in simp_all)
  finally have err: "\<bar>?v - r\<bar> \<le> 1 / 2 ^ 53" by simp
  have pos: "0 \<le> ?v" using round_half_even_nonneg[of "r / ?u"] r u(1) by simp
  have "?v - r \<le> 1 / 2 ^ 53" using err by (rule abs_le_D1)
  moreover have "1 / 2 ^ 53 \<le> (1 :: rat)" by simp
  ultimately have "?v \<le> 2" using assms(2) by linarith
  also have "\<dots> < pow2 1024" by (simp add: pow2_def)
  finally have "round64 r = Fin ?v" using r by (simp add: round64_def Let_def)
  with that pos err show thesis by blast
qed

lemma round64_le:
  assumes "0 \<le> r" and "r \<le> b" and "b \<le> 1"
  obtains v where "round64 r = Fin v" "0 \<le> v" "v \<le> b + 1 / 2 ^ 53"
proof -
  from assms obtain v where v: "round64 r = Fin v" "0 \<le> v" "\<bar>v - r\<bar> \<le> 1 / 2 ^ 53"
    using round64_error[of r] by force
  with abs_le_D1[OF v(3)] assms(2) that show thesis by simp
qed

end
