(* ===== verification/Examples.thy ===== *)
theory Examples
  imports Graph_Builder Step_Properties F64_Bounds
begin

text \<open>
  The sequential programs of \<open>src/examples\<close>, on the model: their states, nodes and graphs as written,
  and what their \<open>main\<close> gets from the runs. The lines they print are not modelled. A \<open>main\<close> starts
  from a fresh store and history; the environment is any in which serde can write and read back the
  states that occur.
\<close>

section \<open>Programs\<close>

definition fresh_world :: "'x \<Rightarrow> sys \<Rightarrow> ('x, mem_store) world" where
  "fresh_world x y = \<lparr>w_ext = x, w_store = mem_new, w_sys = y, w_seq = 0, w_awaits = 0,
     w_records = [], w_trace = [], w_last_head = None\<rparr>"

lemma fresh_world_simps [simp]:
  "\<not> ms_poisoned (w_store (fresh_world x y))" "mem_list (w_store (fresh_world x y)) t = []"
  by (simp_all add: fresh_world_def mem_new_def mem_list_def)

text \<open>A node that is a closure on the state, and graphs that configure nothing.\<close>

definition bare :: "('s \<Rightarrow> 's) \<Rightarrow> ('s, 'x) node" where
  "bare f = (\<lambda>_. closure f)"

definition unconfigured :: "('s, 'x) graph \<Rightarrow> bool" where
  "unconfigured g \<longleftrightarrow> g_dynamic_nodes g = Map.empty \<and> g_node_configs g = Map.empty \<and>
     g_interrupt_before g = {} \<and> g_interrupt_after g = {} \<and> g_budget_eur g = None \<and>
     g_resource_limits g = resource_limits_default"

definition fits :: "'s env \<Rightarrow> 's \<Rightarrow> bool" where
  "fits env s \<longleftrightarrow> (\<exists>v. e_to_value env s = Inr v \<and> e_from_value env v = Inr s) \<and>
     estimated_size env s \<le> 10 * 1024 * 1024"

lemma fits_saveable: "fits env s \<Longrightarrow> unconfigured g \<Longrightarrow> saveable env g s"
  by (auto simp: fits_def unconfigured_def saveable_def resource_limits_default_def)

definition outputs :: "(string \<rightharpoonup> 's \<Rightarrow> 's) \<Rightarrow> string \<Rightarrow> 's \<Rightarrow> 's NodeOutput" where
  "outputs T n s = node_output_bare (the (T n) s)"

lemma passes_bare:
  assumes "unconfigured g" and "n \<noteq> end_node"
    and "case g_nodes g n of Some node \<Rightarrow> \<forall>ctx x. node ctx s x = bare (the (T n)) ctx s x | None \<Rightarrow> False"
    and "the (T n) s = s'" and "edge_target g n s' = n'" and "fits env s'"
    and "passes (saveable env g) g (outputs T) n' s' hops"
  shows "passes (saveable env g) g (outputs T) n s ((s', n') # hops)"
  using assms fits_saveable[of env s' g]
  by (auto simp: plain_hop_def resolve_next_node_def outputs_def node_output_bare_def plain_node_def
      effective_node_budget_def answers_def bare_def closure_def unconfigured_def split: option.splits)

lemma run_path_fresh:
  assumes "passes (saveable env g) g F start s hops" and "last ((s, start) # hops) = (s', end_node)"
    and "unconfigured g" and "length hops < 1000"
  shows "\<exists>w'. run env g (memory_checkpointer env) t s start None (fresh_world x y) = Some (Inr s', w')"
  unfolding run_eq
  by (rule run_path[OF assms(1,2)])
     (use assms(3,4) in \<open>simp_all add: unconfigured_def resource_limits_default_def\<close>)

lemmas graph_defs = add_node_def add_edge_def add_conditional_edge_def graph_new_def graph_builder_def
  b_build_def b_node_def b_edge_def b_conditional_edge_def

section \<open>simple\_chain.rs\<close>

record ChainState =
  ch_output :: string

definition chain_step_node :: "string \<Rightarrow> (ChainState, 'x) node" where
  "chain_step_node text = bare (\<lambda>s. s\<lparr>ch_output := (ch_output s @ text) @ '' ''\<rparr>)"

definition simple_chain_graph :: "(ChainState, 'x) graph" where
  "simple_chain_graph =
     add_edge ''Node3'' ''__END__'' (add_edge ''Node2'' ''Node3'' (add_edge ''Node1'' ''Node2''
       (add_node ''Node3'' (chain_step_node ''takeln'')
         (add_node ''Node2'' (chain_step_node ''from'')
           (add_node ''Node1'' (chain_step_node ''hello'') graph_new)))))"

definition simple_chain :: "ChainState env \<Rightarrow> 'x \<Rightarrow> sys \<Rightarrow> (TakelnError, ChainState, ('x, mem_store) world) outcome" where
  "simple_chain env x y = run env simple_chain_graph (memory_checkpointer env) ''thread_chain''
     \<lparr>ch_output = []\<rparr> ''Node1'' None (fresh_world x y)"

lemma simple_chain_prints:
  fixes x :: 'x
  assumes "\<And>s. fits env \<lparr>ch_output = s\<rparr> \<or> s \<notin> {''hello '', ''hello from '', ''hello from takeln ''}"
  shows "\<exists>w'. simple_chain env x y = Some (Inr \<lparr>ch_output = ''hello from takeln ''\<rparr>, w')"
proof -
  let ?g = "simple_chain_graph :: (ChainState, 'x) graph"
  let ?f = "\<lambda>text s. s\<lparr>ch_output := (ch_output s @ text) @ '' ''\<rparr>"
  let ?T = "[''Node1'' \<mapsto> ?f ''hello'', ''Node2'' \<mapsto> ?f ''from'', ''Node3'' \<mapsto> ?f ''takeln'']"
  let ?hops = "[(\<lparr>ch_output = ''hello ''\<rparr>, ''Node2''), (\<lparr>ch_output = ''hello from ''\<rparr>, ''Node3''),
      (\<lparr>ch_output = ''hello from takeln ''\<rparr>, end_node)]"
  have u: "unconfigured ?g" by (simp add: unconfigured_def simple_chain_graph_def graph_defs)
  have "passes (saveable env ?g) ?g (outputs ?T) ''Node1'' \<lparr>ch_output = []\<rparr> ?hops"
    by (intro passes_bare u)
       (use assms in \<open>auto simp: simple_chain_graph_def chain_step_node_def graph_defs edge_target_def end_node_def\<close>)
  from run_path_fresh[OF this _ u] show ?thesis by (simp add: simple_chain_def)
qed

section \<open>conditional\_routing.rs\<close>

record ReviewState =
  rs_score :: f64
  rs_decision :: string

definition score_node :: "(ReviewState, 'x) node" where
  "score_node = bare (\<lambda>s. s\<lparr>rs_score := round64 (85 / 100)\<rparr>)"

definition approve_node :: "(ReviewState, 'x) node" where
  "approve_node = bare (\<lambda>s. s\<lparr>rs_decision := ''approved''\<rparr>)"

definition reject_node :: "(ReviewState, 'x) node" where
  "reject_node = bare (\<lambda>s. s\<lparr>rs_decision := ''rejected''\<rparr>)"

definition review_route :: "ReviewState \<Rightarrow> string" where
  "review_route s = (if fge (rs_score s) (round64 (7 / 10)) then ''approve'' else ''reject'')"

definition review_graph :: "(ReviewState, 'x) graph" where
  "review_graph = b_build
     (b_edge ''reject'' ''__END__'' (b_edge ''approve'' ''__END__'' (b_conditional_edge ''score'' review_route
       (b_node ''reject'' reject_node (b_node ''approve'' approve_node (b_node ''score'' score_node
         (graph_builder :: (ReviewState, 'x, unit) GraphBuilder)))))))"

definition conditional_routing ::
  "ReviewState env \<Rightarrow> 'x \<Rightarrow> sys \<Rightarrow> (TakelnError, ReviewState, ('x, mem_store) world) outcome" where
  "conditional_routing env x y = run env review_graph (memory_checkpointer env) ''review_1''
     \<lparr>rs_score = Fin 0, rs_decision = []\<rparr> ''score'' None (fresh_world x y)"

text \<open>The two literals as binary64 numbers.\<close>

lemma review_ilog2: "ilog2 (17 / 20) = - 1" "ilog2 (7 / 10) = - 1"
proof -
  have "quotient_of (17 / 20) = (17, 20)" "quotient_of (7 / 10) = (7, 10)" by code_simp+
  then show "ilog2 (17 / 20) = - 1" "ilog2 (7 / 10) = - 1"
    by (simp_all add: ilog2_def ilog2_nat.simps pow2_def)
qed

lemma review_literals:
  "round64 (17 / 20) = Fin (7656119366529843 / 9007199254740992)"
  "round64 (7 / 10) = Fin (3152519739159347 / 4503599627370496)"
proof -
  have "\<lfloor>38280596832649216 / 5 :: rat\<rfloor> = 7656119366529843"
    "\<lfloor>31525197391593472 / 5 :: rat\<rfloor> = 6305039478318694" by (simp_all add: floor_eq_iff)
  then show "round64 (17 / 20) = Fin (7656119366529843 / 9007199254740992)"
    "round64 (7 / 10) = Fin (3152519739159347 / 4503599627370496)"
    by (simp_all add: round64_def review_ilog2 pow2_def round_half_even_def Let_def)
qed

lemma review_threshold: "fgt (round64 (85 / 100)) (round64 (7 / 10))"
  by (simp add: review_literals)

lemma conditional_routing_approves:
  fixes x :: 'x
  assumes "\<And>d. fits env \<lparr>rs_score = round64 (85 / 100), rs_decision = d\<rparr> \<or> d \<notin> {[], ''approved''}"
  shows "\<exists>w'. conditional_routing env x y =
     Some (Inr \<lparr>rs_score = round64 (85 / 100), rs_decision = ''approved''\<rparr>, w')"
proof -
  let ?g = "review_graph :: (ReviewState, 'x) graph" and ?c = "round64 (85 / 100)"
  let ?T = "[''score'' \<mapsto> \<lambda>s. s\<lparr>rs_score := ?c\<rparr>, ''approve'' \<mapsto> \<lambda>s. s\<lparr>rs_decision := ''approved''\<rparr>]"
  let ?hops = "[(\<lparr>rs_score = ?c, rs_decision = []\<rparr>, ''approve''),
      (\<lparr>rs_score = ?c, rs_decision = ''approved''\<rparr>, end_node)]"
  have u: "unconfigured ?g" by (simp add: unconfigured_def review_graph_def graph_defs)
  have "passes (saveable env ?g) ?g (outputs ?T) ''score'' \<lparr>rs_score = Fin 0, rs_decision = []\<rparr> ?hops"
    by (intro passes_bare u)
       (use assms[of "[]"] assms[of "''approved''"] review_threshold in \<open>simp_all add: review_graph_def graph_defs
          edge_target_def end_node_def score_node_def approve_node_def review_route_def fge_def\<close>)
  from run_path_fresh[OF this _ u] show ?thesis by (simp add: conditional_routing_def)
qed

section \<open>loop\_until\_valid.rs\<close>

record LoopState =
  lp_value :: u32
  lp_attempt_count :: u32
  lp_is_valid :: bool

text \<open>\<open>attempt_count += 1\<close> panics at the largest \<open>u32\<close> when the build checks overflow.\<close>

definition generate_node :: "LoopState env \<Rightarrow> (LoopState, 'x) node" where
  "generate_node env ctx s x =
     (if e_overflow_checks env \<and> lp_attempt_count s = - 1
      then (Panics 0 ''attempt to add with overflow'', x)
      else bare (\<lambda>s. s\<lparr>lp_attempt_count := lp_attempt_count s + 1, lp_value := lp_attempt_count s + 1\<rparr>) ctx s x)"

definition validate_node :: "(LoopState, 'x) node" where
  "validate_node = bare (\<lambda>s. if 3 \<le> lp_value s then s\<lparr>lp_is_valid := True\<rparr> else s)"

definition loop_graph :: "LoopState env \<Rightarrow> (LoopState, 'x) graph" where
  "loop_graph env = b_build
     (b_conditional_edge ''validate'' (\<lambda>s. if lp_is_valid s then ''__END__'' else ''generate'')
       (b_edge ''generate'' ''validate''
         (b_node ''validate'' validate_node (b_node ''generate'' (generate_node env)
           (graph_builder :: (LoopState, 'x, unit) GraphBuilder)))))"

definition loop_until_valid ::
  "LoopState env \<Rightarrow> 'x \<Rightarrow> sys \<Rightarrow> (TakelnError, LoopState, ('x, mem_store) world) outcome" where
  "loop_until_valid env x y = run env (loop_graph env) (memory_checkpointer env) ''loop_1''
     \<lparr>lp_value = 0, lp_attempt_count = 0, lp_is_valid = False\<rparr> ''generate'' None (fresh_world x y)"

text \<open>The states of the loop: after \<open>n\<close> attempts, and valid.\<close>

abbreviation attempt :: "u32 \<Rightarrow> bool \<Rightarrow> LoopState" where
  "attempt n valid \<equiv> \<lparr>lp_value = n, lp_attempt_count = n, lp_is_valid = valid\<rparr>"

lemma loop_until_valid_ends:
  fixes x :: 'x
  assumes "\<And>n v. fits env (attempt n v) \<or> n \<notin> {1, 2, 3}"
  shows "\<exists>w'. loop_until_valid env x y = Some (Inr (attempt 3 True), w')"
proof -
  let ?g = "loop_graph env :: (LoopState, 'x) graph"
  let ?T = "[''generate'' \<mapsto> \<lambda>s. s\<lparr>lp_attempt_count := lp_attempt_count s + 1, lp_value := lp_attempt_count s + 1\<rparr>,
      ''validate'' \<mapsto> \<lambda>s. if 3 \<le> lp_value s then s\<lparr>lp_is_valid := True\<rparr> else s]"
  let ?hops = "[(attempt 1 False, ''validate''), (attempt 1 False, ''generate''), (attempt 2 False, ''validate''),
      (attempt 2 False, ''generate''), (attempt 3 False, ''validate''), (attempt 3 True, end_node)]"
  have u: "unconfigured ?g" by (simp add: unconfigured_def loop_graph_def graph_defs)
  have small: "\<not> (3 :: u32) \<le> 1" "\<not> (3 :: u32) \<le> 2" by (simp_all add: word_le_nat_alt)
  have "passes (saveable env ?g) ?g (outputs ?T) ''generate'' (attempt 0 False) ?hops"
    by (intro passes_bare u)
       (use assms[of 1] assms[of 2] assms[of 3] small in \<open>simp_all add: loop_graph_def graph_defs
          edge_target_def end_node_def generate_node_def validate_node_def\<close>)
  from run_path_fresh[OF this _ u] show ?thesis by (simp add: loop_until_valid_def)
qed

section \<open>dynamic\_orchestration.rs\<close>

record BatchState =
  bt_items :: "string list"
  bt_current_item :: string
  bt_results :: "string list"

text \<open>\<open>to_uppercase\<close> on ASCII text, which is what the program gives it.\<close>

definition to_uppercase :: "string \<Rightarrow> string" where
  "to_uppercase = map (\<lambda>c. if CHR ''a'' \<le> c \<and> c \<le> CHR ''z'' then char_of (of_char c - (32 :: nat)) else c)"

definition process_item_node :: "(BatchState, 'x) node" where
  "process_item_node = bare (\<lambda>s. s\<lparr>bt_results := bt_results s @ [to_uppercase (bt_current_item s)]\<rparr>)"

text \<open>Awaiting a future and the operator \<open>?\<close>.\<close>

fun delayed :: "duration \<Rightarrow> 'r future \<Rightarrow> 'r future" where
  "delayed d Never = Never"
| "delayed d (Panics d' m) = Panics (d + d') m"
| "delayed d (Ready d' r) = Ready (d + d') r"

fun await_ok :: "('e + 'a) future \<times> 'w \<Rightarrow> ('a \<Rightarrow> 'w \<Rightarrow> ('e + 'b) future \<times> 'w) \<Rightarrow> ('e + 'b) future \<times> 'w" where
  "await_ok (Never, w) k = (Never, w)"
| "await_ok (Panics d m, w) k = (Panics d m, w)"
| "await_ok (Ready d (Inl e), w) k = (Ready d (Inl e), w)"
| "await_ok (Ready d (Inr a), w) k = (case k a w of (f, w) \<Rightarrow> (delayed d f, w))"

fun process_items :: "(BatchState, 'x) runner \<Rightarrow> NodeContext \<Rightarrow> string list \<Rightarrow> BatchState \<Rightarrow> 'x \<times> sys \<Rightarrow>
    (GraphError + BatchState) future \<times> ('x \<times> sys)" where
  "process_items runner ctx [] s w = (Ready 0 (Inr s), w)"
| "process_items runner ctx (item # items) s w =
     await_ok (run_child_state runner ''process_item'' ctx (s\<lparr>bt_current_item := item\<rparr>) w)
       (process_items runner ctx items)"

definition orchestrator_node :: "(BatchState, 'x) dynamic_node" where
  "orchestrator_node ctx s runner w = await_ok (process_items runner ctx (bt_items s) s w)
     (\<lambda>s w. (Ready 0 (Inr (node_output_bare s)), w))"

definition batch_graph :: "(BatchState, 'x) graph" where
  "batch_graph = b_build (b_edge ''orchestrator'' ''__END__'' (b_dynamic_node ''orchestrator'' orchestrator_node
     (b_node ''process_item'' process_item_node (graph_builder :: (BatchState, 'x, unit) GraphBuilder))))"

definition dynamic_orchestration :: "string list \<Rightarrow> BatchState env \<Rightarrow> 'x \<Rightarrow> sys \<Rightarrow>
    (TakelnError, BatchState, ('x, mem_store) world) outcome" where
  "dynamic_orchestration items env x y = run env batch_graph (memory_checkpointer env) ''batch_1''
     \<lparr>bt_items = items, bt_current_item = [], bt_results = []\<rparr> ''orchestrator'' None (fresh_world x y)"

text \<open>The loop over the items: each item's child appends its result.\<close>

lemma process_item_child:
  assumes "nodes ''process_item'' = Some process_item_node"
  shows "\<exists>w'. run_child_state (run_child env nodes) ''process_item'' ctx s w =
     (Ready 0 (Inr (s\<lparr>bt_results := bt_results s @ [to_uppercase (bt_current_item s)]\<rparr>)), w') \<and>
     later (snd w) (snd w')"
  using assms by (cases w) (simp add: run_child_state_def run_child_def process_item_node_def bare_def closure_def
      node_output_bare_def node_context_new_def new_v4_def later_def Let_def)

lemma process_items_results:
  assumes "nodes ''process_item'' = Some process_item_node"
  shows "\<exists>w'. process_items (run_child env nodes) ctx items s w =
     (Ready 0 (Inr (s\<lparr>bt_current_item := last (bt_current_item s # items),
        bt_results := bt_results s @ map to_uppercase items\<rparr>)), w') \<and> later (snd w) (snd w')"
proof (induction items arbitrary: s w)
  case (Cons item items)
  let ?s = "s\<lparr>bt_current_item := item\<rparr>"
  obtain w1 where c: "run_child_state (run_child env nodes) ''process_item'' ctx ?s w =
      (Ready 0 (Inr (?s\<lparr>bt_results := bt_results ?s @ [to_uppercase (bt_current_item ?s)]\<rparr>)), w1)"
    and l: "later (snd w) (snd w1)"
    using process_item_child[where nodes = nodes, OF assms] by blast
  from Cons.IH[of "?s\<lparr>bt_results := bt_results ?s @ [to_uppercase (bt_current_item ?s)]\<rparr>" w1]
  show ?case using l by (auto simp: c intro: later_trans[OF l])
qed simp

lemma orchestrator_answers:
  "answers batch_graph ''orchestrator'' input \<lparr>bt_items = items, bt_current_item = [], bt_results = []\<rparr>
     (Inr (node_output_bare \<lparr>bt_items = items, bt_current_item = last ([] # items),
        bt_results = map to_uppercase items\<rparr>))"
proof -
  let ?s = "\<lparr>bt_items = items, bt_current_item = [], bt_results = []\<rparr>"
  let ?out = "node_output_bare \<lparr>bt_items = items, bt_current_item = last ([] # items),
      bt_results = map to_uppercase items\<rparr>"
  have "fst (orchestrator_node ctx ?s (run_child env (g_nodes batch_graph)) w) = Ready 0 (Inr ?out) \<and>
      later (snd w) (snd (snd (orchestrator_node ctx ?s (run_child env (g_nodes batch_graph)) w)))" for env ctx w
  proof -
    have "g_nodes batch_graph ''process_item'' = Some process_item_node"
      by (simp add: batch_graph_def graph_defs b_dynamic_node_def add_dynamic_node_def)
    from process_items_results[where nodes = "g_nodes batch_graph", OF this, of env ctx items ?s w]
    show ?thesis by (auto simp: orchestrator_node_def)
  qed
  moreover have d: "g_dynamic_nodes batch_graph ''orchestrator'' = Some orchestrator_node"
    by (simp add: batch_graph_def graph_defs b_dynamic_node_def add_dynamic_node_def)
  ultimately show ?thesis unfolding answers_def d option.case by blast
qed

lemma dynamic_orchestration_results:
  fixes x :: 'x
  assumes "fits env \<lparr>bt_items = items, bt_current_item = last ([] # items), bt_results = map to_uppercase items\<rparr>"
  shows "\<exists>w. dynamic_orchestration items env x y = Some (Inr \<lparr>bt_items = items,
     bt_current_item = last ([] # items), bt_results = map to_uppercase items\<rparr>, w)"
proof -
  let ?g = "batch_graph :: (BatchState, 'x) graph"
  let ?s = "\<lparr>bt_items = items, bt_current_item = [], bt_results = []\<rparr>"
  let ?s' = "\<lparr>bt_items = items, bt_current_item = last ([] # items), bt_results = map to_uppercase items\<rparr>"
  have g: "g_node_configs ?g = Map.empty" "g_interrupt_before ?g = {}" "g_interrupt_after ?g = {}"
    "g_budget_eur ?g = None" "g_resource_limits ?g = resource_limits_default"
    "g_edges ?g ''orchestrator'' = Some (Unconditional end_node)"
    by (simp_all add: batch_graph_def graph_defs b_dynamic_node_def add_dynamic_node_def end_node_def)
  have "saveable env ?g ?s'" using assms by (auto simp: fits_def saveable_def g resource_limits_default_def)
  moreover have a: "answers ?g ''orchestrator'' input ?s (Inr (node_output_bare ?s'))" for input
    by (rule orchestrator_answers)
  ultimately have "passes (saveable env ?g) ?g (\<lambda>_ _. node_output_bare ?s') ''orchestrator'' ?s [(?s', end_node)]"
    using a by (simp add: plain_node_def plain_hop_def effective_node_budget_def resolve_next_node_def edge_target_def g
        node_output_bare_def end_node_def del: last.simps)
  then show ?thesis
    unfolding dynamic_orchestration_def run_eq
    by (rule run_path) (simp_all add: g resource_limits_default_def)
qed

lemma dynamic_orchestration_prints:
  "map to_uppercase [''hello'', ''world'', ''takeln''] = [''HELLO'', ''WORLD'', ''TAKELN'']"
  by code_simp

section \<open>llm\_call.rs\<close>

record ChatState =
  chat_prompt :: string
  chat_response :: string

definition llm_call_node :: "(ChatState, 'x) node" where
  "llm_call_node ctx s x = (let s = s\<lparr>chat_response := ''Answer to: '' @ chat_prompt s\<rparr>
     in (Ready 0 (Inr (node_output_with_llm s 150 300 ''gpt-4o'')), x))"

text \<open>The slice is one of bytes; on ASCII text, as here, it never splits a character.\<close>

definition summarize_node :: "(ChatState, 'x) node" where
  "summarize_node ctx s x =
     (let stop = min 20 (length (chat_response s));
          s = s\<lparr>chat_response := ''Summary: '' @ take stop (chat_response s)\<rparr>
      in (Ready 0 (Inr (node_output_with_llm s 300 100 ''gpt-4o-mini'')), x))"

definition llm_graph :: "(ChatState, 'x) graph" where
  "llm_graph = b_build (b_budget_eur (Fin 1) (b_edge ''summarize'' ''__END__'' (b_edge ''call_llm'' ''summarize''
     (b_node ''summarize'' summarize_node (b_node ''call_llm'' llm_call_node
       (graph_builder :: (ChatState, 'x, unit) GraphBuilder))))))"

definition llm_call :: "string \<Rightarrow> ChatState env \<Rightarrow> 'x \<Rightarrow> sys \<Rightarrow>
    (TakelnError, ChatState, ('x, mem_store) world) outcome" where
  "llm_call prompt env x y = run env llm_graph (memory_checkpointer env) ''chat_1''
     \<lparr>chat_prompt = prompt, chat_response = []\<rparr> ''call_llm'' None (fresh_world x y)"

text \<open>A thousand tokens each way cost less than a tenth of a cent.\<close>

lemma llm_cost:
  assumes "unat i \<le> 1000" and "unat k \<le> 1000"
  obtains v where "cost_or_zero (node_meta_llm i k model) = Fin v" "0 \<le> v" "v \<le> 1 / 1000"
proof -
  obtain a where a: "round64 (15 / 10 ^ 8) = Fin a" "0 \<le> a" "a \<le> 15 / 10 ^ 8 + 1 / 2 ^ 53"
    by (rule round64_le[of "15 / 10 ^ 8" "15 / 10 ^ 8"]) simp_all
  obtain b where b: "round64 (6 / 10 ^ 7) = Fin b" "0 \<le> b" "b \<le> 6 / 10 ^ 7 + 1 / 2 ^ 53"
    by (rule round64_le[of "6 / 10 ^ 7" "6 / 10 ^ 7"]) simp_all
  have word: "\<exists>x. f64_of_u32 n = Fin x \<and> 0 \<le> x \<and> x \<le> 1000" if "unat n \<le> 1000" for n
  proof -
    have "(of_nat (unat n) :: rat) \<le> of_nat 1000" using that unfolding of_nat_le_iff .
    then have "(of_nat (unat n) :: rat) \<le> 1000" unfolding of_nat_numeral .
    then show ?thesis unfolding f64_of_u32_def by (blast intro: of_nat_0_le_iff)
  qed
  obtain x y where x: "f64_of_u32 i = Fin x" "0 \<le> x" "x \<le> 1000" and y: "f64_of_u32 k = Fin y" "0 \<le> y" "y \<le> 1000"
    using word[OF assms(1)] word[OF assms(2)] by blast
  have "x * a \<le> 1000 * (15 / 10 ^ 8 + 1 / 2 ^ 53)" by (rule mult_mono) (use x a in simp_all)
  then have xa: "x * a \<le> 1 / 5000" by simp
  have "y * b \<le> 1000 * (6 / 10 ^ 7 + 1 / 2 ^ 53)" by (rule mult_mono) (use y b in simp_all)
  then have yb: "y * b \<le> 7 / 10000" by simp
  obtain p where p: "round64 (x * a) = Fin p" "0 \<le> p" "p \<le> 1 / 5000 + 1 / 2 ^ 53"
    by (rule round64_le[of "x * a" "1 / 5000"]) (use x(2) a(2) xa in simp_all)
  obtain q where q: "round64 (y * b) = Fin q" "0 \<le> q" "q \<le> 7 / 10000 + 1 / 2 ^ 53"
    by (rule round64_le[of "y * b" "7 / 10000"]) (use y(2) b(2) yb in simp_all)
  have "p + q \<le> 19 / 20000" using p(3) q(3) by simp
  then obtain v where v: "round64 (p + q) = Fin v" "0 \<le> v" "v \<le> 19 / 20000 + 1 / 2 ^ 53"
    using round64_le[of "p + q" "19 / 20000"] p(2) q(2) by auto
  have "v \<le> 1 / 1000" using v(3) by simp
  with v that show thesis by (simp add: cost_or_zero_def node_meta_llm_def Let_def x(1) y(1) a(1)[simplified] b(1)[simplified] p(1) q(1))
qed

lemma llm_call_answers:
  fixes x :: 'x
  assumes "\<And>r. fits env \<lparr>chat_prompt = prompt, chat_response = r\<rparr> \<or>
     r \<notin> {''Answer to: '' @ prompt, ''Summary: '' @ take 20 (''Answer to: '' @ prompt)}"
  shows "\<exists>w. llm_call prompt env x y =
     Some (Inr \<lparr>chat_prompt = prompt, chat_response = ''Summary: '' @ take 20 (''Answer to: '' @ prompt)\<rparr>, w)"
proof -
  let ?g = "llm_graph :: (ChatState, 'x) graph" and ?s = "\<lparr>chat_prompt = prompt, chat_response = []\<rparr>"
  let ?s1 = "\<lparr>chat_prompt = prompt, chat_response = ''Answer to: '' @ prompt\<rparr>"
  let ?s2 = "\<lparr>chat_prompt = prompt, chat_response = ''Summary: '' @ take 20 (''Answer to: '' @ prompt)\<rparr>"
  let ?F = "\<lambda>n (s :: ChatState). if n = ''call_llm'' then node_output_with_llm ?s1 150 300 ''gpt-4o''
      else node_output_with_llm ?s2 300 100 ''gpt-4o-mini''"
  let ?hops = "[(?s1, ''summarize''), (?s2, end_node)]"
  have g: "g_nodes ?g = [''call_llm'' \<mapsto> llm_call_node, ''summarize'' \<mapsto> summarize_node]"
    "g_edges ?g = [''call_llm'' \<mapsto> Unconditional ''summarize'', ''summarize'' \<mapsto> Unconditional end_node]"
    "g_node_configs ?g = Map.empty" "g_dynamic_nodes ?g = Map.empty" "g_interrupt_before ?g = {}"
    "g_interrupt_after ?g = {}" "g_budget_eur ?g = Some (Fin 1)" "g_resource_limits ?g = resource_limits_default"
    by (simp_all add: llm_graph_def graph_defs b_budget_eur_def set_budget_eur_def end_node_def)
  have sv: "saveable env ?g ?s1" "saveable env ?g ?s2"
    using assms[of "chat_response ?s1"] assms[of "chat_response ?s2"]
    by (auto simp: fits_def saveable_def g resource_limits_default_def)
  have stop: "take (min n (length r)) r = take n r" for n and r :: string by (simp add: min_def)
  have p: "passes (saveable env ?g) ?g ?F ''call_llm'' ?s ?hops"
    using sv by (simp add: stop plain_node_def plain_hop_def answers_def effective_node_budget_def resolve_next_node_def
        edge_target_def g node_output_with_llm_def end_node_def llm_call_node_def summarize_node_def Let_def)
  obtain a where a: "cost_or_zero (node_meta_llm 150 300 ''gpt-4o'') = Fin a" "0 \<le> a" "a \<le> 1 / 1000"
    by (rule llm_cost[of 150 300]) simp_all
  obtain b where b: "cost_or_zero (node_meta_llm 300 100 ''gpt-4o-mini'') = Fin b" "0 \<le> b" "b \<le> 1 / 1000"
    by (rule llm_cost[of 300 100]) simp_all
  obtain c where c: "round64 a = Fin c" "0 \<le> c" "c \<le> 1 / 1000 + 1 / 2 ^ 53"
    by (rule round64_le[OF a(2,3)]) simp
  obtain d where d: "round64 (c + b) = Fin d" "0 \<le> d" "d \<le> 1 / 400 + 1 / 2 ^ 53"
    by (rule round64_le[of "c + b" "1 / 400"]) (use b c in simp_all)
  have "affordable (g_budget_eur ?g) ?F (Fin 0) ''call_llm'' ?s ?hops"
    using c d by (simp add: g cost_within_def node_output_with_llm_def a(1) b(1))
  from run_path[OF p _ this, of ?s2] show ?thesis
    unfolding llm_call_def run_eq by (simp add: g resource_limits_default_def)
qed

text \<open>The prompt of the program.\<close>

lemma llm_call_prints: "''Summary: '' @ take 20 (''Answer to: '' @ ''What is Rust?'') = ''Summary: Answer to: What is R''"
  by simp

section \<open>hitl\_approval.rs\<close>

record PaymentState =
  pay_amount :: f64
  pay_recipient :: string
  pay_approved :: bool

definition prepare_payment_node :: "(PaymentState, 'x) node" where
  "prepare_payment_node = bare (\<lambda>s. s\<lparr>pay_amount := Fin 200, pay_recipient := ''Acme Corp''\<rparr>)"

text \<open>\<open>serde_json\<close> keeps the members of an object sorted.\<close>

definition approval_schema :: json where
  "approval_schema = JObject [(''enum'', JArray [JString ''yes'', JString ''no'']), (''type'', JString ''string'')]"

definition approval_request :: "PaymentState \<Rightarrow> YieldRequest" where
  "approval_request s = with_payload_ref ''mandate-ref-12345'' (with_resume_mode ReEntry
     (with_schema approval_schema (yield_new ''approve_payment''
       (''Approve $'' @ fmt2 (pay_amount s) @ '' to '' @ pay_recipient s @ ''?''))))"

definition request_approval_node :: "(PaymentState, 'x) node" where
  "request_approval_node ctx s x = (case cx_resumed_input ctx of
       Some v \<Rightarrow> bare (\<lambda>s. if v = JString ''yes'' then s\<lparr>pay_approved := True\<rparr> else s) ctx s x
     | None \<Rightarrow> (Ready 0 (Inl (Yield (approval_request s))), x))"

definition execute_payment_node :: "(PaymentState, 'x) node" where
  "execute_payment_node = bare (\<lambda>s. s)"

definition payment_graph :: "(PaymentState, 'x) graph" where
  "payment_graph = b_build (b_edge ''execute_payment'' ''__END__'' (b_edge ''request_approval'' ''execute_payment''
     (b_edge ''prepare'' ''request_approval'' (b_node ''execute_payment'' execute_payment_node
       (b_node ''request_approval'' request_approval_node (b_node ''prepare'' prepare_payment_node
         (graph_builder :: (PaymentState, 'x, unit) GraphBuilder)))))))"

text \<open>The program answers with \<open>json!("yes")\<close>; any other answer is open here.\<close>

definition hitl_approval :: "PaymentState env \<Rightarrow> json \<Rightarrow> 'x \<Rightarrow> sys \<Rightarrow>
    (TakelnError, PaymentState option, ('x, mem_store) world) outcome" where
  "hitl_approval env answer x y =
     then_ok (run env payment_graph (memory_checkpointer env) ''payment_1''
         \<lparr>pay_amount = Fin 0, pay_recipient = [], pay_approved = False\<rparr> ''prepare'' None (fresh_world x y))
       (\<lambda>_ w. resume_with_input env payment_graph (memory_checkpointer env) ''payment_1'' ''approve_payment''
          answer (resume_context_new ''manager_bob'') None w)"

lemma payment_graph_simps [simp]:
  "unconfigured payment_graph"
  "g_nodes payment_graph = [''prepare'' \<mapsto> prepare_payment_node, ''request_approval'' \<mapsto> request_approval_node,
     ''execute_payment'' \<mapsto> execute_payment_node]"
  "g_edges payment_graph = [''prepare'' \<mapsto> Unconditional ''request_approval'',
     ''request_approval'' \<mapsto> Unconditional ''execute_payment'', ''execute_payment'' \<mapsto> Unconditional ''__END__'']"
  by (simp_all add: unconfigured_def payment_graph_def graph_defs)

definition payment :: "bool \<Rightarrow> PaymentState" where
  "payment approved = \<lparr>pay_amount = Fin 200, pay_recipient = ''Acme Corp'', pay_approved = approved\<rparr>"

lemma approval_request_simps [simp]:
  "yr_interrupt_id (approval_request s) = ''approve_payment''" "yr_resume_mode (approval_request s) = ReEntry"
  "yr_schema (approval_request s) = Some approval_schema"
  by (simp_all add: approval_request_def with_payload_ref_def with_resume_mode_def with_schema_def yield_new_def)

text \<open>The first run: it stops at the approval, with the prepared payment.\<close>

lemma payment_waits:
  fixes x :: 'x
  assumes "fits env (payment False)"
  shows "\<exists>w c. run env payment_graph (memory_checkpointer env) ''payment_1''
      \<lparr>pay_amount = Fin 0, pay_recipient = [], pay_approved = False\<rparr> ''prepare'' None (fresh_world x y) =
      Some (Inr (payment False), w) \<and>
    waiting (w_store w) ''payment_1'' ''approve_payment'' c (approval_request (payment False)) \<and>
    e_from_value env (mc_state c) = Inr (payment False) \<and> mc_next_node c = ''request_approval''"
proof -
  let ?g = "payment_graph :: (PaymentState, 'x) graph" and ?hops = "[(payment False, ''request_approval'')]"
  let ?s = "\<lparr>pay_amount = Fin 0, pay_recipient = [], pay_approved = False\<rparr>"
  let ?T = "[''prepare'' \<mapsto> \<lambda>s. s\<lparr>pay_amount := Fin 200, pay_recipient := ''Acme Corp''\<rparr>]"
  have p: "passes (saveable env ?g) ?g (outputs ?T) ''prepare'' ?s ?hops"
    by (intro passes_bare)
       (use assms in \<open>simp_all add: edge_target_def end_node_def prepare_payment_node_def payment_def\<close>)
  have l: "(payment False, ''request_approval'') = last ((?s, ''prepare'') # ?hops)" by simp
  have u: "unconfigured ?g" by simp
  then have g: "?hops \<noteq> [] \<longrightarrow> 0 < max_execution_records (g_resource_limits ?g) \<and>
      ''request_approval'' \<notin> g_interrupt_before ?g"
    and b: "affordable (g_budget_eur ?g) (outputs ?T) (Fin 0) ''prepare'' ?s ?hops"
    and sz: "estimated_size env (payment False) \<le> max_checkpoint_bytes (g_resource_limits ?g)"
      "length ?hops < max_sequential_steps (g_resource_limits ?g)"
    using assms by (simp_all add: unconfigured_def resource_limits_default_def fits_def del: payment_graph_simps(1))
  have a: "answers ?g ''request_approval'' None (payment False) (Inl (Yield (approval_request (payment False))))"
    using u by (simp add: answers_def unconfigured_def request_approval_node_def del: payment_graph_simps(1))
  obtain v where v: "e_to_value env (payment False) = Inr v" "e_from_value env v = Inr (payment False)"
    using assms by (auto simp: fits_def)
  from run_until_yield[OF p l g a _ sz(1) v(1) sz(2) _ b, of "fresh_world x y" "''payment_1''"] obtain w cs c
    where r: "run env ?g (memory_checkpointer env) ''payment_1'' ?s ''prepare'' None (fresh_world x y) =
        Some (Inr (payment False), w)"
      and m: "mem_list (w_store w) ''payment_1'' = cs @ [c]" "list_all2 (checkpoint_of env) cs ?hops"
      and c: "mc_status c = CheckpointStatus.Yielded" "mc_next_node c = ''request_approval''" "mc_state c = v"
        "mc_yield_request c = Some (approval_request (payment False))" "mc_resolved_interrupt c = None"
      and cs: "\<forall>c' \<in> set cs. mc_resolved_interrupt c' = None"
      and np: "\<not> ms_poisoned (w_store w)" by (auto simp: end_node_def)
  have "waiting (w_store w) ''payment_1'' ''approve_payment'' c (approval_request (payment False))"
    using m(1) c cs np by (auto simp: waiting_def last_opt_def)
  with r c(2,3) v(2) show ?thesis by blast
qed

text \<open>What is left after the approval: one node, which changes nothing.\<close>

lemma payment_rest:
  fixes T :: "string \<rightharpoonup> (PaymentState \<Rightarrow> PaymentState)"
  assumes "fits env (payment approved)" and "T = [''execute_payment'' \<mapsto> \<lambda>s. s]"
  shows "plain_graph env (payment_graph :: (PaymentState, 'x) graph) {''execute_payment''}
      (\<lambda>_. {payment approved}) (outputs T)"
    and "ref_run (plain_hop (payment_graph :: (PaymentState, 'x) graph) (outputs T)) 999 ''execute_payment''
      (payment approved) = (Some (payment approved), [(payment approved, end_node)])"
proof -
  let ?s = "payment approved" and ?g = "payment_graph :: (PaymentState, 'x) graph"
  have u: "unconfigured ?g" by simp
  have e: "plain_node ?g {?s} (outputs T) ''execute_payment''"
    using u by (simp add: plain_node_def effective_node_budget_def answers_def unconfigured_def outputs_def
        execute_payment_node_def bare_def closure_def assms(2) del: payment_graph_simps(1))
  have h: "plain_hop ?g (outputs T) ''execute_payment'' ?s = (?s, end_node)"
    by (simp add: plain_hop_def outputs_def node_output_bare_def resolve_next_node_def edge_target_def
        end_node_def assms(2))
  show "plain_graph env ?g {''execute_payment''} (\<lambda>_. {?s}) (outputs T)"
    using u assms(1) e h by (simp add: plain_graph_def unconfigured_def resource_limits_default_def fits_def
        del: payment_graph_simps(1)) (simp add: end_node_def)
  have "ref_run (plain_hop ?g (outputs T)) 2 ''execute_payment'' ?s = (Some ?s, [(?s, end_node)])"
    by (simp add: numeral_2_eq_2 h) (simp add: end_node_def)
  from ref_run_more[OF this, of 999]
  show "ref_run (plain_hop ?g (outputs T)) 999 ''execute_payment'' ?s = (Some ?s, [(?s, end_node)])" by simp
qed

lemma payment_answered:
  fixes w :: "('x, mem_store) world"
  assumes "waiting (w_store w) ''payment_1'' ''approve_payment'' c (approval_request (payment False))"
    and "e_from_value env (mc_state c) = Inr (payment False)" and "mc_next_node c = ''request_approval''"
    and "fits env (payment approved)" and "answer = JString (if approved then ''yes'' else ''no'')"
  shows "\<exists>w'. resume_with_input env payment_graph (memory_checkpointer env) ''payment_1'' ''approve_payment''
     answer rctx None w = Some (Inr (Some (payment approved)), w')"
proof -
  let ?s = "payment approved" and ?g = "payment_graph :: (PaymentState, 'x) graph"
  note rest = payment_rest[OF assms(4) refl, where 'x = 'x]
  have ok: "input_ok env ''approve_payment'' answer (approval_request (payment False))"
    by (simp add: assms(5) input_ok_def validate_input_against_schema_def check_type_def check_enum_def
        approval_schema_def type_ok_def)
  have u: "unconfigured ?g" by simp
  have a: "answers ?g (mc_next_node c) (Some answer) (payment False) (Inr (node_output_bare ?s))"
    using u by (simp add: assms(3,5) answers_def request_approval_node_def bare_def closure_def payment_def
        unconfigured_def del: payment_graph_simps(1))
  have nx: "''execute_payment'' = resolve_next_node ?g (mc_next_node c) (node_output_bare ?s)"
    by (simp add: assms(3) resolve_next_node_def node_output_bare_def edge_target_def)
  have lim: "effective_node_budget ?g (mc_next_node c) = None" "mc_next_node c \<notin> g_interrupt_after ?g"
    "mc_next_node c \<noteq> end_node" "max_sequential_steps (g_resource_limits ?g) = Suc 999"
    using u by (simp_all add: effective_node_budget_def unconfigured_def assms(3) resource_limits_default_def
        del: payment_graph_simps(1)) (simp add: end_node_def)
  have enc: "\<forall>n :: string. \<forall>s \<in> {?s}. \<exists>v. e_to_value env s = Inr v" using assms(4) by (auto simp: fits_def)
  have f: "ref_run (plain_hop ?g (outputs [''execute_payment'' \<mapsto> \<lambda>s. s])) 999 ''execute_payment''
      (no_state (node_output_bare ?s)) = (Some ?s, [(?s, end_node)])"
    using rest(2) by (simp add: node_output_bare_def)
  from resume_reentry[OF assms(1) _ ok assms(2) a lim(1-3) rest(1) enc _ nx _ lim(4) f, of rctx]
  show ?thesis by (auto simp: node_output_bare_def)
qed

text \<open>C38: the program \<open>hitl_approval.rs\<close>, whatever the person answers: its run stops at the approval
  with the prepared payment; the answer "yes" ends in an approved payment, "no" in one that is not
  approved, and any other answer is refused by the schema.\<close>

theorem hitl_approval_outcome:
  fixes x :: 'x
  assumes "fits env (payment False)" and "fits env (payment True)"
  shows "\<exists>w reason. hitl_approval env answer x y = Some
     (if answer = JString ''yes'' then Inr (Some (payment True))
      else if answer = JString ''no'' then Inr (Some (payment False))
      else Inl (SchemaValidationFailed ''approve_payment'' reason), w)"
proof -
  obtain w c where r: "run env payment_graph (memory_checkpointer env) ''payment_1''
      \<lparr>pay_amount = Fin 0, pay_recipient = [], pay_approved = False\<rparr> ''prepare'' None (fresh_world x y) =
      Some (Inr (payment False), w)"
    and wt: "waiting (w_store w) ''payment_1'' ''approve_payment'' c (approval_request (payment False))"
    and dec: "e_from_value env (mc_state c) = Inr (payment False)" and n: "mc_next_node c = ''request_approval''"
    using payment_waits[OF assms(1), of x y] by blast
  have main: "hitl_approval env answer x y = resume_with_input env payment_graph (memory_checkpointer env)
      ''payment_1'' ''approve_payment'' answer (resume_context_new ''manager_bob'') None w"
    by (simp add: hitl_approval_def r)
  show ?thesis
  proof (cases "answer \<in> {JString ''yes'', JString ''no''}")
    case True
    then have "answer = JString (if answer = JString ''yes'' then ''yes'' else ''no'')" by auto
    from payment_answered[OF wt dec n _ this, where rctx = "resume_context_new ''manager_bob''"] assms True
    show ?thesis by (auto simp: main split: if_splits)
  next
    case False
    then have "\<exists>reason. validate_input_against_schema env ''approve_payment'' answer approval_schema =
        Inl (SchemaValidationFailed ''approve_payment'' reason)"
      by (simp add: validate_input_against_schema_def check_type_def check_enum_def approval_schema_def
          split: if_splits)
    then obtain reason where "validate_input_against_schema env ''approve_payment'' answer approval_schema =
        Inl (SchemaValidationFailed ''approve_payment'' reason)" by blast
    then have "hitl_approval env answer x y = Some (Inl (SchemaValidationFailed ''approve_payment'' reason),
        w\<lparr>w_store := claimed_store (w_store w) ''payment_1'' ''approve_payment'' c\<rparr>)"
      using wt by (simp add: main resume_waiting[OF wt dec] resume_claimed_def lift_result_def waiting_def)
    with False show ?thesis by auto
  qed
qed

text \<open>An environment whose serde functions are given.\<close>

definition coded_env :: "('s \<Rightarrow> json) \<Rightarrow> (json \<Rightarrow> 's) \<Rightarrow> 's env" where
  "coded_env enc dec = \<lparr>e_overflow_checks = True, e_now = (\<lambda>n. int n), e_min_time = - (10 ^ 24),
     e_rand = (\<lambda>n. of_nat (n * 7919)), e_uuid4 = (\<lambda>n. n), e_uuid5 = length,
     e_uuid_text = (\<lambda>u. replicate u (CHR ''u'')), e_from_std = Inr, e_to_value = (\<lambda>s. Inr (enc s)),
     e_from_value = (\<lambda>v. Inr (dec v)), e_state_text = (\<lambda>_. Some ''state''),
     e_value_text = (\<lambda>_. Some ''value''), e_sha256_hex = (\<lambda>t. t), e_debug_json = (\<lambda>_. ''value''),
     e_debug_str = (\<lambda>s. s)\<rparr>"

lemma coded_env_fits: "dec (enc s) = s \<Longrightarrow> fits (coded_env enc dec) s"
  by (simp add: fits_def coded_env_def estimated_size_def)

lemma coded_env_fresh: "uuids_fresh (coded_env enc dec)"
proof -
  have "inj (\<lambda>u :: nat. replicate u (CHR ''u''))" by (rule injI) (metis length_replicate)
  then show ?thesis by (simp add: uuids_fresh_def coded_env_def inj_on_def)
qed

definition payment_env :: "PaymentState env" where
  "payment_env = coded_env (\<lambda>s. JBool (pay_approved s)) (\<lambda>v. payment (v = JBool True))"

theorem hitl_approval_outcome_witness:
  "(\<exists>w. hitl_approval payment_env (JString ''yes'') (0 :: nat) sample_sys = Some (Inr (Some (payment True)), w)) \<and>
   (\<exists>w reason. hitl_approval payment_env (JBool True) (0 :: nat) sample_sys =
      Some (Inl (SchemaValidationFailed ''approve_payment'' reason), w))"
proof -
  have "fits payment_env (payment b)" for b unfolding payment_env_def by (rule coded_env_fits) (simp add: payment_def)
  note fits = this[of False] this[of True]
  show ?thesis
    using hitl_approval_outcome[OF fits, of "JString ''yes''" "0 :: nat" sample_sys]
      hitl_approval_outcome[OF fits, of "JBool True" "0 :: nat" sample_sys] by auto
qed

section \<open>with\_checkpointing.rs\<close>

record ResumableState =
  step_completed :: "string option"

definition node_a :: "(ResumableState, 'x) node" where
  "node_a = bare (\<lambda>s. s\<lparr>step_completed := Some ''NodeA''\<rparr>)"

definition yielding_node_b :: "(ResumableState, 'x) node" where
  "yielding_node_b ctx s x = (Ready 0 (Inl (Yield (yield_simple ''Interrupted''))), x)"

definition successful_node_b :: "(ResumableState, 'x) node" where
  "successful_node_b = bare (\<lambda>s. s\<lparr>step_completed := Some ''NodeB''\<rparr>)"

definition initial_graph :: "(ResumableState, 'x) graph" where
  "initial_graph = add_edge ''NodeB'' ''__END__'' (add_edge ''NodeA'' ''NodeB''
     (add_node ''NodeB'' yielding_node_b (add_node ''NodeA'' node_a graph_new)))"

definition resume_graph :: "(ResumableState, 'x) graph" where
  "resume_graph = add_edge ''NodeB'' ''__END__'' (add_node ''NodeB'' successful_node_b graph_new)"

definition with_checkpointing :: "ResumableState env \<Rightarrow> 'x \<Rightarrow> sys \<Rightarrow>
    (TakelnError, ResumableState option, ('x, mem_store) world) outcome" where
  "with_checkpointing env x y =
     then_ok (run env initial_graph (memory_checkpointer env) ''thread_chk'' \<lparr>step_completed = None\<rparr>
         ''NodeA'' None (fresh_world x y))
       (\<lambda>_ w. resume env resume_graph (memory_checkpointer env) ''thread_chk'' None w)"

lemma with_checkpointing_completes:
  fixes x :: 'x
  assumes "\<And>n. fits env \<lparr>step_completed = Some n\<rparr> \<or> n \<notin> {''NodeA'', ''NodeB''}"
  shows "\<exists>w. with_checkpointing env x y = Some (Inr (Some \<lparr>step_completed = Some ''NodeB''\<rparr>), w)"
proof -
  let ?g = "initial_graph :: (ResumableState, 'x) graph" and ?g2 = "resume_graph :: (ResumableState, 'x) graph"
  let ?a = "\<lparr>step_completed = Some ''NodeA''\<rparr>" and ?b = "\<lparr>step_completed = Some ''NodeB''\<rparr>"
  let ?T = "\<lambda>n. Some (\<lambda>s :: ResumableState. s\<lparr>step_completed := Some n\<rparr>)"
  have fa: "fits env ?a" and fb: "fits env ?b" using assms[of "''NodeA''"] assms[of "''NodeB''"] by simp_all
  have u: "unconfigured ?g" "unconfigured ?g2"
    by (simp_all add: unconfigured_def initial_graph_def resume_graph_def graph_defs)
  have p: "passes (saveable env ?g) ?g (outputs ?T) ''NodeA'' \<lparr>step_completed = None\<rparr> [(?a, ''NodeB'')]"
    by (intro passes_bare u)
       (use fa in \<open>simp_all add: initial_graph_def graph_defs edge_target_def end_node_def node_a_def\<close>)
  have p2: "passes (saveable env ?g2) ?g2 (outputs ?T) ''NodeB'' ?a [(?b, end_node)]"
    by (intro passes_bare u)
       (use fb in \<open>simp_all add: resume_graph_def graph_defs edge_target_def end_node_def successful_node_b_def\<close>)
  have y: "answers ?g ''NodeB'' None ?a (Inl (Yield (yield_simple ''Interrupted'')))"
    by (simp add: answers_def initial_graph_def graph_defs yielding_node_b_def)
  obtain v where v: "e_to_value env ?a = Inr v" "e_from_value env v = Inr ?a" using fa by (auto simp: fits_def)
  have l: "(?a, ''NodeB'') = last ((\<lparr>step_completed = None\<rparr>, ''NodeA'') # [(?a, ''NodeB'')])" by simp
  have g: "[(?a, ''NodeB'')] \<noteq> [] \<longrightarrow> 0 < max_execution_records (g_resource_limits ?g) \<and>
      ''NodeB'' \<notin> g_interrupt_before ?g" "estimated_size env ?a \<le> max_checkpoint_bytes (g_resource_limits ?g)"
      "length [(?a, ''NodeB'')] < max_sequential_steps (g_resource_limits ?g)"
      "affordable (g_budget_eur ?g) (outputs ?T) (Fin 0) ''NodeA'' \<lparr>step_completed = None\<rparr> [(?a, ''NodeB'')]"
    using u(1) fa by (simp_all add: unconfigured_def resource_limits_default_def fits_def)
  from run_until_yield[OF p l g(1) y _ g(2) v(1) g(3) _ g(4), of "fresh_world x y" "''thread_chk''"] obtain w cs c
    where r: "run env ?g (memory_checkpointer env) ''thread_chk'' \<lparr>step_completed = None\<rparr> ''NodeA'' None
        (fresh_world x y) = Some (Inr ?a, w)"
      and m: "mem_list (w_store w) ''thread_chk'' = cs @ [c]"
      and c: "mc_status c = CheckpointStatus.Yielded" "mc_next_node c = ''NodeB''" "mc_state c = v"
      and np: "\<not> ms_poisoned (w_store w)" by (auto simp: end_node_def)
  have "last_opt (mem_list (w_store w) ''thread_chk'') = Some c" using m by (simp add: last_opt_def)
  from resume_path[OF this np, of env ?a ?g2 "outputs ?T" "[(?b, end_node)]" ?b] p2 u(2) c v(2)
  obtain w' where "resume env ?g2 (memory_checkpointer env) ''thread_chk'' None w = Some (Inr (Some ?b), w')"
    by (auto simp: unconfigured_def resource_limits_default_def)
  then show ?thesis by (simp add: with_checkpointing_def r)
qed

section \<open>crash\_resume.rs\<close>

record WorkState =
  wk_progress :: "string list"

definition work_node :: "string \<Rightarrow> (WorkState, 'x) node" where
  "work_node step = bare (\<lambda>s. s\<lparr>wk_progress := wk_progress s @ [step]\<rparr>)"

text \<open>The program builds this graph twice.\<close>

definition work_graph :: "(WorkState, 'x) graph" where
  "work_graph =
     add_edge ''step_3'' ''__END__'' (add_edge ''step_2'' ''step_3'' (add_edge ''step_1'' ''step_2''
       (add_node ''step_3'' (work_node ''step_3'') (add_node ''step_2'' (work_node ''step_2'')
         (add_node ''step_1'' (work_node ''step_1'') graph_new)))))"

definition crash_resume_main :: "WorkState env \<Rightarrow> 'x \<Rightarrow> sys \<Rightarrow>
    (TakelnError, WorkState option, ('x, mem_store) world) outcome" where
  "crash_resume_main env x y =
     then_ok (run env (add_interrupt_after ''step_1'' work_graph) (memory_checkpointer env) ''job_1''
         \<lparr>wk_progress = []\<rparr> ''step_1'' None (fresh_world x y))
       (\<lambda>_ w. resume env (set_crash_recovery_policy CrashRecoveryPolicy.ResetToPending work_graph)
          (memory_checkpointer env) ''job_1'' None w)"

lemma crash_resume_main_completes:
  fixes x :: 'x
  assumes "\<And>p. fits env \<lparr>wk_progress = p\<rparr> \<or>
     p \<notin> {[''step_1''], [''step_1'', ''step_2''], [''step_1'', ''step_2'', ''step_3'']}"
  shows "\<exists>w. crash_resume_main env x y =
     Some (Inr (Some \<lparr>wk_progress = [''step_1'', ''step_2'', ''step_3'']\<rparr>), w)"
proof -
  let ?g = "work_graph :: (WorkState, 'x) graph" and ?i = "\<lparr>wk_progress = []\<rparr>"
  let ?T = "\<lambda>n. Some (\<lambda>s :: WorkState. s\<lparr>wk_progress := wk_progress s @ [n]\<rparr>)"
  let ?h = "(\<lparr>wk_progress = [''step_1'']\<rparr>, ''step_2'')"
  let ?hops = "[(\<lparr>wk_progress = [''step_1'', ''step_2'']\<rparr>, ''step_3''),
      (\<lparr>wk_progress = [''step_1'', ''step_2'', ''step_3'']\<rparr>, end_node)]"
  have u: "unconfigured ?g" by (simp add: unconfigured_def work_graph_def graph_defs)
  have p: "passes (saveable env ?g) ?g (outputs ?T) ''step_1'' ?i (?h # ?hops)"
    by (intro passes_bare u)
       (use assms in \<open>auto simp: work_graph_def graph_defs edge_target_def end_node_def work_node_def\<close>)
  have "fits env \<lparr>wk_progress = [''step_1'']\<rparr>" using assms[of "[''step_1'']"] by simp
  then have dec: "e_from_value env v = Inr \<lparr>wk_progress = [''step_1'']\<rparr>"
    if "e_to_value env \<lparr>wk_progress = [''step_1'']\<rparr> = Inr v" for v using that by (auto simp: fits_def)
  have reset: "set_crash_recovery_policy CrashRecoveryPolicy.ResetToPending ?g = ?g"
    by (simp add: set_crash_recovery_policy_def work_graph_def graph_defs)
  have "\<exists>w1 w2 w3. run env ?g (memory_checkpointer env) ''job_1'' ?i ''step_1'' None (fresh_world x y) =
       Some (Inr \<lparr>wk_progress = [''step_1'', ''step_2'', ''step_3'']\<rparr>, w1) \<and>
     run env (add_interrupt_after ''step_1'' ?g) (memory_checkpointer env) ''job_1'' ?i ''step_1'' None
       (fresh_world x y) = Some (Inr \<lparr>wk_progress = [''step_1'']\<rparr>, w2) \<and>
     resume env ?g (memory_checkpointer env) ''job_1'' None w2 =
       Some (Inr (Some \<lparr>wk_progress = [''step_1'', ''step_2'', ''step_3'']\<rparr>), w3)"
    by (rule stop_and_resume[OF p _ _ _ _ _ dec])
       (use u in \<open>simp_all add: unconfigured_def resource_limits_default_def\<close>, simp add: end_node_def)
  then show ?thesis by (auto simp: crash_resume_main_def reset)
qed

end
