(* ===== verification/Dag_Run.thy ===== *)
theory Dag_Run
  imports Sequential
begin

text \<open>
  \<open>Graph::run_dag\<close> and \<open>Graph::resume_dag\<close> of \<open>src/graph.rs\<close>: waves of ready nodes. The tasks
  of a wave are steps that are not divided further; the order in which they start and the order in
  which their results arrive are the runtime's, a \<open>scheduler\<close>. \<open>dag\<close> is mutated through the
  caller's reference, so every operation returns it with the world, errors included. A pass of the
  loop is \<open>wave_step\<close>; each launches at least one pending node, so \<open>wave_loop\<close> is a total function.
\<close>

section \<open>State\<close>

record scheduler =
  sc_start :: "nat \<Rightarrow> nat list \<Rightarrow> nat list"   \<comment> \<open>in the n-th wave, the order tasks get a permit\<close>
  sc_arrive :: "nat \<Rightarrow> nat list \<Rightarrow> nat list"  \<comment> \<open>the order in which \<open>join_next\<close> gives results\<close>
  sc_join_error :: "string \<Rightarrow> string"       \<comment> \<open>\<open>JoinError::to_string\<close> of a panic\<close>

text \<open>
  The trait \<open>Merge\<close> of \<open>src/merge.rs\<close> is a function that the caller gives: the merged state from
  \<open>self\<close> and \<open>other\<close>. A type with the \<open>merge\<close> crate's trait gets it from there.
\<close>

type_synonym 's Merge = "'s \<Rightarrow> 's \<Rightarrow> 's"

definition blanket_merge :: "('s \<Rightarrow> 's \<Rightarrow> 's) \<Rightarrow> 's Merge" where
  "blanket_merge crate_merge s other = crate_merge s other"

record ('s, 'x, 'st) dag_job =
  dj_env :: "'s env"
  dj_graph :: "('s, 'x) graph"
  dj_ck :: "('s, 'st) checkpointer"
  dj_thread_id :: string
  dj_token :: "cancel_token option"
  dj_merge :: "'s Merge"
  dj_sched :: scheduler

type_synonym ('a, 'x, 'st) dact =
  "('x, 'st) world \<times> DAG \<Rightarrow> (TakelnError, 'a, ('x, 'st) world \<times> DAG) outcome"

definition set_node_status :: "nat \<Rightarrow> NodeStatus \<Rightarrow> DAG \<Rightarrow> DAG" where
  "set_node_status i st d =
     d\<lparr>dag_nodes := (dag_nodes d)[i := (dag_nodes d ! i)\<lparr>dn_status := st\<rparr>]\<rparr>"

definition step_type_at :: "DAG \<Rightarrow> nat \<Rightarrow> string" where
  "step_type_at d i = dn_step_type (dag_nodes d ! i)"

definition types_with :: "(NodeStatus \<Rightarrow> bool) \<Rightarrow> DAG \<Rightarrow> string list" where
  "types_with P d = map dn_step_type (filter (\<lambda>n. P (dn_status n)) (dag_nodes d))"

definition ready_wave :: "uuid set \<Rightarrow> DAG \<Rightarrow> nat list" where
  "ready_wave completed d = filter (\<lambda>i. dn_status (dag_nodes d ! i) = NodeStatus.Pending \<and>
       (\<forall>dep \<in> set (dn_depends_on (dag_nodes d ! i)). dep \<in> completed)) [0..<length (dag_nodes d)]"

definition mark_running :: "nat list \<Rightarrow> DAG \<Rightarrow> DAG" where
  "mark_running ready d = fold (\<lambda>i. set_node_status i NodeStatus.Running) ready d"

section \<open>The tasks of a wave\<close>

text \<open>A task's result: \<open>None\<close> if it never ends, \<open>Inl m\<close> if it panics with \<open>m\<close>.\<close>

type_synonym 's task_result = "(string + 's node_result) option"

definition task_status :: "'s node_result \<Rightarrow> string \<times> f64 option" where
  "task_status r = (case r of
       Inr out \<Rightarrow> (''success'', nm_cost_eur (no_meta out))
     | Inl (Yield _) \<Rightarrow> (''yielded'', None)
     | Inl _ \<Rightarrow> (''failed'', None))"

definition dag_site ::
  "('s, 'x, 'st) dag_job \<Rightarrow> string \<Rightarrow> ('s, 'x) node \<Rightarrow> 's \<Rightarrow> ('s, 'x) call_site" where
  "dag_site j name node s = \<lparr>cs_env = dj_env j, cs_thread_id = dj_thread_id j, cs_node_name = name,
     cs_node = node, cs_retry = effective_retry (dj_graph j) name,
     cs_timeout = effective_timeout (dj_graph j) name, cs_token = dj_token j,
     cs_last_checkpoint_id = None, cs_budget_remaining = None, cs_state = s\<rparr>"

definition dag_call :: "('s, 'x, 'st) dag_job \<Rightarrow> string \<Rightarrow> ('s, 'x) node + ('s, 'x) dynamic_node \<Rightarrow> 's \<Rightarrow>
    ('x, 'st) world \<Rightarrow> ((string + 's node_result) \<times> u8 \<times> ('x, 'st) world) option" where
  "dag_call j name callee s w = (case callee of
       Inr dyn \<Rightarrow> call_dynamic (dj_env j) (g_nodes (dj_graph j)) dyn (dj_thread_id j) name None None
         (dj_token j) None s w
     | Inl node \<Rightarrow> retry_loop (dag_site j name node s) 0 None w)"

definition dag_task :: "('s, 'x, 'st) dag_job \<Rightarrow> string \<Rightarrow> ('s, 'x) node + ('s, 'x) dynamic_node \<Rightarrow> 's \<Rightarrow>
    ('x, 'st) world \<Rightarrow> 's task_result \<times> ('x, 'st) world" where
  "dag_task j name callee s w =
     (let (started_at, w) = read_clock (dj_env j) w;
          w = send_started (dj_thread_id j) name started_at w
      in case dag_call j name callee s w of
           None \<Rightarrow> (None, w)
         | Some (Inl m, _, w) \<Rightarrow> (Some (Inl m), w)
         | Some (Inr r, _, w) \<Rightarrow>
             (let (ms, w) = elapsed_ms (dj_env j) started_at w; (status, cost) = task_status r
              in (Some (Inr r), send_finished (dj_thread_id j) name ms status cost w)))"

text \<open>
  The tasks take the permits of the semaphore in turn; one that never ends keeps its permit, and
  without a permit the rest never run.
\<close>

fun run_tasks :: "('s, 'x, 'st) dag_job \<Rightarrow> DAG \<Rightarrow> 's \<Rightarrow> nat \<Rightarrow> nat list \<Rightarrow> ('x, 'st) world \<Rightarrow>
    (nat \<rightharpoonup> string + 's node_result) \<times> ('x, 'st) world" where
  "run_tasks j d s permits [] w = (Map.empty, w)"
| "run_tasks j d s 0 (i # is) w = (Map.empty, w)"
| "run_tasks j d s (Suc permits) (i # is) w = (case find_node (dj_graph j) (step_type_at d i) of
       None \<Rightarrow> run_tasks j d s (Suc permits) is w
     | Some callee \<Rightarrow>
         (case dag_task j (step_type_at d i) callee s w of
            (None, w) \<Rightarrow> run_tasks j d s permits is w
          | (Some r, w) \<Rightarrow> (case run_tasks j d s (Suc permits) is w of
                (m, w) \<Rightarrow> (m(i \<mapsto> r), w))))"

section \<open>Collecting a wave\<close>

record 's wave =
  wv_states :: "(nat \<times> 's) list"
  wv_cost :: f64
  wv_yielded :: bool
  wv_succeeded :: "string list"
  wv_failed :: "(string \<times> string) list"
  wv_request :: "YieldRequest option"
  wv_completed :: "uuid set"

definition wave_start :: "uuid set \<Rightarrow> 's wave" where
  "wave_start completed = \<lparr>wv_states = [], wv_cost = Fin 0, wv_yielded = False, wv_succeeded = [],
     wv_failed = [], wv_request = None, wv_completed = completed\<rparr>"

definition dag_record :: "string \<Rightarrow> timestamp \<Rightarrow> NodeMeta \<Rightarrow> ExecutionRecord" where
  "dag_record name t meta = \<lparr>er_node_name = name, er_started_at = t, er_duration_ms = 0,
     er_status = ''success'', er_cost_eur = nm_cost_eur meta, er_checkpoint_id = None,
     er_attempts = 0, er_actor = None, er_response_hash = None,
     er_tokens_in = nm_tokens_in meta, er_tokens_out = nm_tokens_out meta\<rparr>"

text \<open>A success (lines 944 to 1008): the node's budget is checked after the record is written.\<close>

definition collect_success :: "('s, 'x, 'st) dag_job \<Rightarrow> nat \<Rightarrow> 's NodeOutput \<Rightarrow> 's wave \<Rightarrow>
    ('s wave, 'x, 'st) dact" where
  "collect_success j i out wv = (\<lambda>(w, d).
     (let name = step_type_at d i; meta = no_meta out;
          w = emit_span (dj_thread_id j) name 0 0 (nm_cost_eur meta) SpanStatus.Success None meta w;
          w = observe (ONodeComplete name 0 SpanStatus.Success) w;
          (t, w) = read_clock (dj_env j) w;
          ok = (\<lambda>w. Some (Inr (wv\<lparr>wv_cost := fadd (wv_cost wv) (cost_or_zero meta),
                 wv_completed := insert (dn_id (dag_nodes d ! i)) (wv_completed wv),
                 wv_succeeded := wv_succeeded wv @ [name],
                 wv_states := wv_states wv @ [(i, no_state out)]\<rparr>),
                 (w, set_node_status i NodeStatus.Done d)))
      in case push_record (max_execution_records (g_resource_limits (dj_graph j)))
                (dag_record name t meta) w of
           None \<Rightarrow> None
         | Some (_, w) \<Rightarrow> (case effective_node_budget (dj_graph j) name of
               None \<Rightarrow> ok w
             | Some node_budget \<Rightarrow>
                 if fgt (cost_or_zero meta) node_budget
                 then Some (Inl (BudgetExceeded (cost_or_zero meta) node_budget), (w, d))
                 else ok w)))"

definition collect_yield :: "nat \<Rightarrow> YieldRequest \<Rightarrow> 's wave \<Rightarrow> ('s wave, 'x, 'st) dact" where
  "collect_yield i request wv = (\<lambda>(w, d). Some (Inr (wv\<lparr>wv_yielded := True,
     wv_request := Some request\<rparr>), (w, set_node_status i NodeStatus.Yielded d)))"

definition collect_failure :: "('s, 'x, 'st) dag_job \<Rightarrow> nat \<Rightarrow> GraphError \<Rightarrow> 's wave \<Rightarrow>
    ('s wave, 'x, 'st) dact" where
  "collect_failure j i e wv = (\<lambda>(w, d).
     (let d = set_node_status i NodeStatus.Failed d; name = step_type_at d i in
      case e of
        GBudgetExceeded spent limit \<Rightarrow> Some (Inl (BudgetExceeded spent limit), (w, d))
      | _ \<Rightarrow> (case g_wave_failure_policy (dj_graph j) of
            WaveFailurePolicy.FailFast \<Rightarrow> Some (Inl (ExecutionError (''Node '' @ name @ '' failed: '' @
                display_graph_error e)), (w, d))
          | WaveFailurePolicy.ContinueOnError \<Rightarrow>
              Some (Inr (wv\<lparr>wv_failed := wv_failed wv @ [(name, display_graph_error e)]\<rparr>), (w, d)))))"

definition collect_one :: "('s, 'x, 'st) dag_job \<Rightarrow> nat \<Rightarrow> string + 's node_result \<Rightarrow> 's wave \<Rightarrow>
    ('s wave, 'x, 'st) dact" where
  "collect_one j i r wv = (case r of
       Inl panic \<Rightarrow> (\<lambda>wd. Some (Inl (JoinError (sc_join_error (dj_sched j) panic)), wd))
     | Inr (Inr out) \<Rightarrow> collect_success j i out wv
     | Inr (Inl (Yield request)) \<Rightarrow> collect_yield i request wv
     | Inr (Inl e) \<Rightarrow> collect_failure j i e wv)"

text \<open>\<open>join_next\<close> waits for ever once only tasks that never end are left.\<close>

fun collect_wave :: "('s, 'x, 'st) dag_job \<Rightarrow> (nat \<rightharpoonup> string + 's node_result) \<Rightarrow> nat list \<Rightarrow> 's wave \<Rightarrow>
    ('s wave, 'x, 'st) dact" where
  "collect_wave j results [] wv wd = Some (Inr wv, wd)"
| "collect_wave j results (i # is) wv wd = (case results i of
       None \<Rightarrow> None
     | Some r \<Rightarrow> then_ok (collect_one j i r wv wd) (\<lambda>wv wd. collect_wave j results is wv wd))"

definition arrivals :: "('s, 'x, 'st) dag_job \<Rightarrow> nat \<Rightarrow> nat list \<Rightarrow>
    (nat \<rightharpoonup> string + 's node_result) \<Rightarrow> nat list" where
  "arrivals j wave_no ready results =
     (let order = sc_arrive (dj_sched j) wave_no ready
      in filter (\<lambda>i. results i \<noteq> None) order @ filter (\<lambda>i. results i = None) order)"

section \<open>A pass of the loop\<close>

record 's dag_state =
  ds_state :: 's
  ds_running_cost :: f64
  ds_completed :: "uuid set"
  ds_first_wave :: bool
  ds_expected_head :: "string option"
  ds_wave_no :: nat

datatype 's dag_flow = Next_Wave "'s dag_state" | Finish "'s dag_state" | Suspend 's

definition dag_save :: "('s, 'x, 'st) dag_job \<Rightarrow> 's \<Rightarrow> string \<Rightarrow> CheckpointStatus \<Rightarrow>
    YieldRequest option \<Rightarrow> string option \<Rightarrow> (string, 'x, 'st) dact" where
  "dag_save j s next_pending status request expected_head = (\<lambda>(w, d).
     (case checked_save (dj_env j) (g_resource_limits (dj_graph j)) (dj_ck j)
             \<lparr>sa_thread_id = dj_thread_id j, sa_state = s, sa_next_node = next_pending,
              sa_dag = Some d, sa_status = status, sa_yield_request = request,
              sa_claimed_interrupt = None, sa_resolved_interrupt = None\<rparr> expected_head w of
        None \<Rightarrow> None
      | Some (r, w) \<Rightarrow> Some (r, (w, d))))"

definition no_ready :: "'s dag_state \<Rightarrow> ('s dag_flow, 'x, 'st) dact" where
  "no_ready q = (\<lambda>(w, d).
     (let pending = types_with (\<lambda>st. st = NodeStatus.Pending) d
      in if pending \<noteq> [] then Some (Inl (DAGDeadlock (join '', '' pending)), (w, d))
         else Some (Inr (Finish q), (w, d))))"

definition wave_interrupt :: "('s, 'x, 'st) dag_job \<Rightarrow> 's dag_state \<Rightarrow> nat list \<Rightarrow>
    ('s dag_flow, 'x, 'st) dact" where
  "wave_interrupt j q ready wd =
     then_ok (dag_save j (ds_state q) (join '','' (map (step_type_at (snd wd)) ready))
                CheckpointStatus.Interrupted None (ds_expected_head q) wd)
       (\<lambda>_ wd. Some (Inr (Finish q), wd))"

text \<open>
  What follows the collection (lines 1046 to 1130). A yield saves the state from before the wave,
  and the results of the wave's other nodes are dropped.
\<close>

definition wave_suspend :: "('s, 'x, 'st) dag_job \<Rightarrow> 's dag_state \<Rightarrow> 's wave \<Rightarrow>
    ('s dag_flow, 'x, 'st) dact" where
  "wave_suspend j q wv wd =
     then_ok (dag_save j (ds_state q)
                (join '','' (types_with (\<lambda>st. st = NodeStatus.Yielded \<or> st = NodeStatus.Pending) (snd wd)))
                CheckpointStatus.Yielded (wv_request wv) (ds_expected_head q) wd)
       (\<lambda>_ wd. Some (Inr (Suspend (ds_state q)), wd))"

definition merge_wave :: "'s Merge \<Rightarrow> 's \<Rightarrow> (nat \<times> 's) list \<Rightarrow> 's" where
  "merge_wave merge s results = fold (\<lambda>(_, r) s. merge s r) (sort_key fst results) s"

definition first_pending :: "DAG \<Rightarrow> string" where
  "first_pending d = (case find (\<lambda>n. dn_status n = NodeStatus.Pending) (dag_nodes d) of
       None \<Rightarrow> end_node
     | Some n \<Rightarrow> dn_step_type n)"

definition wave_commit :: "('s, 'x, 'st) dag_job \<Rightarrow> 's dag_state \<Rightarrow> nat list \<Rightarrow> 's wave \<Rightarrow>
    ('s dag_flow, 'x, 'st) dact" where
  "wave_commit j q ready wv wd =
     (let s = merge_wave (dj_merge j) (ds_state q) (wv_states wv);
          running = fadd (ds_running_cost q) (wv_cost wv);
          commit = (\<lambda>wd. then_ok (dag_save j s (first_pending (snd wd)) CheckpointStatus.Complete
                              None (ds_expected_head q) wd)
            (\<lambda>c wd. let q = q\<lparr>ds_state := s, ds_running_cost := running,
                          ds_completed := wv_completed wv, ds_first_wave := False,
                          ds_expected_head := Some c, ds_wave_no := Suc (ds_wave_no q)\<rparr>
                    in if \<exists>i \<in> set ready. step_type_at (snd wd) i \<in> g_interrupt_after (dj_graph j)
                       then Some (Inr (Finish q), wd)
                       else Some (Inr (Next_Wave q), wd)))
      in case g_budget_eur (dj_graph j) of
           None \<Rightarrow> commit wd
         | Some budget \<Rightarrow>
             if fgt running budget then Some (Inl (BudgetExceeded running budget), wd)
             else commit wd)"

definition wave_finish :: "('s, 'x, 'st) dag_job \<Rightarrow> 's dag_state \<Rightarrow> nat list \<Rightarrow> 's wave \<Rightarrow>
    ('s dag_flow, 'x, 'st) dact" where
  "wave_finish j q ready wv wd =
     (if wv_failed wv \<noteq> []
      then Some (Inl (PartialWaveFailure (wv_succeeded wv) (wv_failed wv)), wd)
      else if wv_yielded wv then wave_suspend j q wv wd
      else wave_commit j q ready wv wd)"

text \<open>
  The launch (lines 774 to 932): an unknown step type is an error before any task of the wave has
  been polled.
\<close>

definition missing_node :: "('s, 'x) graph \<Rightarrow> DAG \<Rightarrow> nat list \<Rightarrow> string option" where
  "missing_node g d ready =
     find (\<lambda>name. find_node g name = None) (map (step_type_at d) ready)"

definition wave_launch :: "('s, 'x, 'st) dag_job \<Rightarrow> 's dag_state \<Rightarrow> nat list \<Rightarrow>
    ('s dag_flow, 'x, 'st) dact" where
  "wave_launch j q ready = (\<lambda>(w, d).
     (let d = mark_running ready d in
      case missing_node (dj_graph j) d ready of
        Some name \<Rightarrow> Some (Inl (NodeNotFound name), (w, d))
      | None \<Rightarrow>
          (let permits = max (max_concurrent_nodes (g_resource_limits (dj_graph j))) 1;
               (results, w) = run_tasks j d (ds_state q) permits
                  (sc_start (dj_sched j) (ds_wave_no q) ready) w
           in then_ok (collect_wave j results (arrivals j (ds_wave_no q) ready results)
                         (wave_start (ds_completed q)) (w, d))
                (\<lambda>wv wd. wave_finish j q ready wv wd))))"

definition wave_step :: "('s, 'x, 'st) dag_job \<Rightarrow> 's dag_state \<Rightarrow> ('s dag_flow, 'x, 'st) dact" where
  "wave_step j q = (\<lambda>(w, d).
     (let ready = ready_wave (ds_completed q) d in
      if ready = [] then no_ready q (w, d)
      else if \<not> ds_first_wave q \<and>
              (\<exists>i \<in> set ready. step_type_at d i \<in> g_interrupt_before (dj_graph j))
      then wave_interrupt j q ready (w, d)
      else wave_launch j (q\<lparr>ds_first_wave := False\<rparr>) ready (w, d)))"

section \<open>The loop\<close>

definition pending_count :: "DAG \<Rightarrow> nat" where
  "pending_count d = length (filter (\<lambda>n. dn_status n = NodeStatus.Pending) (dag_nodes d))"

lemma length_filter_update:
  "\<not> P v \<Longrightarrow> length (filter P (xs[i := v])) \<le> length (filter P xs)"
proof (induction xs arbitrary: i)
  case (Cons x xs)
  from Cons.IH[OF Cons.prems] show ?case
    by (cases i) (auto simp: Cons.prems intro: le_SucI)
qed simp

lemma length_filter_update_less:
  "\<not> P v \<Longrightarrow> i < length xs \<Longrightarrow> P (xs ! i) \<Longrightarrow>
     length (filter P (xs[i := v])) < length (filter P xs)"
proof (induction xs arbitrary: i)
  case (Cons x xs)
  then show ?case by (cases i) auto
qed simp

lemma pending_set_le:
  "st \<noteq> NodeStatus.Pending \<Longrightarrow> pending_count (set_node_status i st d) \<le> pending_count d"
  by (simp add: pending_count_def set_node_status_def length_filter_update)

lemma pending_mark_le: "pending_count (mark_running is d) \<le> pending_count d"
proof (induction "is" arbitrary: d)
  case (Cons i "is")
  from Cons[of "set_node_status i NodeStatus.Running d"]
    pending_set_le[of NodeStatus.Running i d]
  show ?case by (simp add: mark_running_def)
qed (simp add: mark_running_def)

lemma pending_mark_less:
  assumes "ready_wave completed d \<noteq> []"
  shows "pending_count (mark_running (ready_wave completed d) d) < pending_count d"
proof -
  from assms obtain i "is" where r: "ready_wave completed d = i # is"
    by (cases "ready_wave completed d") auto
  then have "i \<in> set (ready_wave completed d)" by simp
  then have "i < length (dag_nodes d)" "dn_status (dag_nodes d ! i) = NodeStatus.Pending"
    by (auto simp: ready_wave_def)
  then have "pending_count (set_node_status i NodeStatus.Running d) < pending_count d"
    by (simp add: pending_count_def set_node_status_def length_filter_update_less)
  with pending_mark_le[of "is" "set_node_status i NodeStatus.Running d"] show ?thesis
    by (simp add: r mark_running_def)
qed

lemma pending_collect_success:
  "collect_success j i out wv (w, d) = Some (r, (w', d')) \<Longrightarrow> pending_count d' \<le> pending_count d"
  by (auto simp: collect_success_def Let_def pending_set_le
      split: option.splits prod.splits if_splits)

lemma pending_collect_failure:
  "collect_failure j i e wv (w, d) = Some (r, (w', d')) \<Longrightarrow> pending_count d' \<le> pending_count d"
  by (auto simp: collect_failure_def Let_def pending_set_le
      split: GraphError.splits WaveFailurePolicy.splits)

lemma pending_collect_one:
  assumes "collect_one j i r wv (w, d) = Some (res, (w', d'))"
  shows "pending_count d' \<le> pending_count d"
proof (cases r)
  case (Inr res)
  show ?thesis
  proof (cases res)
    case (Inl e)
    with assms \<open>r = Inr res\<close> show ?thesis
      by (cases e) (auto simp: collect_one_def collect_yield_def pending_set_le
          dest!: pending_collect_failure)
  qed (use assms Inr in \<open>auto simp: collect_one_def dest!: pending_collect_success\<close>)
qed (use assms in \<open>auto simp: collect_one_def\<close>)

lemma pending_collect_wave:
  "collect_wave j results is wv (w, d) = Some (r, (w', d')) \<Longrightarrow> pending_count d' \<le> pending_count d"
proof (induction "is" arbitrary: wv w d)
  case (Cons i "is")
  then obtain res where res: "results i = Some res" by (auto split: option.splits)
  show ?case
  proof (cases "collect_one j i res wv (w, d)")
    case None
    with Cons.prems res show ?thesis by simp
  next
    case (Some x)
    then obtain r1 w1 d1 where c: "collect_one j i res wv (w, d) = Some (r1, (w1, d1))"
      by (cases x) auto
    from Cons.prems res c pending_collect_one[OF c] show ?thesis
      by (cases r1) (auto dest!: Cons.IH)
  qed
qed simp

lemma dag_save_dag:
  "dag_save j s n st r h (w, d) = Some (res, (w', d')) \<Longrightarrow> d' = d"
  by (auto simp: dag_save_def split: option.splits)

lemma wave_commit_dag:
  assumes "wave_commit j q ready wv (w, d) = Some (res, (w', d'))"
  shows "d' = d"
  using assms
  by (auto simp: wave_commit_def Let_def then_ok_Some
      split: option.splits if_splits dest!: dag_save_dag)

lemma wave_finish_next:
  "wave_finish j q ready wv (w, d) = Some (Inr (Next_Wave q'), (w', d')) \<Longrightarrow> d' = d"
  by (auto simp: wave_finish_def wave_suspend_def then_ok_Some
      split: if_splits dest: wave_commit_dag)

lemma wave_step_decreases:
  assumes "wave_step j q (w, d) = Some (Inr (Next_Wave q'), (w', d'))"
  shows "pending_count d' < pending_count d"
proof -
  let ?ready = "ready_wave (ds_completed q) d"
  have ne: "?ready \<noteq> []"
    using assms by (auto simp: wave_step_def no_ready_def Let_def split: if_splits)
  have l: "wave_launch j (q\<lparr>ds_first_wave := False\<rparr>) ?ready (w, d) = Some (Inr (Next_Wave q'), (w', d'))"
    using assms ne
    by (auto simp: wave_step_def Let_def wave_interrupt_def then_ok_Some split: if_splits)
  have "pending_count d' \<le> pending_count (mark_running ?ready d)"
    using l by (auto simp: wave_launch_def Let_def then_ok_Some split: option.splits prod.splits
        dest!: wave_finish_next pending_collect_wave)
  with pending_mark_less[OF ne] show ?thesis by simp
qed

function wave_loop :: "('s, 'x, 'st) dag_job \<Rightarrow> 's dag_state \<Rightarrow> ('x, 'st) world \<times> DAG \<Rightarrow>
    (TakelnError, 's, ('x, 'st) world \<times> DAG) outcome" where
  "wave_loop j q wd = (case wave_step j q wd of
       None \<Rightarrow> None
     | Some (Inl e, wd) \<Rightarrow> Some (Inl e, wd)
     | Some (Inr (Suspend s), wd) \<Rightarrow> Some (Inr s, wd)
     | Some (Inr (Finish q), (w, d)) \<Rightarrow>
         Some (Inr (ds_state q), (send_graph_finished (dj_thread_id j) (ds_running_cost q) w, d))
     | Some (Inr (Next_Wave q), wd) \<Rightarrow> wave_loop j q wd)"
  by pat_completeness auto

termination
  by (relation "measure (\<lambda>(_, _, (_, d)). pending_count d)") (auto dest!: wave_step_decreases)

declare wave_loop.simps [simp del]

text \<open>How the loop goes on after a wave.\<close>

lemma wave_loop_step:
  "wave_step j q wd = Some (Inl e, wd') \<Longrightarrow> wave_loop j q wd = Some (Inl e, wd')"
  "wave_step j q wd = Some (Inr (Suspend s), wd') \<Longrightarrow> wave_loop j q wd = Some (Inr s, wd')"
  "wave_step j q wd = Some (Inr (Finish q'), (w, d)) \<Longrightarrow> wave_loop j q wd =
     Some (Inr (ds_state q'), (send_graph_finished (dj_thread_id j) (ds_running_cost q') w, d))"
  "wave_step j q wd = Some (Inr (Next_Wave q'), wd') \<Longrightarrow> wave_loop j q wd = wave_loop j q' wd'"
  by (simp_all add: wave_loop.simps[of j q wd])

definition dag_start :: "'s \<Rightarrow> DAG \<Rightarrow> string option \<Rightarrow> 's dag_state" where
  "dag_start s d head = \<lparr>ds_state = s, ds_running_cost = Fin 0,
     ds_completed = dn_id ` {n \<in> set (dag_nodes d). dn_status n = NodeStatus.Done},
     ds_first_wave = True, ds_expected_head = head, ds_wave_no = 0\<rparr>"

definition max_depth_global :: u8 where
  "max_depth_global = 8"

definition run_dag :: "('s, 'x, 'st) dag_job \<Rightarrow> 's \<Rightarrow> u8 \<Rightarrow> ('s, 'x, 'st) dact" where
  "run_dag j s depth = (\<lambda>(w, d).
     (let limit = max_dag_nodes (g_resource_limits (dj_graph j)) in
      if max_depth_global < depth
      then Some (Inl (RecursionLimitExceeded depth max_depth_global), (w, d))
      else if limit < length (dag_nodes d)
      then Some (Inl (ExecutionError (''DAG has '' @ show_nat (length (dag_nodes d)) @
             '' nodes, exceeding max_dag_nodes limit of '' @ show_nat limit)), (w, d))
      else (case on_store (ck_current_head (dj_ck j) (dj_thread_id j)) w of
          None \<Rightarrow> None
        | Some (Inl e, w) \<Rightarrow> Some (Inl e, (w, d))
        | Some (Inr head, w) \<Rightarrow> wave_loop j (dag_start s d head) (w, d))))"

section \<open>Resuming a DAG\<close>

definition recover_node :: "CrashRecoveryPolicy \<Rightarrow> DAGNode \<Rightarrow> DAGNode" where
  "recover_node policy n =
     (if dn_status n = NodeStatus.Running
      then (case policy of
           CrashRecoveryPolicy.ResetToPending \<Rightarrow> n\<lparr>dn_status := NodeStatus.Pending\<rparr>
         | CrashRecoveryPolicy.SkipAndContinue \<Rightarrow> n\<lparr>dn_status := NodeStatus.Done\<rparr>
         | CrashRecoveryPolicy.FailFast \<Rightarrow> n)
      else n)"

definition recover_dag :: "CrashRecoveryPolicy \<Rightarrow> CheckpointMeta \<Rightarrow> DAG \<Rightarrow> DAG" where
  "recover_dag policy meta d =
     (if cm_status meta = CheckpointStatus.Running
      then d\<lparr>dag_nodes := map (recover_node policy) (dag_nodes d)\<rparr> else d)"

definition dag_crash_fail_fast :: "string \<Rightarrow> TakelnError" where
  "dag_crash_fail_fast thread_id = ExecutionError (''DAG checkpoint for thread '' @ quoted thread_id @
     '' has Running status (crash detected). FailFast policy applied.'')"

definition resume_dag :: "('s, 'x, 'st) dag_job \<Rightarrow> u8 \<Rightarrow> ('s option, 'x, 'st) dact" where
  "resume_dag j depth = (\<lambda>(w, d).
     (case on_store (ck_load_state (dj_ck j) (dj_thread_id j)) w of
        None \<Rightarrow> None
      | Some (Inl e, w) \<Rightarrow> Some (Inl e, (w, d))
      | Some (Inr (Some (s, meta, Some saved_dag)), w) \<Rightarrow>
          (let policy = g_crash_recovery_policy (dj_graph j) in
           if cm_status meta = CheckpointStatus.Running \<and> policy = CrashRecoveryPolicy.FailFast
           then Some (Inl (dag_crash_fail_fast (dj_thread_id j)), (w, d))
           else then_ok (run_dag j s depth (w, recover_dag policy meta (restore_statuses d saved_dag)))
                  (\<lambda>final wd. Some (Inr (Some final), wd)))
      | Some (Inr _, w) \<Rightarrow> Some (Inr None, (w, d))))"

end
