(* ===== verification/Dag_Facts.thy ===== *)
theory Dag_Facts
  imports Dag_Run Seq_Spec "HOL-Library.Multiset"
begin

text \<open>
  The abstract meaning of a DAG run, \<open>ref_waves\<close>: wave after wave, the outputs of the ready nodes
  merged in the order of the nodes. The lemmas show that a graph whose nodes succeed at once
  implements it, in whatever order the runtime starts the tasks of a wave and gives their results,
  and that an acyclic DAG is run to its end.
\<close>

section \<open>Statuses\<close>

definition done_ids :: "DAG \<Rightarrow> uuid set" where
  "done_ids d = dn_id ` {n \<in> set (dag_nodes d). dn_status n = NodeStatus.Done}"

definition set_statuses :: "NodeStatus \<Rightarrow> nat list \<Rightarrow> DAG \<Rightarrow> DAG" where
  "set_statuses st is d = fold (\<lambda>i. set_node_status i st) is d"

lemma set_node_status_simps [simp]:
  "length (dag_nodes (set_node_status i st d)) = length (dag_nodes d)"
  "dag_id (set_node_status i st d) = dag_id d"
  "dag_created_at (set_node_status i st d) = dag_created_at d"
  by (simp_all add: set_node_status_def)

lemma set_node_status_nth:
  "k < length (dag_nodes d) \<Longrightarrow> dag_nodes (set_node_status i st d) ! k =
     (if k = i then (dag_nodes d ! k)\<lparr>dn_status := st\<rparr> else dag_nodes d ! k)"
  by (simp add: set_node_status_def nth_list_update)

lemma set_statuses_simps [simp]:
  "set_statuses st [] d = d"
  "set_statuses st (i # is) d = set_statuses st is (set_node_status i st d)"
  "length (dag_nodes (set_statuses st is d)) = length (dag_nodes d)"
  "dag_id (set_statuses st is d) = dag_id d"
  "dag_created_at (set_statuses st is d) = dag_created_at d"
proof -
  show "length (dag_nodes (set_statuses st is d)) = length (dag_nodes d)"
    "dag_id (set_statuses st is d) = dag_id d"
    "dag_created_at (set_statuses st is d) = dag_created_at d"
    by (induction "is" arbitrary: d) (simp_all add: set_statuses_def)
qed (simp_all add: set_statuses_def)

lemma set_statuses_nth:
  "k < length (dag_nodes d) \<Longrightarrow> dag_nodes (set_statuses st is d) ! k =
     (if k \<in> set is then (dag_nodes d ! k)\<lparr>dn_status := st\<rparr> else dag_nodes d ! k)"
  by (induction "is" arbitrary: d) (simp_all add: set_node_status_nth)

text \<open>What a node is, apart from its status.\<close>

definition skeleton :: "DAG \<Rightarrow> (uuid \<times> string \<times> uuid list) list" where
  "skeleton d = map (\<lambda>n. (dn_id n, dn_step_type n, dn_depends_on n)) (dag_nodes d)"

lemma skeleton_set [simp]: "skeleton (set_statuses st is d) = skeleton d"
  by (rule nth_equalityI) (simp_all add: skeleton_def set_statuses_nth)

lemma mark_running_eq: "mark_running is d = set_statuses NodeStatus.Running is d"
  by (simp add: mark_running_def set_statuses_def)

lemma nth_beyond: "length xs \<le> k \<Longrightarrow> xs ! k = [] ! (k - length xs)"
  using nth_append[of xs "[]" k] by simp

lemma step_type_set_node [simp]: "step_type_at (set_node_status i st d) k = step_type_at d k"
proof (cases "k < length (dag_nodes d)")
  case True
  then show ?thesis by (simp add: step_type_at_def set_node_status_nth)
next
  case False
  then show ?thesis
    using nth_beyond[of "dag_nodes d" k] nth_beyond[of "dag_nodes (set_node_status i st d)" k]
    by (simp add: step_type_at_def)
qed

lemma step_type_set [simp]: "step_type_at (set_statuses st is d) k = step_type_at d k"
  by (induction "is" arbitrary: d) simp_all

lemma dn_id_set: "k < length (dag_nodes d) \<Longrightarrow>
    dn_id (dag_nodes (set_statuses st is d) ! k) = dn_id (dag_nodes d ! k)"
  by (simp add: set_statuses_nth)

lemma dag_eqI:
  fixes d d' :: DAG
  assumes "length (dag_nodes d) = length (dag_nodes d')"
    and "\<And>k. k < length (dag_nodes d') \<Longrightarrow> dag_nodes d ! k = dag_nodes d' ! k"
    and "dag_id d = dag_id d'" and "dag_created_at d = dag_created_at d'"
  shows "d = d'"
  using assms by (metis DAG.surjective old.unit.exhaust nth_equalityI)

text \<open>Only the set of the nodes whose status is written counts.\<close>

lemma done_after_running:
  "set is = set ready \<Longrightarrow> set_statuses NodeStatus.Done is (mark_running ready d) =
     set_statuses NodeStatus.Done ready d"
  by (rule dag_eqI) (auto simp: mark_running_eq set_statuses_nth)

lemma done_ids_nth: "done_ids d =
    {dn_id (dag_nodes d ! k) | k. k < length (dag_nodes d) \<and> dn_status (dag_nodes d ! k) = NodeStatus.Done}"
  by (auto simp: done_ids_def in_set_conv_nth)

lemma done_ids_set:
  assumes "\<And>i. i \<in> set is \<Longrightarrow> i < length (dag_nodes d)"
  shows "done_ids (set_statuses NodeStatus.Done is d) =
     done_ids d \<union> {dn_id (dag_nodes d ! i) | i. i \<in> set is}"
proof -
  have st: "dn_status (dag_nodes (set_statuses NodeStatus.Done is d) ! k) = NodeStatus.Done \<longleftrightarrow>
      dn_status (dag_nodes d ! k) = NodeStatus.Done \<or> k \<in> set is" if "k < length (dag_nodes d)" for k
    using that by (simp add: set_statuses_nth)
  show ?thesis
  proof (rule set_eqI)
    fix u
    show "u \<in> done_ids (set_statuses NodeStatus.Done is d) \<longleftrightarrow>
        u \<in> done_ids d \<union> {dn_id (dag_nodes d ! i) | i. i \<in> set is}"
      using assms by (simp add: done_ids_nth) (metis st dn_id_set)
  qed
qed

lemma ready_wave_iff: "i \<in> set (ready_wave completed d) \<longleftrightarrow> i < length (dag_nodes d) \<and>
    dn_status (dag_nodes d ! i) = NodeStatus.Pending \<and> set (dn_depends_on (dag_nodes d ! i)) \<subseteq> completed"
  by (auto simp: ready_wave_def)

lemma ready_wave_sorted [simp]: "sorted (ready_wave completed d)" "distinct (ready_wave completed d)"
  by (simp_all add: ready_wave_def sorted_wrt_filter)

lemma pending_finish_less:
  assumes "ready_wave c d \<noteq> []"
  shows "pending_count (set_statuses NodeStatus.Done (ready_wave c d) d) < pending_count d"
proof -
  have le: "pending_count (set_statuses NodeStatus.Done is d) \<le> pending_count d" for "is" d
  proof (induction "is" arbitrary: d)
    case (Cons i "is")
    from Cons[of "set_node_status i NodeStatus.Done d"] pending_set_le[of NodeStatus.Done i d]
    show ?case by simp
  qed simp
  from assms obtain i "is" where r: "ready_wave c d = i # is" by (cases "ready_wave c d") auto
  then have "i < length (dag_nodes d)" "dn_status (dag_nodes d ! i) = NodeStatus.Pending"
    using ready_wave_iff[of i c d] by auto
  then have "pending_count (set_node_status i NodeStatus.Done d) < pending_count d"
    by (simp add: pending_count_def set_node_status_def length_filter_update_less)
  with le[of "is" "set_node_status i NodeStatus.Done d"] show ?thesis by (simp add: r)
qed

section \<open>The abstract run\<close>

definition wave_merge :: "('s \<Rightarrow> 's \<Rightarrow> 's) \<Rightarrow> (string \<Rightarrow> 's \<Rightarrow> 's) \<Rightarrow> DAG \<Rightarrow> nat list \<Rightarrow> 's \<Rightarrow> 's" where
  "wave_merge merge out d ready s = foldl (\<lambda>a i. merge a (out (step_type_at d i) s)) s ready"

text \<open>The state and the DAG after each wave.\<close>

fun ref_waves :: "('s \<Rightarrow> 's \<Rightarrow> 's) \<Rightarrow> (string \<Rightarrow> 's \<Rightarrow> 's) \<Rightarrow> nat \<Rightarrow> DAG \<Rightarrow> 's \<Rightarrow> ('s \<times> DAG) list" where
  "ref_waves merge out 0 d s = []"
| "ref_waves merge out (Suc fuel) d s =
     (let ready = ready_wave (done_ids d) d; s' = wave_merge merge out d ready s;
          d' = set_statuses NodeStatus.Done ready d
      in if ready = [] then [] else (s', d') # ref_waves merge out fuel d' s')"

definition ref_outcome :: "'s \<Rightarrow> DAG \<Rightarrow> TakelnError + 's" where
  "ref_outcome s d = (let pending = types_with (\<lambda>st. st = NodeStatus.Pending) d
     in if pending = [] then Inr s else Inl (DAGDeadlock (join '', '' pending)))"

lemma length_ref_waves: "length (ref_waves merge out fuel d s) \<le> fuel"
  by (induction fuel arbitrary: d s) (simp_all add: Let_def)

section \<open>Tasks that succeed\<close>

text \<open>
  The tasks of a wave over the nodes \<open>A\<close> all end, with the results \<open>R\<close>.
\<close>

definition wave_results :: "(string \<Rightarrow> 's \<Rightarrow> 's node_result) \<Rightarrow> DAG \<Rightarrow> 's \<Rightarrow> nat set \<Rightarrow>
    (nat \<rightharpoonup> string + 's node_result)" where
  "wave_results R d s A = (\<lambda>i. if i \<in> A then Some (Inr (R (step_type_at d i) s)) else None)"

lemma task_answers:
  assumes "answers (dj_graph j) name None s res" and "dj_token j = None"
    and "find_node (dj_graph j) name = Some callee"
    and "\<And>msg. res \<noteq> Inl (Retryable msg)"
  shows "\<exists>w'. dag_task j name callee s w = (Some (Inr res), w') \<and> quiet w w'"
proof -
  obtain t w1 where c: "read_clock (dj_env j) w = (t, w1)" by fastforce
  let ?w1 = "send_started (dj_thread_id j) name t w1"
  have "\<exists>w2. dag_call j name callee s ?w1 = Some (Inr res, 0, w2) \<and> quiet ?w1 w2"
    using assms(1)
  proof (cases rule: answers_callee)
    case (1 node)
    have "\<exists>w2. retry_loop (dag_site j name node s) 0 None ?w1 = Some (Inr res, 0, w2) \<and> quiet ?w1 w2"
      by (rule retry_loop_answers) (simp_all add: dag_site_def 1(2) assms(2,4))
    with 1(1) assms(3) show ?thesis by (auto simp: dag_call_def)
  next
    case (2 dyn)
    have c: "callee = Inr dyn" using assms(3) 2(1) by simp
    show ?thesis unfolding dag_call_def c sum.case
      by (rule call_dynamic_answers[where dyn = dyn and s = s and nodes = "g_nodes (dj_graph j)", OF 2(2)])
  qed
  then obtain w2 where r: "dag_call j name callee s ?w1 = Some (Inr res, 0, w2)"
    and q2: "quiet ?w1 w2" by auto
  obtain ms w3 where e: "elapsed_ms (dj_env j) t w2 = (ms, w3)" by fastforce
  have "quiet w w2" using quiet_trans[OF read_clock_quiet[OF c]] q2 by simp
  from quiet_trans[OF this elapsed_ms_quiet[OF e]] show ?thesis
    by (simp add: dag_task_def c r e split: prod.splits)
qed

lemma find_node_answers: "answers g name input s res \<Longrightarrow> \<exists>callee. find_node g name = Some callee"
  by (rule answers_callee) auto

lemma run_tasks_answer:
  assumes "dj_token j = None"
    and "\<And>i. i \<in> set is \<Longrightarrow> answers (dj_graph j) (step_type_at d i) None s (R (step_type_at d i) s) \<and>
       (\<forall>msg. R (step_type_at d i) s \<noteq> Inl (Retryable msg))"
  shows "\<exists>w'. run_tasks j d s (Suc permits) is w = (wave_results R d s (set is), w') \<and> quiet w w'"
  using assms(2)
proof (induction "is" arbitrary: w)
  case Nil
  then show ?case by (auto simp: wave_results_def)
next
  case (Cons i "is")
  let ?n = "step_type_at d i"
  have a: "answers (dj_graph j) ?n None s (R ?n s)" "\<And>msg. R ?n s \<noteq> Inl (Retryable msg)"
    using Cons.prems[of i] by simp_all
  obtain callee where n: "find_node (dj_graph j) ?n = Some callee"
    using find_node_answers[OF a(1)] by blast
  obtain w1 where t: "dag_task j ?n callee s w = (Some (Inr (R ?n s)), w1)"
    and st1: "quiet w w1" using task_answers[OF a(1) assms(1) n a(2)] by blast
  obtain w2 where r: "run_tasks j d s (Suc permits) is w1 = (wave_results R d s (set is), w2)"
    and st2: "quiet w1 w2" using Cons.IH[of w1] Cons.prems by auto
  have "(wave_results R d s (set is))(i \<mapsto> Inr (R ?n s)) = wave_results R d s (set (i # is))"
    by (auto simp: wave_results_def fun_eq_iff)
  then show ?case using quiet_trans[OF st1 st2] by (simp add: n t r)
qed

lemma collect_success_plain:
  assumes "effective_node_budget (dj_graph j) (step_type_at d i) = None"
    and "0 < max_execution_records (g_resource_limits (dj_graph j))"
  shows "\<exists>w'. collect_success j i out wv (w, d) =
       Some (Inr (wv\<lparr>wv_cost := fadd (wv_cost wv) (cost_or_zero (no_meta out)),
           wv_completed := insert (dn_id (dag_nodes d ! i)) (wv_completed wv),
           wv_succeeded := wv_succeeded wv @ [step_type_at d i],
           wv_states := wv_states wv @ [(i, no_state out)]\<rparr>), (w', set_node_status i NodeStatus.Done d)) \<and> quiet w w'"
proof -
  let ?w = "observe (ONodeComplete (step_type_at d i) 0 SpanStatus.Success) (emit_span (dj_thread_id j)
      (step_type_at d i) 0 0 (nm_cost_eur (no_meta out)) SpanStatus.Success None (no_meta out) w)"
  obtain t w1 where c: "read_clock (dj_env j) ?w = (t, w1)" by fastforce
  show ?thesis
    using read_clock_quiet[OF c] assms
    by (simp add: collect_success_def Let_def c push_record_def evict_pos quiet_def)
qed

text \<open>Whatever the order of the results, the wave collects the same states and statuses.\<close>

lemma collect_wave_plain:
  assumes "0 < max_execution_records (g_resource_limits (dj_graph j))"
    and "\<And>i. i \<in> set is \<Longrightarrow> i \<in> A \<and> i < length (dag_nodes d) \<and>
       effective_node_budget (dj_graph j) (step_type_at d i) = None"
    and "wv_failed wv = []" and "\<not> wv_yielded wv" and "\<And>i. step_type_at d0 i = step_type_at d i"
  shows "\<exists>wv' w'. collect_wave j (wave_results (\<lambda>n s. Inr (F n s)) d0 s A) is wv (w, d) =
       Some (Inr wv', (w', set_statuses NodeStatus.Done is d)) \<and> quiet w w' \<and>
     wv_failed wv' = [] \<and> \<not> wv_yielded wv' \<and>
     wv_states wv' = wv_states wv @ map (\<lambda>i. (i, no_state (F (step_type_at d i) s))) is \<and>
     wv_completed wv' = wv_completed wv \<union> {dn_id (dag_nodes d ! i) | i. i \<in> set is}"
  using assms(2-5)
proof (induction "is" arbitrary: wv w d)
  case Nil
  then show ?case by auto
next
  case (Cons i "is")
  let ?out = "F (step_type_at d i) s" and ?d = "set_node_status i NodeStatus.Done d"
  have nb: "effective_node_budget (dj_graph j) (step_type_at d i) = None" and i: "i \<in> A"
    "i < length (dag_nodes d)" using Cons.prems(1) by simp_all
  obtain wv1 w1 where c: "collect_success j i ?out wv (w, d) = Some (Inr wv1, (w1, ?d))"
    and st1: "quiet w w1"
    and wv1: "wv_failed wv1 = []" "\<not> wv_yielded wv1"
      "wv_completed wv1 = insert (dn_id (dag_nodes d ! i)) (wv_completed wv)"
      "wv_states wv1 = wv_states wv @ [(i, no_state ?out)]"
    using collect_success_plain[OF nb assms(1), of ?out wv w] Cons.prems(2,3) by auto
  have ids: "dn_id (dag_nodes ?d ! k) = dn_id (dag_nodes d ! k)" if "k \<in> set is" for k
    using that Cons.prems(1) by (simp add: set_node_status_nth)
  obtain wv' w' where r: "collect_wave j (wave_results (\<lambda>n s. Inr (F n s)) d0 s A) is wv1 (w1, ?d) =
       Some (Inr wv', (w', set_statuses NodeStatus.Done is ?d))" and st: "quiet w1 w'"
    and wv': "wv_failed wv' = []" "\<not> wv_yielded wv'"
     "wv_states wv' = wv_states wv1 @ map (\<lambda>i. (i, no_state (F (step_type_at d i) s))) is"
     "wv_completed wv' = wv_completed wv1 \<union> {dn_id (dag_nodes ?d ! i) | i. i \<in> set is}"
    using Cons.IH[of ?d wv1 w1] wv1(1,2) Cons.prems(1,4) by auto
  have "wave_results (\<lambda>n s. Inr (F n s)) d0 s A i = Some (Inr (Inr ?out))"
    using i Cons.prems(4) by (simp add: wave_results_def)
  then have "collect_wave j (wave_results (\<lambda>n s. Inr (F n s)) d0 s A) (i # is) wv (w, d) =
      Some (Inr wv', (w', set_statuses NodeStatus.Done (i # is) d))"
    by (simp add: collect_one_def c r)
  moreover have "{dn_id (dag_nodes ?d ! k) | k. k \<in> set is} = {dn_id (dag_nodes d ! k) | k. k \<in> set is}"
    using ids by force
  ultimately show ?case
    using quiet_trans[OF st1 st] wv1 wv' by (auto simp del: collect_wave.simps)
qed

text \<open>The merge of a wave depends on the results only, not on their order.\<close>

lemma merge_wave_order:
  assumes "mset is = mset ready" and "sorted ready" and "distinct ready"
  shows "merge_wave merge s (map (\<lambda>i. (i, x i)) is) = foldl (\<lambda>a i. merge a (x i)) s ready"
proof -
  have "sort_key fst (map (\<lambda>i. (i, x i)) is) = map (\<lambda>i. (i, x i)) ready"
  proof (rule sort_key_inj_key_eq)
    show "mset (map (\<lambda>i. (i, x i)) is) = mset (map (\<lambda>i. (i, x i)) ready)" using assms(1) by simp
    show "inj_on fst (set (map (\<lambda>i. (i, x i)) is))" by (auto simp: inj_on_def)
    show "sorted (map fst (map (\<lambda>i. (i, x i)) ready))" using assms(2) by (simp add: comp_def)
  qed
  then show ?thesis by (simp add: merge_wave_def foldl_conv_fold fold_map comp_def)
qed

section \<open>A wave\<close>

text \<open>The runtime starts every task of a wave and gives every result, in whatever order.\<close>

definition permutes_tasks :: "scheduler \<Rightarrow> bool" where
  "permutes_tasks sc \<longleftrightarrow>
     (\<forall>n is. mset (sc_start sc n is) = mset is \<and> mset (sc_arrive sc n is) = mset is)"

abbreviation plain_out :: "(string \<Rightarrow> 's \<Rightarrow> 's NodeOutput) \<Rightarrow> string \<Rightarrow> 's \<Rightarrow> 's" where
  "plain_out F n s \<equiv> no_state (F n s)"

text \<open>
  The DAGs and states \<open>W\<close> between the waves of a run: the ready nodes succeed at
  once with the outputs \<open>F\<close>, and what the wave makes of the DAG and the state is again in \<open>W\<close>.
\<close>

definition plain_dag :: "'s env \<Rightarrow> ('s, 'x) graph \<Rightarrow> ('s \<Rightarrow> 's \<Rightarrow> 's) \<Rightarrow> (DAG \<times> 's) set \<Rightarrow>
    (string \<Rightarrow> 's \<Rightarrow> 's NodeOutput) \<Rightarrow> bool" where
  "plain_dag env g merge W F \<longleftrightarrow> g_budget_eur g = None \<and>
     0 < max_execution_records (g_resource_limits g) \<and>
     (\<forall>(d, s) \<in> W. estimated_size env s \<le> max_checkpoint_bytes (g_resource_limits g) \<and>
        (let ready = ready_wave (done_ids d) d
         in (\<forall>i \<in> set ready. plain_node g {s} F (step_type_at d i)) \<and>
            (ready \<noteq> [] \<longrightarrow> (set_statuses NodeStatus.Done ready d,
               wave_merge merge (plain_out F) d ready s) \<in> W)))"

lemma plain_dag_wave:
  assumes "plain_dag env g merge W F" and "(d, s) \<in> W" and "ready = ready_wave (done_ids d) d"
  shows "estimated_size env s \<le> max_checkpoint_bytes (g_resource_limits g)"
    and "i \<in> set ready \<Longrightarrow> plain_node g {s} F (step_type_at d i)"
    and "ready \<noteq> [] \<Longrightarrow>
       (set_statuses NodeStatus.Done ready d, wave_merge merge (plain_out F) d ready s) \<in> W"
  using assms by (auto simp: plain_dag_def Let_def)

text \<open>
  A wave whose nodes all answer collects the results \<open>R\<close>, in the order in which they arrive.
\<close>

lemma permuted_sets:
  assumes "permutes_tasks sc"
  shows "set (sc_start sc n ready) = set ready" "set (sc_arrive sc n ready) = set ready"
  using assms unfolding permutes_tasks_def by (metis set_mset_mset)+

lemma mark_running_frame [simp]:
  "step_type_at (mark_running is d) i = step_type_at d i"
  "length (dag_nodes (mark_running is d)) = length (dag_nodes d)"
  "wave_results R (mark_running is d) = wave_results R d"
  by (simp_all add: mark_running_eq wave_results_def fun_eq_iff)

lemma answered_launch:
  assumes "dj_token j = None" and "permutes_tasks (dj_sched j)"
    and "\<And>i. i \<in> set ready \<Longrightarrow>
       answers (dj_graph j) (step_type_at d i) None (ds_state q) (R (step_type_at d i) (ds_state q)) \<and>
       (\<forall>msg. R (step_type_at d i) (ds_state q) \<noteq> Inl (Retryable msg))"
  shows "\<exists>w'. quiet w w' \<and> wave_launch j q ready (w, d) =
       then_ok (collect_wave j (wave_results R d (ds_state q) (set ready))
           (sc_arrive (dj_sched j) (ds_wave_no q) ready) (wave_start (ds_completed q))
           (w', mark_running ready d)) (wave_finish j q ready)"
proof -
  let ?s = "ds_state q" and ?d = "mark_running ready d"
  let ?order = "sc_start (dj_sched j) (ds_wave_no q) ready"
  let ?permits = "max (max_concurrent_nodes (g_resource_limits (dj_graph j))) 1"
  note set = permuted_sets[OF assms(2)]
  obtain k where k: "?permits = Suc k" by (cases ?permits) auto
  have "\<exists>w'. run_tasks j ?d ?s ?permits ?order w = (wave_results R ?d ?s (set ?order), w') \<and> quiet w w'"
    unfolding k by (rule run_tasks_answer[OF assms(1)]) (use assms(3) in \<open>simp add: set\<close>)
  then obtain w' where run: "run_tasks j ?d ?s ?permits ?order w = (wave_results R d ?s (set ready), w')"
    and q: "quiet w w'" unfolding set(1) mark_running_frame by blast
  have arr: "arrivals j (ds_wave_no q) ready (wave_results R d ?s (set ready)) =
      sc_arrive (dj_sched j) (ds_wave_no q) ready"
    unfolding arrivals_def Let_def wave_results_def using set(2)[of _ ready]
    by (simp add: filter_id_conv filter_empty_conv)
  have "missing_node (dj_graph j) ?d ready = None"
    using assms(3) find_node_answers by (fastforce simp: missing_node_def find_None_iff)
  with run q show ?thesis
    by (intro exI[of _ w']) (simp add: wave_launch_def Let_def arr)
qed

lemma plain_launch:
  assumes "dj_token j = None" and "plain_dag (dj_env j) (dj_graph j) (dj_merge j) W F"
    and "permutes_tasks (dj_sched j)" and "(d, ds_state q) \<in> W"
    and "ready = ready_wave (done_ids d) d" and "ds_completed q = done_ids d"
  shows "\<exists>wv w'. wave_launch j q ready (w, d) =
       wave_finish j q ready wv (w', set_statuses NodeStatus.Done ready d) \<and> quiet w w' \<and>
     wv_failed wv = [] \<and> \<not> wv_yielded wv \<and>
     wv_completed wv = done_ids (set_statuses NodeStatus.Done ready d) \<and>
     merge_wave (dj_merge j) (ds_state q) (wv_states wv) =
       wave_merge (dj_merge j) (plain_out F) d ready (ds_state q)"
proof -
  let ?g = "dj_graph j" and ?s = "ds_state q" and ?d = "mark_running ready d"
  let ?arrive = "sc_arrive (dj_sched j) (ds_wave_no q) ready"
  have m: "mset ?arrive = mset ready" using assms(3) by (simp add: permutes_tasks_def)
  note set = permuted_sets(2)[OF assms(3)]
  have ans: "answers ?g (step_type_at d i) None ?s (Inr (F (step_type_at d i) ?s))"
    and nb: "effective_node_budget ?g (step_type_at d i) = None"
    and len: "i < length (dag_nodes d)" if "i \<in> set ready" for i
    using plain_dag_wave(2)[OF assms(2,4,5) that] that by (auto simp: assms(5) plain_node_def ready_wave_iff)
  have recs: "0 < max_execution_records (g_resource_limits ?g)"
    using assms(2) by (simp add: plain_dag_def)
  obtain w1 where st1: "quiet w w1" and launch: "wave_launch j q ready (w, d) =
      then_ok (collect_wave j (wave_results (\<lambda>n s. Inr (F n s)) d ?s (set ready)) ?arrive
        (wave_start (ds_completed q)) (w1, ?d)) (wave_finish j q ready)"
    using answered_launch[OF assms(1,3), of ready d q "\<lambda>n s. Inr (F n s)" w] ans by auto
  have ids: "{dn_id (dag_nodes ?d ! i) | i. i \<in> set ready} = {dn_id (dag_nodes d ! i) | i. i \<in> set ready}"
    unfolding mark_running_eq by (rule Collect_cong) (metis len dn_id_set)
  have nodes: "\<And>i. i \<in> set ?arrive \<Longrightarrow> i \<in> set ready \<and> i < length (dag_nodes ?d) \<and>
      effective_node_budget ?g (step_type_at ?d i) = None" using len nb by (simp add: set)
  obtain wv w2 where col: "collect_wave j (wave_results (\<lambda>n s. Inr (F n s)) d ?s (set ready)) ?arrive
      (wave_start (ds_completed q)) (w1, ?d) = Some (Inr wv, (w2, set_statuses NodeStatus.Done ?arrive ?d))"
    and st2: "quiet w1 w2" and wv: "wv_failed wv = []" "\<not> wv_yielded wv"
      "wv_states wv = map (\<lambda>i. (i, plain_out F (step_type_at d i) ?s)) ?arrive"
      "wv_completed wv = ds_completed q \<union> {dn_id (dag_nodes ?d ! i) | i. i \<in> set ?arrive}"
    using collect_wave_plain[of j ?arrive "set ready" ?d "wave_start (ds_completed q)" d F ?s w1, OF recs nodes]
    unfolding wave_start_def mark_running_frame by auto
  have merged: "merge_wave (dj_merge j) ?s (wv_states wv) = wave_merge (dj_merge j) (plain_out F) d ready ?s"
    unfolding wv(3) wave_merge_def by (rule merge_wave_order[OF m]) (simp_all add: assms(5))
  have comp: "wv_completed wv = done_ids (set_statuses NodeStatus.Done ready d)"
    unfolding wv(4) set ids assms(6) by (rule done_ids_set[symmetric]) (rule len)
  have "wave_launch j q ready (w, d) = wave_finish j q ready wv (w2, set_statuses NodeStatus.Done ready d)"
    using done_after_running[OF set] by (simp add: launch col)
  then show ?thesis using wv(1,2) comp merged quiet_trans[OF st1 st2] by (intro exI[of _ wv] exI[of _ w2]) simp
qed

lemma no_ready_loop:
  assumes "ready_wave (ds_completed q) d = []"
  shows "\<exists>w'. wave_loop j q (w, d) = Some (ref_outcome (ds_state q) d, (w', d)) \<and> quiet w w' \<and>
     w_ext w' = w_ext w"
proof (cases "types_with (\<lambda>st. st = NodeStatus.Pending) d = []")
  case True
  then have "wave_step j q (w, d) = Some (Inr (Finish q), (w, d))"
    by (simp add: wave_step_def no_ready_def assms Let_def)
  then have "wave_loop j q (w, d) = Some (Inr (ds_state q),
      (send_graph_finished (dj_thread_id j) (ds_running_cost q) w, d))"
    by (simp add: wave_loop_step(3))
  then show ?thesis by (simp add: ref_outcome_def True send_graph_finished_def next_seq_def observe_def quiet_def)
next
  case False
  then have "wave_step j q (w, d) = Some (Inl (DAGDeadlock
      (join '', '' (types_with (\<lambda>st. st = NodeStatus.Pending) d))), (w, d))"
    by (simp add: wave_step_def no_ready_def assms Let_def)
  then have "wave_loop j q (w, d) = Some (ref_outcome (ds_state q) d, (w, d))"
    by (simp add: wave_loop_step(1) ref_outcome_def False)
  then show ?thesis by blast
qed

text \<open>The entry a wave leaves: its state and its DAG.\<close>

definition wave_entry :: "('s \<Rightarrow> TakelnError + 'v) \<Rightarrow> 'v journal_entry \<Rightarrow> 's \<times> DAG \<Rightarrow> bool" where
  "wave_entry enc e sd \<longleftrightarrow> enc (fst sd) = Inr (je_state e) \<and> je_dag e = Some (snd sd) \<and>
     je_next_node e = first_pending (snd sd) \<and> je_status e = CheckpointStatus.Complete \<and>
     je_yield_request e = None \<and> je_claimed_interrupt e = None \<and> je_resolved_interrupt e = None"

context journal_runner
begin

lemma dag_save_ok:
  assumes "dj_ck j = ck" and "usable (store_at w)" and "enc s = Inr v"
    and "estimated_size (dj_env j) s \<le> max_checkpoint_bytes (g_resource_limits (dj_graph j))"
  shows "\<exists>c w' tm. dag_save j s n status request h (w, d) = Some (Inr c, (w', d)) \<and>
     appended (dj_thread_id j) [entry_of \<lparr>sa_thread_id = dj_thread_id j, sa_state = s, sa_next_node = n,
       sa_dag = Some d, sa_status = status, sa_yield_request = request, sa_claimed_interrupt = None,
       sa_resolved_interrupt = None\<rparr> v c tm] (store_at w) (store_at w')"
proof -
  let ?a = "\<lparr>sa_thread_id = dj_thread_id j, sa_state = s, sa_next_node = n, sa_dag = Some d,
      sa_status = status, sa_yield_request = request, sa_claimed_interrupt = None,
      sa_resolved_interrupt = None\<rparr>"
  have "enc (sa_state ?a) = Inr v" using assms(3) by simp
  from save_bound_ok[OF assms(2) this, of h] obtain c tm st y where
    "save_bound ck ?a h w = Some (Inr c, w\<lparr>w_store := st, w_sys := y\<rparr>)"
    and a: "appended (dj_thread_id j) [entry_of ?a v c tm] (store_at w) (st, y)" by auto
  then have "dag_save j s n status request h (w, d) = Some (Inr c, (w\<lparr>w_store := st, w_sys := y\<rparr>, d))"
    using assms(4) by (simp add: dag_save_def checked_save_def assms(1) lift_result_def
        check_checkpoint_size_def)
  with a show ?thesis by fastforce
qed

lemma dag_save_complete:
  assumes "dj_ck j = ck" and "usable (store_at w)" and "enc s = Inr v"
    and "estimated_size (dj_env j) s \<le> max_checkpoint_bytes (g_resource_limits (dj_graph j))"
  shows "\<exists>c w' e. dag_save j s (first_pending d) CheckpointStatus.Complete None h (w, d) =
       Some (Inr c, (w', d)) \<and> appended (dj_thread_id j) [e] (store_at w) (store_at w') \<and> wave_entry enc e (s, d)"
  using dag_save_ok[OF assms, of "first_pending d" CheckpointStatus.Complete None h d]
  by (fastforce simp: wave_entry_def entry_of_def assms(3))

lemma plain_wave:
  assumes "dj_ck j = ck" and "dj_token j = None" and "usable (store_at w)"
    and "plain_dag (dj_env j) (dj_graph j) (dj_merge j) W F" and "\<forall>(d, s) \<in> W. \<exists>v. enc s = Inr v"
    and "permutes_tasks (dj_sched j)" and "(d, ds_state q) \<in> W" and "ds_completed q = done_ids d"
    and "ready = ready_wave (done_ids d) d" and "ready \<noteq> []"
    and "d' = set_statuses NodeStatus.Done ready d"
    and "s' = wave_merge (dj_merge j) (plain_out F) d ready (ds_state q)"
  shows "\<exists>q' w' e. wave_step j q (w, d) = Some (Inr (Next_Wave q'), (w', d')) \<and>
     ds_state q' = s' \<and> ds_completed q' = done_ids d' \<and> (d', s') \<in> W \<and>
     appended (dj_thread_id j) [e] (store_at w) (store_at w') \<and> wave_entry enc e (s', d')"
proof -
  let ?g = "dj_graph j" and ?q = "q\<lparr>ds_first_wave := False\<rparr>"
  have "(d, ds_state ?q) \<in> W" "ds_completed ?q = done_ids d" using assms(7,8) by simp_all
  from plain_launch[OF assms(2,4,6) this(1) assms(9) this(2), of w] obtain wv w2
    where l: "wave_launch j ?q ready (w, d) = wave_finish j ?q ready wv (w2, d')"
    and q2: "quiet w w2" and wv: "wv_failed wv = []" "\<not> wv_yielded wv"
      "wv_completed wv = done_ids d'" "merge_wave (dj_merge j) (ds_state q) (wv_states wv) = s'"
    by (auto simp: assms(11,12))
  have pn: "plain_node ?g {ds_state q} F (step_type_at d i)" if "i \<in> set ready" for i
    using plain_dag_wave(2)[OF assms(4,7,9) that] .
  have inS: "(d', s') \<in> W" unfolding assms(11,12) using plain_dag_wave(3)[OF assms(4,7,9,10)] .
  from assms(5) inS obtain v where v: "enc s' = Inr v" by blast
  note us = usable_quiet[OF q2 assms(3)]
  have size: "estimated_size (dj_env j) s' \<le> max_checkpoint_bytes (g_resource_limits ?g)"
    using plain_dag_wave(1)[OF assms(4) inS refl] .
  have bud: "g_budget_eur ?g = None" using assms(4) by (simp add: plain_dag_def)
  obtain c w3 e where sv: "dag_save j s' (first_pending d') CheckpointStatus.Complete None
      (ds_expected_head q) (w2, d') = Some (Inr c, (w3, d'))"
    and a: "appended (dj_thread_id j) [e] (store_at w2) (store_at w3)" "wave_entry enc e (s', d')"
    using dag_save_complete[OF assms(1) us v size] by blast
  let ?q' = "?q\<lparr>ds_state := s', ds_running_cost := fadd (ds_running_cost q) (wv_cost wv),
      ds_completed := wv_completed wv, ds_first_wave := False, ds_expected_head := Some c,
      ds_wave_no := Suc (ds_wave_no q)\<rparr>"
  have "\<not> (\<exists>i \<in> set ready. step_type_at d' i \<in> g_interrupt_after ?g)"
    using pn by (auto simp: assms(11) plain_node_def)
  then have "wave_finish j ?q ready wv (w2, d') = Some (Inr (Next_Wave ?q'), (w3, d'))"
    by (simp add: wave_finish_def wv wave_commit_def bud sv Let_def)
  moreover have "wave_step j q (w, d) = wave_launch j ?q ready (w, d)"
    using pn assms(8,9,10) by (auto simp: wave_step_def Let_def plain_node_def)
  ultimately show ?thesis using wv inS a l
    by (intro exI[of _ ?q'] exI[of _ w3] exI[of _ e]) (simp add: appended_quiet(2)[OF q2])
qed

lemma plain_waves:
  assumes "dj_ck j = ck" and "dj_token j = None"
    and "plain_dag (dj_env j) (dj_graph j) (dj_merge j) W F" and "\<forall>(d, s) \<in> W. \<exists>v. enc s = Inr v"
    and "permutes_tasks (dj_sched j)"
  shows "usable (store_at w) \<Longrightarrow> (d, ds_state q) \<in> W \<Longrightarrow> ds_completed q = done_ids d \<Longrightarrow>
     pending_count d \<le> fuel \<Longrightarrow>
     waves = ref_waves (dj_merge j) (plain_out F) fuel d (ds_state q) \<Longrightarrow>
     (s', d') = last ((ds_state q, d) # waves) \<Longrightarrow>
     \<exists>w' es. wave_loop j q (w, d) = Some (ref_outcome s' d', (w', d')) \<and>
       appended (dj_thread_id j) es (store_at w) (store_at w') \<and>
       list_all2 (wave_entry enc) es waves"
proof (induction fuel arbitrary: q w d waves)
  case 0
  then have "ready_wave (done_ids d) d = []"
    using pending_finish_less[of "done_ids d" d] by (cases "ready_wave (done_ids d) d = []") simp_all
  then have "ready_wave (ds_completed q) d = []" using 0 by simp
  from no_ready_loop[OF this, of j w] obtain w' where
    "wave_loop j q (w, d) = Some (ref_outcome (ds_state q) d, (w', d))" "quiet w w'" by blast
  with 0 appended_quiet(1) show ?case by (intro exI[of _ w'] exI[of _ "[]"]) simp
next
  case (Suc fuel)
  let ?ready = "ready_wave (done_ids d) d"
  show ?case
  proof (cases "?ready = []")
    case True
    then have "ready_wave (ds_completed q) d = []" using Suc.prems(3) by simp
    from no_ready_loop[OF this, of j w] obtain w' where
      "wave_loop j q (w, d) = Some (ref_outcome (ds_state q) d, (w', d))" "quiet w w'" by blast
    with Suc.prems True appended_quiet(1) show ?thesis by (intro exI[of _ w'] exI[of _ "[]"]) simp
  next
    case False
    define d1 where "d1 = set_statuses NodeStatus.Done ?ready d"
    define s1 where "s1 = wave_merge (dj_merge j) (plain_out F) d ?ready (ds_state q)"
    from plain_wave[OF assms(1,2) Suc.prems(1) assms(3,4,5) Suc.prems(2,3) refl False d1_def s1_def]
    obtain q' w1 e where st: "wave_step j q (w, d) = Some (Inr (Next_Wave q'), (w1, d1))"
      and q': "ds_state q' = s1" "ds_completed q' = done_ids d1" "(d1, s1) \<in> W"
      and a: "appended (dj_thread_id j) [e] (store_at w) (store_at w1)" and e: "wave_entry enc e (s1, d1)" by blast
    have le: "pending_count d1 \<le> fuel"
      using pending_finish_less[OF False] Suc.prems(4) by (simp add: d1_def)
    let ?rest = "ref_waves (dj_merge j) (plain_out F) fuel d1 s1"
    have w: "waves = (s1, d1) # ?rest"
      using Suc.prems(5) False by (simp add: Let_def d1_def s1_def)
    have "(s', d') = last ((ds_state q', d1) # ?rest)" using Suc.prems(6) by (simp add: w q')
    from Suc.IH[OF appended_usable[OF a] _ q'(2) le _ this] obtain w' es
      where l: "wave_loop j q' (w1, d1) = Some (ref_outcome s' d', (w', d'))"
      and es: "appended (dj_thread_id j) es (store_at w1) (store_at w')"
        "list_all2 (wave_entry enc) es ?rest" using q' by auto
    with wave_loop_step(4)[OF st] l appended_trans[OF a es(1)] e es(2) show ?thesis
      by (intro exI[of _ w'] exI[of _ "[e] @ es"]) (simp add: w)
  qed
qed

text \<open>A whole DAG run: the abstract waves, each with its entry.\<close>

lemma enter_dag:
  assumes "dj_ck j = ck" and "depth \<le> 8" and "length (dag_nodes d) \<le> max_dag_nodes (g_resource_limits (dj_graph j))"
  shows "run_dag j s depth (w, d) = wave_loop j (dag_start s d None) (w, d)"
proof -
  have "\<not> 8 < depth" using assms(2) by (rule leD)
  then show ?thesis
    using assms(3) by (simp add: run_dag_def max_depth_global_def assms(1) head_default
        default_current_head_def on_store_def Let_def)
qed

lemma run_dag_journal:
  assumes "dj_ck j = ck" and "dj_token j = None" and "usable (store_at w)"
    and "plain_dag (dj_env j) (dj_graph j) (dj_merge j) W F" and "\<forall>(d, s) \<in> W. \<exists>v. enc s = Inr v"
    and "permutes_tasks (dj_sched j)" and "depth \<le> 8"
    and "length (dag_nodes d) \<le> max_dag_nodes (g_resource_limits (dj_graph j))" and "(d, s) \<in> W"
    and "waves = ref_waves (dj_merge j) (plain_out F) (length (dag_nodes d)) d s"
    and "(s', d') = last ((s, d) # waves)"
  shows "\<exists>w' es. run_dag j s depth (w, d) = Some (ref_outcome s' d', (w', d')) \<and>
     appended (dj_thread_id j) es (store_at w) (store_at w') \<and>
     list_all2 (wave_entry enc) es waves"
proof -
  let ?q = "dag_start s d None"
  have q: "ds_state ?q = s" "ds_completed ?q = done_ids d" by (simp_all add: dag_start_def done_ids_def)
  have "pending_count d \<le> length (dag_nodes d)" by (simp add: pending_count_def)
  then show ?thesis
    unfolding enter_dag[OF assms(1,7,8)]
    by (intro plain_waves[OF assms(1,2,4-6,3), of d ?q]) (use assms(9-11) q in simp_all)
qed

end

end
