(* ===== verification/Dag_Build.thy ===== *)
theory Dag_Build
  imports Dag
begin

text \<open>
  Kahn's algorithm is correct, and with it \<open>DAGBuilder::build\<close>: what it accepts is acyclic, and
  what it rejects deserves it.
\<close>

section \<open>One relaxation\<close>

abbreviation node_deps :: "DAGNode list \<Rightarrow> nat \<Rightarrow> uuid set" where
  "node_deps ns i \<equiv> set (dn_depends_on (ns ! i))"

lemma node_deps_shift: "Suc k \<le> i \<Longrightarrow> node_deps (n # xs) (i - k) = node_deps xs (i - Suc k)"
  by (auto simp: le_iff_add)

text \<open>The nodes that become ready among \<open>n # xs\<close>: perhaps \<open>n\<close>, then those among \<open>xs\<close>.\<close>

lemma relaxed_filter:
  assumes "\<And>i. i \<noteq> k \<Longrightarrow> deg1 ! i = deg ! i"
  shows "filter (\<lambda>i. u \<in> node_deps (n # xs) (i - k) \<and> deg ! i = 1) [k..<k + length (n # xs)] =
     (if u \<in> set (dn_depends_on n) \<and> deg ! k = 1 then [k] else []) @
     filter (\<lambda>i. u \<in> node_deps xs (i - Suc k) \<and> deg1 ! i = 1) [Suc k..<Suc k + length xs]"
proof -
  have filt: "filter (\<lambda>i. u \<in> node_deps xs (i - Suc k) \<and> deg1 ! i = 1) [Suc k..<Suc k + length xs]
      = filter (\<lambda>i. u \<in> node_deps (n # xs) (i - k) \<and> deg ! i = 1) [Suc k..<Suc k + length xs]"
  proof (rule filter_cong[OF refl])
    fix i assume "i \<in> set [Suc k..<Suc k + length xs]"
    then have "Suc k \<le> i" by (simp only: set_upt atLeastLessThan_iff)
    then show "(u \<in> node_deps xs (i - Suc k) \<and> deg1 ! i = 1) =
        (u \<in> node_deps (n # xs) (i - k) \<and> deg ! i = 1)"
      using node_deps_shift[of k i n xs] assms[of i] by simp
  qed
  have split: "[k..<k + length (n # xs)] = k # [Suc k..<Suc k + length xs]"
    using upt_conv_Cons[of k "k + length (n # xs)"] by (simp del: upt_Suc)
  show ?thesis unfolding filt split by simp
qed

lemma relax_spec:
  assumes "k + length xs \<le> length deg"
    and "\<And>j. j < length xs \<Longrightarrow> u \<in> node_deps xs j \<Longrightarrow> 0 < deg ! (k + j)"
  shows "\<exists>deg'. relax checked u xs k deg q =
      Some (deg', q @ filter (\<lambda>i. u \<in> node_deps xs (i - k) \<and> deg ! i = 1) [k..<k + length xs])
    \<and> length deg' = length deg
    \<and> (\<forall>i. deg' ! i = (if k \<le> i \<and> i < k + length xs \<and> u \<in> node_deps xs (i - k)
                      then deg ! i - 1 else deg ! i))"
  using assms
proof (induction xs arbitrary: k deg q)
  case Nil
  then show ?case by simp
next
  case (Cons n xs)
  define q1 where "q1 = (if u \<in> set (dn_depends_on n) \<and> deg ! k = 1 then q @ [k] else q)"
  define deg1 where "deg1 = (if u \<in> set (dn_depends_on n) then deg[k := deg ! k - 1] else deg)"
  have pos: "0 < deg ! k" if "u \<in> set (dn_depends_on n)"
    using Cons.prems(2)[of 0] that by simp
  have step: "relax checked u (n # xs) k deg q = relax checked u xs (Suc k) deg1 q1"
    using pos by (auto simp: dec_usize_def q1_def deg1_def)
  have len1: "length deg1 = length deg" by (simp add: deg1_def)
  have same: "deg1 ! i = deg ! i" if "i \<noteq> k" for i
    using that by (simp add: deg1_def)
  have "\<exists>deg'. relax checked u xs (Suc k) deg1 q1 =
      Some (deg', q1 @ filter (\<lambda>i. u \<in> node_deps xs (i - Suc k) \<and> deg1 ! i = 1)
          [Suc k..<Suc k + length xs])
    \<and> length deg' = length deg1
    \<and> (\<forall>i. deg' ! i = (if Suc k \<le> i \<and> i < Suc k + length xs \<and> u \<in> node_deps xs (i - Suc k)
                      then deg1 ! i - 1 else deg1 ! i))"
  proof (rule Cons.IH)
    show "Suc k + length xs \<le> length deg1" using Cons.prems(1) by (simp add: len1)
    show "0 < deg1 ! (Suc k + j)" if "j < length xs" "u \<in> node_deps xs j" for j
      using Cons.prems(2)[of "Suc j"] that by (simp add: same)
  qed
  then obtain deg' where deg': "relax checked u xs (Suc k) deg1 q1 =
      Some (deg', q1 @ filter (\<lambda>i. u \<in> node_deps xs (i - Suc k) \<and> deg1 ! i = 1)
          [Suc k..<Suc k + length xs])"
    and len': "length deg' = length deg1"
    and nth': "\<And>i. deg' ! i = (if Suc k \<le> i \<and> i < Suc k + length xs \<and> u \<in> node_deps xs (i - Suc k)
                      then deg1 ! i - 1 else deg1 ! i)" by blast
  have q': "q1 @ filter (\<lambda>i. u \<in> node_deps xs (i - Suc k) \<and> deg1 ! i = 1) [Suc k..<Suc k + length xs]
      = q @ filter (\<lambda>i. u \<in> node_deps (n # xs) (i - k) \<and> deg ! i = 1) [k..<k + length (n # xs)]"
    unfolding q1_def by (subst relaxed_filter[of k deg1 deg u n xs, OF same]) simp_all
  have "deg' ! i = (if k \<le> i \<and> i < k + length (n # xs) \<and> u \<in> node_deps (n # xs) (i - k)
                    then deg ! i - 1 else deg ! i)" for i
  proof (cases "i = k")
    case True
    have "k < length deg" using Cons.prems(1) by simp
    with True show ?thesis by (simp add: nth' deg1_def)
  next
    case False
    then show ?thesis using node_deps_shift[of k i n xs] by (auto simp: nth' same)
  qed
  with deg' len' len1 q' step show ?case by auto
qed

section \<open>The invariant of the loop\<close>

text \<open>
  \<open>P\<close> is what has been popped, in order. A node's in-degree is the number of its dependencies
  less those whose node has been popped; the popped and the queued nodes are the nodes with
  in-degree 0; a popped node's dependencies were popped before it.
\<close>

definition met :: "DAGNode list \<Rightarrow> nat list \<Rightarrow> nat \<Rightarrow> nat" where
  "met ns P i = card (node_deps ns i \<inter> (\<lambda>p. dn_id (ns ! p)) ` set P)"

definition kahn_inv :: "DAGNode list \<Rightarrow> nat list \<Rightarrow> nat list \<Rightarrow> nat list \<Rightarrow> bool" where
  "kahn_inv ns P q deg \<longleftrightarrow>
     distinct (P @ q) \<and> set (P @ q) \<subseteq> {..<length ns} \<and> length deg = length ns \<and>
     (\<forall>i < length ns. deg ! i = length (dn_depends_on (ns ! i)) - met ns P i) \<and>
     (\<forall>i < length ns. i \<in> set (P @ q) \<longleftrightarrow> length (dn_depends_on (ns ! i)) = met ns P i) \<and>
     (\<forall>k < length P. node_deps ns (P ! k) \<subseteq> (\<lambda>p. dn_id (ns ! p)) ` set (take k P))"

lemma met_le: "met ns P i \<le> card (node_deps ns i)"
  unfolding met_def by (rule card_mono) auto

lemma met_le_length: "met ns P i \<le> length (dn_depends_on (ns ! i))"
  by (rule order_trans [OF met_le card_length])

lemma met_full:
  assumes "length (dn_depends_on (ns ! i)) = met ns P i"
  shows "node_deps ns i \<subseteq> (\<lambda>p. dn_id (ns ! p)) ` set P" and "distinct (dn_depends_on (ns ! i))"
proof -
  have eq: "card (node_deps ns i) = length (dn_depends_on (ns ! i))"
    using assms met_le[of ns P i] card_length[of "dn_depends_on (ns ! i)"] by linarith
  then show "distinct (dn_depends_on (ns ! i))" by (rule card_distinct)
  have "node_deps ns i \<inter> (\<lambda>p. dn_id (ns ! p)) ` set P = node_deps ns i"
    using assms eq by (intro card_subset_eq) (auto simp: met_def)
  then show "node_deps ns i \<subseteq> (\<lambda>p. dn_id (ns ! p)) ` set P" by blast
qed

lemma met_snoc:
  assumes "distinct (map dn_id ns)" "x < length ns" "x \<notin> set P" "set P \<subseteq> {..<length ns}"
  shows "met ns (P @ [x]) i = (if dn_id (ns ! x) \<in> node_deps ns i then Suc (met ns P i) else met ns P i)"
proof -
  have inj: "p = x" if "p < length ns" "dn_id (ns ! p) = dn_id (ns ! x)" for p
    using assms(1,2) that by (auto simp: distinct_conv_nth)
  have notin: "dn_id (ns ! x) \<notin> (\<lambda>p. dn_id (ns ! p)) ` set P"
    using assms(3,4) inj by fastforce
  show ?thesis
  proof (cases "dn_id (ns ! x) \<in> node_deps ns i")
    case True
    then have "node_deps ns i \<inter> (\<lambda>p. dn_id (ns ! p)) ` set (P @ [x])
        = insert (dn_id (ns ! x)) (node_deps ns i \<inter> (\<lambda>p. dn_id (ns ! p)) ` set P)" by auto
    with True notin show ?thesis by (simp add: met_def)
  next
    case False
    then have "node_deps ns i \<inter> (\<lambda>p. dn_id (ns ! p)) ` set (P @ [x])
        = node_deps ns i \<inter> (\<lambda>p. dn_id (ns ! p)) ` set P" by auto
    with False show ?thesis by (simp add: met_def)
  qed
qed

lemma met_Nil [simp]: "met ns [] i = 0"
  by (simp add: met_def)

lemma kahn_inv_init:
  "kahn_inv ns [] (filter (\<lambda>i. in_degrees ns ! i = 0) [0..<length ns]) (in_degrees ns)"
  by (auto simp: kahn_inv_def in_degrees_def)

text \<open>What is taken from the queue comes after its dependencies.\<close>

lemma kahn_inv_order:
  assumes inv: "kahn_inv ns P (x # q) deg" and k: "k < length (P @ [x])"
  shows "node_deps ns ((P @ [x]) ! k) \<subseteq> (\<lambda>p. dn_id (ns ! p)) ` set (take k (P @ [x]))"
proof (cases "k < length P")
  case True
  then show ?thesis using inv by (auto simp: kahn_inv_def nth_append)
next
  case False
  with k have "k = length P" by simp
  moreover have "x < length ns" "length (dn_depends_on (ns ! x)) = met ns P x"
    using inv by (auto simp: kahn_inv_def)
  then have "node_deps ns x \<subseteq> (\<lambda>p. dn_id (ns ! p)) ` set P" by (intro met_full(1)) simp_all
  ultimately show ?thesis by simp
qed

lemma kahn_inv_step:
  assumes inv: "kahn_inv ns P (x # q) deg" and ids: "distinct (map dn_id ns)"
  shows "\<exists>deg' q'. relax checked (dn_id (ns ! x)) ns 0 deg q = Some (deg', q') \<and>
           kahn_inv ns (P @ [x]) q' deg'"
proof -
  let ?u = "dn_id (ns ! x)"
  from inv have x: "x < length ns" and xP: "x \<notin> set P" and P: "set P \<subseteq> {..<length ns}"
    and len: "length deg = length ns"
    by (auto simp: kahn_inv_def)
  note snoc = met_snoc[OF ids x xP P]
  have deg: "deg ! i = length (dn_depends_on (ns ! i)) - met ns P i" if "i < length ns" for i
    using inv that by (simp add: kahn_inv_def)
  have done_iff: "i \<in> set (P @ x # q) \<longleftrightarrow> length (dn_depends_on (ns ! i)) = met ns P i"
    if "i < length ns" for i
    using inv that by (simp add: kahn_inv_def)
  have pos: "0 < deg ! i" if "i < length ns" "?u \<in> node_deps ns i" for i
    using met_le_length[of ns "P @ [x]" i] snoc[of i] deg[OF that(1)] that(2) by simp
  from relax_spec[of 0 ns deg ?u checked q] len pos
  obtain deg' where r: "relax checked ?u ns 0 deg q =
        Some (deg', q @ filter (\<lambda>i. ?u \<in> node_deps ns i \<and> deg ! i = 1) [0..<length ns])"
    and len': "length deg' = length deg"
    and nth': "\<And>i. deg' ! i = (if i < length ns \<and> ?u \<in> node_deps ns i then deg ! i - 1 else deg ! i)"
    by auto
  let ?new = "filter (\<lambda>i. ?u \<in> node_deps ns i \<and> deg ! i = 1) [0..<length ns]"
  have new_notin: "i \<notin> set (P @ x # q)" if "i \<in> set ?new" for i
    using that done_iff[of i] deg[of i] by auto
  have "kahn_inv ns (P @ [x]) (q @ ?new) deg'"
    unfolding kahn_inv_def
  proof (intro conjI allI impI)
    show "distinct ((P @ [x]) @ q @ ?new)"
      using inv new_notin by (auto simp: kahn_inv_def)
    show "set ((P @ [x]) @ q @ ?new) \<subseteq> {..<length ns}"
      using inv by (auto simp: kahn_inv_def)
    show "length deg' = length ns" using len len' by simp
    show "deg' ! i = length (dn_depends_on (ns ! i)) - met ns (P @ [x]) i" if "i < length ns" for i
      using that deg[OF that] by (simp add: nth' snoc)
    show "i \<in> set ((P @ [x]) @ q @ ?new) \<longleftrightarrow>
            length (dn_depends_on (ns ! i)) = met ns (P @ [x]) i" if i: "i < length ns" for i
    proof -
      have "i \<in> set ((P @ [x]) @ q @ ?new) \<longleftrightarrow>
              i \<in> set (P @ x # q) \<or> (?u \<in> node_deps ns i \<and> deg ! i = 1)"
        using i by auto
      then show ?thesis
        using pos[OF i] deg[OF i] done_iff[OF i] by (auto simp: snoc)
    qed
    show "node_deps ns ((P @ [x]) ! k) \<subseteq> (\<lambda>p. dn_id (ns ! p)) ` set (take k (P @ [x]))"
      if k: "k < length (P @ [x])" for k
      using kahn_inv_order[OF inv k] .
  qed
  with r show ?thesis by blast
qed

lemma kahn_inv_length: "kahn_inv ns P q deg \<Longrightarrow> length (P @ q) \<le> length ns"
proof -
  assume inv: "kahn_inv ns P q deg"
  then have "card (set (P @ q)) \<le> card {..<length ns}"
    by (intro card_mono) (auto simp: kahn_inv_def)
  with inv show ?thesis by (simp add: kahn_inv_def distinct_card del: set_append)
qed

lemma kahn_terminates:
  assumes "kahn_inv ns P q deg" and "distinct (map dn_id ns)"
  shows "\<exists>P' deg'. kahn checked ns q deg (length P) = Some (length P') \<and> kahn_inv ns P' [] deg'"
  using assms(1)
proof (induction "length ns - length P" arbitrary: P q deg rule: less_induct)
  case less
  show ?case
  proof (cases q)
    case Nil
    then show ?thesis using less.prems by (subst kahn.simps) auto
  next
    case (Cons x q')
    from kahn_inv_step[of ns P x q' deg checked] less.prems assms(2) Cons
    obtain deg' q'' where r: "relax checked (dn_id (ns ! x)) ns 0 deg q' = Some (deg', q'')"
      and inv': "kahn_inv ns (P @ [x]) q'' deg'" by auto
    have "length ns - length (P @ [x]) < length ns - length P"
      using kahn_inv_length[OF inv'] by simp
    from less.hyps[OF this inv'] r Cons show ?thesis
      by (subst kahn.simps) simp
  qed
qed

lemma kahn_visited_Some:
  assumes "distinct (map dn_id ns)"
  shows "\<exists>P deg. kahn_visited checked ns = Some (length P) \<and> kahn_inv ns P [] deg"
  using kahn_terminates[OF kahn_inv_init assms, of checked]
  by (simp add: kahn_visited_def Let_def)

section \<open>What the count means\<close>

definition dep_edges :: "DAGNode list \<Rightarrow> (uuid \<times> uuid) set" where
  "dep_edges ns = {(d, dn_id n) | d n. n \<in> set ns \<and> d \<in> set (dn_depends_on n)}"

lemma topo_acyclic:
  assumes "\<And>k. k < length P \<Longrightarrow> {d. (d, P ! k) \<in> r} \<subseteq> set (take k P)" and "Range r \<subseteq> set P"
    and "distinct P"
  shows "acyclic r"
proof -
  define pos where "pos x = (THE i. i < length P \<and> P ! i = x)" for x
  have pos: "pos (P ! i) = i" if "i < length P" for i
    using assms(3) that unfolding pos_def by (auto simp: nth_eq_iff_index_eq)
  have "r \<subseteq> measure pos"
  proof clarify
    fix a b assume ab: "(a, b) \<in> r"
    then obtain k where k: "k < length P" "P ! k = b"
      using assms(2) by (auto simp: in_set_conv_nth subset_iff Range_iff)
    with assms(1)[OF k(1)] ab have "a \<in> set (take k P)" by auto
    then obtain j where j: "j < k" "P ! j = a"
      using k(1) by (auto simp: in_set_conv_nth)
    show "(a, b) \<in> measure pos" using j k pos[of j] pos[of k] by simp
  qed
  then show ?thesis by (blast intro: wf_acyclic wf_subset wf_measure)
qed

lemma kahn_all_sound:
  assumes inv: "kahn_inv ns P [] deg" and all: "length P = length ns" and ids: "distinct (map dn_id ns)"
  shows "acyclic (dep_edges ns)"
    and "\<And>n. n \<in> set ns \<Longrightarrow> distinct (dn_depends_on n) \<and> set (dn_depends_on n) \<subseteq> dn_id ` set ns"
proof -
  have dist: "distinct P" and sub: "set P \<subseteq> {..<length ns}" using inv by (auto simp: kahn_inv_def)
  have setP: "set P = {..<length ns}"
    using dist sub all by (intro card_subset_eq) (auto simp: distinct_card)
  let ?Q = "map (\<lambda>p. dn_id (ns ! p)) P"
  have inj: "inj_on (\<lambda>p. dn_id (ns ! p)) {..<length ns}"
    using ids by (auto simp: inj_on_def distinct_conv_nth)
  show "acyclic (dep_edges ns)"
  proof (rule topo_acyclic)
    show "distinct ?Q" using dist inj setP by (simp add: distinct_map)
    show "Range (dep_edges ns) \<subseteq> set ?Q"
      using setP by (auto simp: dep_edges_def in_set_conv_nth image_iff)
    fix k assume k: "k < length ?Q"
    have "node_deps ns (P ! k) \<subseteq> (\<lambda>p. dn_id (ns ! p)) ` set (take k P)"
      using inv k by (simp add: kahn_inv_def)
    moreover have "d \<in> node_deps ns (P ! k)" if "(d, ?Q ! k) \<in> dep_edges ns" for d
    proof -
      from that obtain n where n: "n \<in> set ns" "dn_id n = ?Q ! k" "d \<in> set (dn_depends_on n)"
        by (auto simp: dep_edges_def)
      from n(1) obtain i where "i < length ns" "ns ! i = n" by (auto simp: in_set_conv_nth)
      with n have i: "i < length ns" "dn_id (ns ! i) = ?Q ! k" "d \<in> node_deps ns i" by simp_all
      moreover have "P ! k < length ns" using k setP by (auto simp: set_eq_iff in_set_conv_nth)
      ultimately have "i = P ! k" using k inj by (auto simp: inj_on_def)
      with i(3) show ?thesis by simp
    qed
    ultimately show "{d. (d, ?Q ! k) \<in> dep_edges ns} \<subseteq> set (take k ?Q)"
      by (auto simp: take_map)
  qed
  fix n assume "n \<in> set ns"
  then obtain i where i: "i < length ns" "ns ! i = n" by (auto simp: in_set_conv_nth)
  have "length (dn_depends_on (ns ! i)) = met ns P i"
    using inv i setP by (auto simp: kahn_inv_def)
  from met_full[OF this] i setP
  show "distinct (dn_depends_on n) \<and> set (dn_depends_on n) \<subseteq> dn_id ` set ns" by auto
qed

lemma finite_dep_edges: "finite (dep_edges ns)"
proof -
  have "dep_edges ns = (\<Union>n \<in> set ns. (\<lambda>d. (d, dn_id n)) ` set (dn_depends_on n))"
    by (auto simp: dep_edges_def)
  then show ?thesis by simp
qed

lemma kahn_all_complete:
  assumes inv: "kahn_inv ns P [] deg"
    and deps: "\<And>n. n \<in> set ns \<Longrightarrow> distinct (dn_depends_on n) \<and> set (dn_depends_on n) \<subseteq> dn_id ` set ns"
    and acy: "acyclic (dep_edges ns)" 
  shows "length P = length ns"
proof -
  have wf: "wf (dep_edges ns)" using acy finite_dep_edges by (rule finite_acyclic_wf[rotated])
  have "i \<in> set P" if "i < length ns" for i
    using wf that
  proof (induction "dn_id (ns ! i)" arbitrary: i rule: wf_induct_rule)
    case less
    have "node_deps ns i \<subseteq> (\<lambda>p. dn_id (ns ! p)) ` set P"
    proof
      fix d assume d: "d \<in> node_deps ns i"
      with deps[of "ns ! i"] less.prems obtain j where j: "j < length ns" "d = dn_id (ns ! j)"
        by (fastforce simp: in_set_conv_nth)
      with d less.prems have "(dn_id (ns ! j), dn_id (ns ! i)) \<in> dep_edges ns"
        by (auto simp: dep_edges_def)
      from less.hyps[OF this j(1)] j show "d \<in> (\<lambda>p. dn_id (ns ! p)) ` set P" by auto
    qed
    then have "met ns P i = card (node_deps ns i)" by (simp add: met_def Int_absorb2)
    also have "\<dots> = length (dn_depends_on (ns ! i))"
      using deps[of "ns ! i"] less.prems by (simp add: distinct_card)
    finally show ?case using inv less.prems by (simp add: kahn_inv_def)
  qed
  then have "set P = {..<length ns}" using inv by (auto simp: kahn_inv_def)
  moreover have "distinct P" using inv by (simp add: kahn_inv_def)
  ultimately show ?thesis by (metis card_lessThan distinct_card)
qed

lemma kahn_visited_iff:
  assumes "distinct (map dn_id ns)"
  shows "\<exists>v. kahn_visited checked ns = Some v \<and>
     (v = length ns \<longleftrightarrow> acyclic (dep_edges ns) \<and>
        (\<forall>n \<in> set ns. distinct (dn_depends_on n) \<and> set (dn_depends_on n) \<subseteq> dn_id ` set ns))"
proof -
  from kahn_visited_Some[OF assms] obtain P deg
    where P: "kahn_visited checked ns = Some (length P)" and inv: "kahn_inv ns P [] deg" by blast
  show ?thesis
    using P kahn_all_sound[OF inv _ assms] kahn_all_complete[OF inv] by blast
qed

section \<open>Names and identifiers\<close>

lemma assign_ids_dom:
  "assign_ids env es m y = (m', y') \<Longrightarrow> dom m' = dom m \<union> fst ` set es"
proof (induction es arbitrary: m y)
  case (Cons e es)
  obtain st deps where e: "e = (st, deps)" by (cases e)
  have "assign_ids env es (m(st \<mapsto> e_uuid4 env (uuid_draws y)))
      (y\<lparr>uuid_draws := Suc (uuid_draws y)\<rparr>) = (m', y')"
    using Cons.prems by (simp add: e new_v4_def)
  from Cons.IH[OF this] show ?case by (auto simp: e)
qed simp

lemma assign_ids_distinct:
  assumes "assign_ids env es m y = (m', y')" and "distinct (map fst es)"
  shows "(\<forall>j < length es. m' (fst (es ! j)) = Some (e_uuid4 env (uuid_draws y + j))) \<and>
         (\<forall>s. s \<notin> fst ` set es \<longrightarrow> m' s = m s)"
  using assms
proof (induction es arbitrary: m y)
  case (Cons e es)
  obtain st deps where e: "e = (st, deps)" by (cases e)
  let ?y = "y\<lparr>uuid_draws := Suc (uuid_draws y)\<rparr>"
  from Cons.prems have a: "assign_ids env es (m(st \<mapsto> e_uuid4 env (uuid_draws y))) ?y = (m', y')"
    and d: "distinct (map fst es)" and st: "st \<notin> fst ` set es"
    by (auto simp: new_v4_def e)
  have IH: "(\<forall>j < length es. m' (fst (es ! j)) = Some (e_uuid4 env (uuid_draws ?y + j))) \<and>
         (\<forall>s. s \<notin> fst ` set es \<longrightarrow> m' s = (m(st \<mapsto> e_uuid4 env (uuid_draws y))) s)"
    by (rule Cons.IH[OF a d])
  show ?case unfolding e
  proof (intro conjI allI impI)
    fix j assume "j < length ((st, deps) # es)"
    then show "m' (fst (((st, deps) # es) ! j)) = Some (e_uuid4 env (uuid_draws y + j))"
      using IH st by (cases j) auto
  next
    fix s assume "s \<notin> fst ` set ((st, deps) # es)"
    then show "m' s = m s" using IH by auto
  qed
qed simp

lemma assign_ids_inj:
  assumes "assign_ids env es Map.empty y = (m, y')" and "distinct (map fst es)" and "inj (e_uuid4 env)"
  shows "inj_on m (fst ` set es)"
proof (rule inj_onI)
  fix a b assume "a \<in> fst ` set es" "b \<in> fst ` set es" and eq: "m a = m b"
  then obtain i j where "i < length es" "a = fst (es ! i)" "j < length es" "b = fst (es ! j)"
    by (auto simp: in_set_conv_nth)
  with eq assign_ids_distinct[OF assms(1,2)] assms(3) show "a = b" by (auto dest: injD)
qed

definition named_node :: "(string \<rightharpoonup> uuid) \<Rightarrow> entry \<Rightarrow> DAGNode" where
  "named_node m e = \<lparr>dn_id = the (m (fst e)), dn_step_type = fst e,
     dn_depends_on = map (\<lambda>d. the (m d)) (snd e), dn_status = NodeStatus.Pending\<rparr>"

lemma resolve_deps_iff:
  "(\<exists>is. resolve_deps m st ds = Inr is) \<longleftrightarrow> set ds \<subseteq> dom m"
  by (induction ds) (auto split: option.splits sum.splits)

lemma resolve_deps_Inr:
  "set ds \<subseteq> dom m \<Longrightarrow> resolve_deps m st ds = Inr (map (\<lambda>d. the (m d)) ds)"
  by (induction ds) (auto split: option.splits sum.splits)

lemma resolve_nodes_Inr:
  "fst ` set es \<subseteq> dom m \<Longrightarrow> \<forall>e \<in> set es. set (snd e) \<subseteq> dom m \<Longrightarrow>
     resolve_nodes m es = Some (Inr (map (named_node m) es))"
proof (induction es)
  case (Cons e es)
  then show ?case by (cases e) (auto simp: resolve_deps_Inr named_node_def)
qed simp

lemma resolve_nodes_Inl:
  "fst ` set es \<subseteq> dom m \<Longrightarrow> \<not> (\<forall>e \<in> set es. set (snd e) \<subseteq> dom m) \<Longrightarrow>
     \<exists>msg. resolve_nodes m es = Some (Inl msg)"
proof (induction es)
  case (Cons e es)
  obtain st ds where e: "e = (st, ds)" by (cases e)
  show ?case
  proof (cases "set ds \<subseteq> dom m")
    case True
    with Cons e show ?thesis by (auto simp: resolve_deps_Inr)
  next
    case False
    then obtain msg where "resolve_deps m st ds = Inl msg"
      using resolve_deps_iff[of m st ds] by (cases "resolve_deps m st ds") auto
    with e show ?thesis by simp
  qed
qed simp

section \<open>The builder\<close>

text \<open>The dependency relation the caller wrote down: \<open>(d, s)\<close> when the node \<open>s\<close> names \<open>d\<close>.\<close>

definition name_edges :: "entry list \<Rightarrow> (string \<times> string) set" where
  "name_edges es = {(d, st) | d st deps. (st, deps) \<in> set es \<and> d \<in> set deps}"

definition deps_known :: "entry list \<Rightarrow> bool" where
  "deps_known es \<longleftrightarrow> (\<forall>e \<in> set es. set (snd e) \<subseteq> fst ` set es)"

definition deps_distinct :: "entry list \<Rightarrow> bool" where
  "deps_distinct es \<longleftrightarrow> (\<forall>e \<in> set es. distinct (snd e))"

lemma acyclic_image_iff:
  assumes "inj_on f (Domain r \<union> Range r)" and "finite r"
  shows "acyclic (map_prod f f ` r) \<longleftrightarrow> acyclic r"
proof
  assume "acyclic (map_prod f f ` r)"
  then have "wf (map_prod f f ` r)" using assms(2) by (simp add: finite_acyclic_wf)
  then have "wf (inv_image (map_prod f f ` r) f)" by (rule wf_inv_image)
  then have "wf r" by (rule wf_subset) (auto simp: inv_image_def)
  then show "acyclic r" by (rule wf_acyclic)
next
  assume "acyclic r"
  then have "wf r" using assms(2) by (simp add: finite_acyclic_wf)
  then have "wf (map_prod f f ` r)"
    by (rule wf_map_prod_image_Dom_Ran) (use assms(1) in \<open>auto simp: inj_on_def\<close>)
  then show "acyclic (map_prod f f ` r)" by (rule wf_acyclic)
qed

lemma finite_name_edges: "finite (name_edges es)"
proof -
  have "name_edges es = (\<Union>e \<in> set es. (\<lambda>d. (d, fst e)) ` set (snd e))"
    by (force simp: name_edges_def)
  then show ?thesis by simp
qed

lemma named_nodes:
  assumes inj: "inj_on m (fst ` set es)" and dom: "dom m = fst ` set es"
    and names: "distinct (map fst es)" and known: "deps_known es"
  defines "ns \<equiv> map (named_node m) es"
  shows "distinct (map dn_id ns)"
    and "acyclic (dep_edges ns) \<longleftrightarrow> acyclic (name_edges es)"
    and "(\<forall>n \<in> set ns. distinct (dn_depends_on n) \<and> set (dn_depends_on n) \<subseteq> dn_id ` set ns)
           \<longleftrightarrow> deps_distinct es"
proof -
  let ?f = "\<lambda>s. the (m s)"
  have injf: "inj_on ?f (fst ` set es)"
  proof (rule inj_onI)
    fix a b assume a: "a \<in> fst ` set es" and b: "b \<in> fst ` set es" and "?f a = ?f b"
    moreover from a b dom have "m a \<noteq> None" "m b \<noteq> None" by (auto simp: dom_def)
    ultimately have "m a = m b" by auto
    with a b inj show "a = b" by (auto dest: inj_onD)
  qed
  have "map dn_id ns = map ?f (map fst es)" by (simp add: ns_def named_node_def)
  then show "distinct (map dn_id ns)" using names injf by (simp add: distinct_map comp_inj_on)
  have "dep_edges ns = map_prod ?f ?f ` name_edges es"
    by (force simp: dep_edges_def name_edges_def ns_def named_node_def)
  moreover have "Domain (name_edges es) \<union> Range (name_edges es) \<subseteq> fst ` set es"
    using known by (force simp: name_edges_def deps_known_def)
  then have "inj_on ?f (Domain (name_edges es) \<union> Range (name_edges es))"
    by (rule inj_on_subset[OF injf])
  ultimately show "acyclic (dep_edges ns) \<longleftrightarrow> acyclic (name_edges es)"
    using acyclic_image_iff[OF _ finite_name_edges] by simp
  have "distinct (dn_depends_on (named_node m e)) \<and>
        set (dn_depends_on (named_node m e)) \<subseteq> dn_id ` set ns \<longleftrightarrow> distinct (snd e)"
    if e: "e \<in> set es" for e
  proof -
    have sub: "set (snd e) \<subseteq> fst ` set es" using known e by (auto simp: deps_known_def)
    have "dn_id ` set ns = ?f ` fst ` set es" by (simp add: ns_def named_node_def image_image)
    moreover have "inj_on ?f (set (snd e))" using injf sub by (rule inj_on_subset)
    ultimately show ?thesis using sub by (auto simp: named_node_def distinct_map)
  qed
  then show "(\<forall>n \<in> set ns. distinct (dn_depends_on n) \<and> set (dn_depends_on n) \<subseteq> dn_id ` set ns)
           \<longleftrightarrow> deps_distinct es"
    by (simp add: ns_def deps_distinct_def)
qed

lemma build_cases:
  assumes fresh: "uuids_fresh env" and names: "distinct (map fst (db_entries b))"
    and allowed: "check_step_types b = None"
  obtains m y' where
    "dom m = fst ` set (db_entries b)" "inj_on m (fst ` set (db_entries b))"
    "deps_known (db_entries b) \<Longrightarrow> acyclic (name_edges (db_entries b)) \<Longrightarrow>
       deps_distinct (db_entries b) \<Longrightarrow>
       build env b y = Some (Inr ((fst (dag_new env y))\<lparr>dag_nodes := map (named_node m) (db_entries b)\<rparr>), y')"
    "deps_known (db_entries b) \<Longrightarrow>
       \<not> (acyclic (name_edges (db_entries b)) \<and> deps_distinct (db_entries b)) \<Longrightarrow>
       build env b y = Some (Inl ''Cycle detected in DAG'', y')"
    "\<not> deps_known (db_entries b) \<Longrightarrow>
       \<exists>msg. resolve_nodes m (db_entries b) = Some (Inl msg) \<and> build env b y = Some (Inl msg, y')"
proof -
  let ?es = "db_entries b"
  obtain dag y1 where new: "dag_new env y = (dag, y1)" by (cases "dag_new env y")
  obtain m y2 where ids: "assign_ids env ?es Map.empty y1 = (m, y2)"
    by (cases "assign_ids env ?es Map.empty y1")
  have dom: "dom m = fst ` set ?es" using assign_ids_dom[OF ids] by simp
  have inj: "inj_on m (fst ` set ?es)"
    using fresh assign_ids_inj[OF ids names] by (simp add: uuids_fresh_def)
  have build: "build env b y = (case resolve_nodes m ?es of
               None \<Rightarrow> None
             | Some (Inl e) \<Rightarrow> Some (Inl e, y2)
             | Some (Inr ns) \<Rightarrow> (case kahn_visited (e_overflow_checks env) ns of
                   None \<Rightarrow> None
                 | Some visited \<Rightarrow>
                     if visited \<noteq> length ns then Some (Inl ''Cycle detected in DAG'', y2)
                     else Some (Inr (dag\<lparr>dag_nodes := ns\<rparr>), y2)))"
    by (simp add: build_def allowed new ids Let_def)
  have ok: "resolve_nodes m ?es = Some (Inr (map (named_node m) ?es))" if "deps_known ?es"
    using that dom by (intro resolve_nodes_Inr) (auto simp: deps_known_def)
  have kahn: "\<exists>v. kahn_visited (e_overflow_checks env) (map (named_node m) ?es) = Some v \<and>
      (v = length (map (named_node m) ?es) \<longleftrightarrow> acyclic (name_edges ?es) \<and> deps_distinct ?es)"
    if "deps_known ?es"
    using kahn_visited_iff[OF named_nodes(1)[OF inj dom names that], of "e_overflow_checks env"]
    by (simp only: named_nodes(2,3)[OF inj dom names that])
  show ?thesis
  proof (rule that[OF dom inj])
    show "build env b y = Some (Inr ((fst (dag_new env y))\<lparr>dag_nodes := map (named_node m) ?es\<rparr>), y2)"
      if "deps_known ?es" "acyclic (name_edges ?es)" "deps_distinct ?es"
      using kahn[OF that(1)] that by (auto simp: build ok new)
    show "build env b y = Some (Inl ''Cycle detected in DAG'', y2)"
      if "deps_known ?es" "\<not> (acyclic (name_edges ?es) \<and> deps_distinct ?es)"
      using kahn[OF that(1)] that by (auto simp: build ok)
    show "\<exists>msg. resolve_nodes m ?es = Some (Inl msg) \<and> build env b y = Some (Inl msg, y2)"
      if "\<not> deps_known ?es"
      using resolve_nodes_Inl[of ?es m] that dom by (auto simp: build deps_known_def)
  qed
qed

section \<open>Properties of the builder\<close>

lemma build_accepts:
  assumes "uuids_fresh env" and "distinct (map fst (db_entries b))"
  shows "(\<exists>dag y'. build env b y = Some (Inr dag, y')) \<longleftrightarrow>
     check_step_types b = None \<and> deps_known (db_entries b) \<and>
     acyclic (name_edges (db_entries b)) \<and> deps_distinct (db_entries b)"
proof (cases "check_step_types b")
  case None
  show ?thesis
  proof (rule build_cases[OF assms None, of y], goal_cases)
    case (1 m y')
    let ?es = "db_entries b"
    consider "\<not> deps_known ?es" | "deps_known ?es" "\<not> (acyclic (name_edges ?es) \<and> deps_distinct ?es)"
      | "deps_known ?es" "acyclic (name_edges ?es)" "deps_distinct ?es" by blast
    then show ?case
    proof cases
      case 1
      with \<open>\<not> deps_known ?es \<Longrightarrow> _\<close> show ?thesis by auto
    next
      case 2
      with \<open>deps_known ?es \<Longrightarrow> \<not> _ \<Longrightarrow> _\<close>[OF 2] show ?thesis by auto
    next
      case 3
      with \<open>deps_known ?es \<Longrightarrow> acyclic _ \<Longrightarrow> _ \<Longrightarrow> _\<close>[OF 3] None show ?thesis by auto
    qed
  qed
next
  case (Some msg)
  then show ?thesis by (simp add: build_def)
qed

text \<open>C5: with distinct step types, \<open>DAGBuilder::build\<close> accepts exactly the builders whose step
  types are all allowed, whose dependencies all name a node, whose dependency relation is acyclic
  and where no node lists a dependency twice.\<close>

theorem build_accepts_iff:
  assumes "uuids_fresh env" and "distinct (map fst (db_entries b))"
  shows "(\<exists>dag y'. build env b y = Some (Inr dag, y')) \<longleftrightarrow>
     check_step_types b = None \<and> deps_known (db_entries b) \<and>
     acyclic (name_edges (db_entries b)) \<and> deps_distinct (db_entries b)"
  by (rule build_accepts[OF assms])

text \<open>A builder the witnesses use: the diamond of the documentation.\<close>

definition sample_builder :: DAGBuilder where
  "sample_builder = builder_node ''merge'' [''score'', ''rank''] (builder_node ''rank'' [''parse'']
     (builder_node ''score'' [''parse''] (builder_node ''parse'' [] dag_builder)))"

lemma sample_builder_entries:
  "db_entries sample_builder = [(''parse'', []), (''score'', [''parse'']), (''rank'', [''parse'']),
     (''merge'', [''score'', ''rank''])]"
  by (simp add: sample_builder_def builder_node_def dag_builder_def)

lemma sample_builder_facts:
  "distinct (map fst (db_entries sample_builder))" "check_step_types sample_builder = None"
  "deps_known (db_entries sample_builder)" "deps_distinct (db_entries sample_builder)"
  by (simp_all add: sample_builder_entries deps_known_def deps_distinct_def)
     (simp add: sample_builder_def builder_node_def dag_builder_def check_step_types_def)

lemma sample_builder_acyclic: "acyclic (name_edges (db_entries sample_builder))"
proof -
  have "name_edges (db_entries sample_builder) \<subseteq>
      measure (\<lambda>s. if s = ''parse'' then 0 else if s = ''merge'' then 2 else 1)"
    by (auto simp: name_edges_def sample_builder_entries)
  then show ?thesis by (blast intro: wf_acyclic wf_subset wf_measure)
qed

theorem build_accepts_iff_witness:
  "uuids_fresh sample_env \<and> distinct (map fst (db_entries sample_builder)) \<and>
   (\<exists>dag y'. build sample_env sample_builder sample_sys = Some (Inr dag, y'))"
  using build_accepts_iff[OF sample_env_fresh sample_builder_facts(1), of sample_sys]
    sample_builder_facts sample_builder_acyclic sample_env_fresh by simp

text \<open>With distinct step types \<open>build\<close> always returns: the subtraction in the cycle check never
  goes below zero, whatever the dependencies are.\<close>

theorem build_returns:
  assumes "uuids_fresh env" and "distinct (map fst (db_entries b))"
  shows "\<exists>r y'. build env b y = Some (r, y')"
proof (cases "check_step_types b")
  case None
  show ?thesis by (rule build_cases[OF assms None, of y]) blast
next
  case (Some msg)
  then show ?thesis by (simp add: build_def)
qed

definition cyclic_builder :: DAGBuilder where
  "cyclic_builder = builder_node ''b'' [''a''] (builder_node ''a'' [''b''] dag_builder)"

theorem build_returns_witness:
  "\<exists>r y'. build sample_env cyclic_builder sample_sys = Some (r, y')"
  by (rule build_returns[OF sample_env_fresh])
     (simp add: cyclic_builder_def builder_node_def dag_builder_def)

lemma build_result_parts:
  assumes "uuids_fresh env" and "distinct (map fst (db_entries b))"
    and "build env b y = Some (Inr dag, y')"
  shows "map dn_step_type (dag_nodes dag) = map fst (db_entries b)"
    and "distinct (map dn_id (dag_nodes dag))"
    and "\<forall>n \<in> set (dag_nodes dag). dn_status n = NodeStatus.Pending"
    and "acyclic (dep_edges (dag_nodes dag))"
    and "\<forall>i < length (db_entries b). \<forall>k < length (snd (db_entries b ! i)).
           \<exists>j < length (db_entries b). fst (db_entries b ! j) = snd (db_entries b ! i) ! k \<and>
             dn_depends_on (dag_nodes dag ! i) ! k = dn_id (dag_nodes dag ! j)"
proof -
  let ?es = "db_entries b"
  from build_accepts[OF assms(1,2), of y] assms(3)
  have None: "check_step_types b = None" and known: "deps_known ?es"
    and acy: "acyclic (name_edges ?es)" and dd: "deps_distinct ?es" by blast+
  obtain m where m: "dom m = fst ` set ?es" "inj_on m (fst ` set ?es)"
    and dag: "dag_nodes dag = map (named_node m) ?es"
    by (rule build_cases[OF assms(1,2) None, of y]) (use assms(3) known acy dd in auto)
  note nn = named_nodes[OF m(2,1) assms(2) known]
  show "map dn_step_type (dag_nodes dag) = map fst ?es" by (simp add: dag named_node_def)
  show "distinct (map dn_id (dag_nodes dag))" unfolding dag by (rule nn(1))
  show "\<forall>n \<in> set (dag_nodes dag). dn_status n = NodeStatus.Pending" by (simp add: dag named_node_def)
  show "acyclic (dep_edges (dag_nodes dag))" unfolding dag using nn(2) acy by simp
  show "\<forall>i < length ?es. \<forall>k < length (snd (?es ! i)). \<exists>j < length ?es.
      fst (?es ! j) = snd (?es ! i) ! k \<and> dn_depends_on (dag_nodes dag ! i) ! k = dn_id (dag_nodes dag ! j)"
  proof (intro allI impI)
    fix i k assume i: "i < length ?es" and k: "k < length (snd (?es ! i))"
    from known i have "set (snd (?es ! i)) \<subseteq> fst ` set ?es"
      unfolding deps_known_def by (blast intro: nth_mem)
    with nth_mem[OF k] have "snd (?es ! i) ! k \<in> fst ` set ?es" by blast
    then obtain j where "j < length ?es" "fst (?es ! j) = snd (?es ! i) ! k"
      by (auto simp: in_set_conv_nth)
    then show "\<exists>j < length ?es. fst (?es ! j) = snd (?es ! i) ! k \<and>
        dn_depends_on (dag_nodes dag ! i) ! k = dn_id (dag_nodes dag ! j)"
      using i k by (auto simp: dag named_node_def)
  qed
qed

lemma build_result_closed:
  assumes "uuids_fresh env" and "distinct (map fst (db_entries b))"
    and "build env b y = Some (Inr dag, y')" and "n \<in> set (dag_nodes dag)"
  shows "set (dn_depends_on n) \<subseteq> dn_id ` set (dag_nodes dag)"
proof -
  from build_accepts[OF assms(1,2), of y] assms(3)
  have None: "check_step_types b = None" and known: "deps_known (db_entries b)"
    and acy: "acyclic (name_edges (db_entries b))" and dd: "deps_distinct (db_entries b)" by blast+
  obtain m where m: "dom m = fst ` set (db_entries b)"
    and dag: "dag_nodes dag = map (named_node m) (db_entries b)"
    by (rule build_cases[OF assms(1,2) None, of y]) (use assms(3) known acy dd in auto)
  from assms(4) dag obtain e where e: "e \<in> set (db_entries b)" "n = named_node m e" by auto
  with known have "set (snd e) \<subseteq> fst ` set (db_entries b)" by (auto simp: deps_known_def)
  then show ?thesis by (fastforce simp: e(2) named_node_def dag image_image)
qed

text \<open>An accepted DAG is the one the caller wrote: the nodes in order, each with its step type,
  all pending, with distinct identifiers, and each dependency is the identifier of the node it names.\<close>

theorem build_result:
  assumes "uuids_fresh env" and "distinct (map fst (db_entries b))"
    and "build env b y = Some (Inr dag, y')"
  shows "map dn_step_type (dag_nodes dag) = map fst (db_entries b) \<and>
    distinct (map dn_id (dag_nodes dag)) \<and>
    (\<forall>n \<in> set (dag_nodes dag). dn_status n = NodeStatus.Pending) \<and>
    acyclic (dep_edges (dag_nodes dag)) \<and>
    (\<forall>i < length (db_entries b). \<forall>k < length (snd (db_entries b ! i)).
       \<exists>j < length (db_entries b). fst (db_entries b ! j) = snd (db_entries b ! i) ! k \<and>
         dn_depends_on (dag_nodes dag ! i) ! k = dn_id (dag_nodes dag ! j))"
  using build_result_parts[OF assms] by blast

theorem build_result_witness:
  "\<exists>dag y'. build sample_env sample_builder sample_sys = Some (Inr dag, y') \<and>
     map dn_step_type (dag_nodes dag) = [''parse'', ''score'', ''rank'', ''merge'']"
proof -
  obtain dag y' where b: "build sample_env sample_builder sample_sys = Some (Inr dag, y')"
    by (rule build_cases[OF sample_env_fresh sample_builder_facts(1,2), of sample_sys])
       (use sample_builder_facts sample_builder_acyclic in blast)
  from build_result[OF sample_env_fresh sample_builder_facts(1) b] b
  show ?thesis by (simp add: sample_builder_entries)
qed

text \<open>A node that lists a dependency twice is reported as a cycle, although the dependency
  relation has none: the in-degree counts the repetition and is decremented once.\<close>

theorem build_repeated_dependency:
  assumes "uuids_fresh env" and "distinct (map fst (db_entries b))"
    and "check_step_types b = None" and "deps_known (db_entries b)"
    and "e \<in> set (db_entries b)" and "\<not> distinct (snd e)"
  shows "\<exists>y'. build env b y = Some (Inl ''Cycle detected in DAG'', y')"
proof -
  have "\<not> deps_distinct (db_entries b)" using assms(5,6) by (auto simp: deps_distinct_def)
  with assms(4) show ?thesis
    by - (rule build_cases[OF assms(1,2,3), of y], blast)
qed

definition repeated_builder :: DAGBuilder where
  "repeated_builder = builder_node ''b'' [''a'', ''a''] (builder_node ''a'' [] dag_builder)"

lemma repeated_builder_entries: "db_entries repeated_builder = [(''a'', []), (''b'', [''a'', ''a''])]"
  by (simp add: repeated_builder_def builder_node_def dag_builder_def)

theorem build_repeated_dependency_witness:
  "acyclic (name_edges (db_entries repeated_builder)) \<and>
   (\<exists>y'. build sample_env repeated_builder sample_sys = Some (Inl ''Cycle detected in DAG'', y'))"
proof
  have "name_edges (db_entries repeated_builder) \<subseteq> measure (\<lambda>s. if s = ''a'' then 0 else 1)"
    by (auto simp: name_edges_def repeated_builder_entries)
  then show "acyclic (name_edges (db_entries repeated_builder))"
    by (blast intro: wf_acyclic wf_subset wf_measure)
  show "\<exists>y'. build sample_env repeated_builder sample_sys = Some (Inl ''Cycle detected in DAG'', y')"
    by (rule build_repeated_dependency[OF sample_env_fresh, of _ "(''b'', [''a'', ''a''])"])
       (simp_all add: repeated_builder_entries deps_known_def,
        simp add: repeated_builder_def builder_node_def dag_builder_def check_step_types_def)
qed

definition twin_builder :: DAGBuilder where
  "twin_builder = builder_node ''b'' [''a''] (builder_node ''a'' [] (builder_node ''a'' [] dag_builder))"

lemma kahn_twins:
  assumes "u \<noteq> v"
  shows "kahn_visited checked
     [\<lparr>dn_id = u, dn_step_type = ''a'', dn_depends_on = [], dn_status = NodeStatus.Pending\<rparr>,
      \<lparr>dn_id = u, dn_step_type = ''a'', dn_depends_on = [], dn_status = NodeStatus.Pending\<rparr>,
      \<lparr>dn_id = v, dn_step_type = ''b'', dn_depends_on = [u], dn_status = NodeStatus.Pending\<rparr>] =
     (if checked then None else Some 3)"
  using assms
  by (simp add: kahn_visited_def in_degrees_def upt_rec kahn.simps dec_usize_def)

text \<open>Two nodes of the same step type share an identifier, and a third node that depends on it
  makes the cycle check subtract from 0: with overflow checks the build panics; without, the counter
  wraps and the builder is accepted with a repeated identifier.\<close>

theorem build_twin_step_types:
  assumes "uuids_fresh env"
  shows "if e_overflow_checks env then build env twin_builder y = None
     else \<exists>dag y'. build env twin_builder y = Some (Inr dag, y') \<and> \<not> distinct (map dn_id (dag_nodes dag))"
proof -
  from assms have ne: "e_uuid4 env i \<noteq> e_uuid4 env j" if "i \<noteq> j" for i j
    using that by (auto simp: uuids_fresh_def dest: injD)
  then show ?thesis
    by (simp add: build_def twin_builder_def builder_node_def dag_builder_def check_step_types_def
        dag_new_def new_v4_def utc_now_def kahn_twins[OF ne])
qed

theorem build_twin_step_types_witness: "build sample_env twin_builder sample_sys = None"
  using build_twin_step_types[OF sample_env_fresh, of sample_sys] by (simp add: sample_env_def)

section \<open>Restoring statuses\<close>

lemma status_map_snoc: "status_map (ns @ [n]) = (status_map ns)(dn_id n \<mapsto> dn_status n)"
  by (simp add: status_map_def)

lemma status_map_None: "status_map ns u = None \<longleftrightarrow> u \<notin> dn_id ` set ns"
  by (induction ns rule: rev_induct) (auto simp: status_map_snoc, simp add: status_map_def)

lemma status_map_distinct:
  "distinct (map dn_id ns) \<Longrightarrow> n \<in> set ns \<Longrightarrow> status_map ns (dn_id n) = Some (dn_status n)"
proof (induction ns rule: rev_induct)
  case (snoc x xs)
  show ?case
  proof (cases "n = x")
    case False
    with snoc.prems have "n \<in> set xs" "dn_id n \<noteq> dn_id x" by (auto simp: image_iff)
    with snoc show ?thesis by (simp add: status_map_snoc)
  qed (simp add: status_map_snoc)
qed simp

lemma restore_node_fields [simp]:
  "dn_id (restore_node m n) = dn_id n" "dn_step_type (restore_node m n) = dn_step_type n"
  "dn_depends_on (restore_node m n) = dn_depends_on n"
  by (simp_all add: restore_node_def split: option.splits)

lemma restore_statuses_parts:
  assumes "distinct (map dn_id (dag_nodes saved))"
  shows "map dn_id (dag_nodes (restore_statuses d saved)) = map dn_id (dag_nodes d)"
    and "map dn_depends_on (dag_nodes (restore_statuses d saved)) = map dn_depends_on (dag_nodes d)"
    and "map dn_step_type (dag_nodes (restore_statuses d saved)) = map dn_step_type (dag_nodes d)"
    and "\<And>i n. i < length (dag_nodes d) \<Longrightarrow> n \<in> set (dag_nodes saved) \<Longrightarrow>
           dn_id n = dn_id (dag_nodes d ! i) \<Longrightarrow>
           dn_status (dag_nodes (restore_statuses d saved) ! i) = dn_status n"
    and "\<And>i. i < length (dag_nodes d) \<Longrightarrow> dn_id (dag_nodes d ! i) \<notin> dn_id ` set (dag_nodes saved) \<Longrightarrow>
           dag_nodes (restore_statuses d saved) ! i = dag_nodes d ! i"
    and "restore_statuses (restore_statuses d saved) saved = restore_statuses d saved"
proof -
  show "map dn_id (dag_nodes (restore_statuses d saved)) = map dn_id (dag_nodes d)"
    "map dn_depends_on (dag_nodes (restore_statuses d saved)) = map dn_depends_on (dag_nodes d)"
    "map dn_step_type (dag_nodes (restore_statuses d saved)) = map dn_step_type (dag_nodes d)"
    by (simp_all add: restore_statuses_def)
  show "dn_status (dag_nodes (restore_statuses d saved) ! i) = dn_status n"
    if "i < length (dag_nodes d)" "n \<in> set (dag_nodes saved)" "dn_id n = dn_id (dag_nodes d ! i)" for i n
    using that status_map_distinct[OF assms that(2)]
    by (simp add: restore_statuses_def restore_node_def)
  show "dag_nodes (restore_statuses d saved) ! i = dag_nodes d ! i"
    if "i < length (dag_nodes d)" "dn_id (dag_nodes d ! i) \<notin> dn_id ` set (dag_nodes saved)" for i
    using that by (simp add: restore_statuses_def restore_node_def flip: status_map_None)
  show "restore_statuses (restore_statuses d saved) saved = restore_statuses d saved"
    by (auto simp: restore_statuses_def restore_node_def split: option.splits)
qed

definition sample_nodes :: "DAGNode list" where
  "sample_nodes = [
     \<lparr>dn_id = 1, dn_step_type = ''a'', dn_depends_on = [], dn_status = NodeStatus.Done\<rparr>,
     \<lparr>dn_id = 2, dn_step_type = ''b'', dn_depends_on = [1], dn_status = NodeStatus.Pending\<rparr>]"

text \<open>\<open>restore_statuses\<close> changes statuses only; a node whose identifier the checkpoint has takes
  the checkpoint's status, any other keeps its own; restoring twice is restoring once.\<close>

theorem restore_statuses_spec:
  assumes "distinct (map dn_id (dag_nodes saved))"
  shows "map dn_id (dag_nodes (restore_statuses d saved)) = map dn_id (dag_nodes d) \<and>
    map dn_depends_on (dag_nodes (restore_statuses d saved)) = map dn_depends_on (dag_nodes d) \<and>
    map dn_step_type (dag_nodes (restore_statuses d saved)) = map dn_step_type (dag_nodes d) \<and>
    (\<forall>i < length (dag_nodes d).
       (\<forall>n \<in> set (dag_nodes saved). dn_id n = dn_id (dag_nodes d ! i) \<longrightarrow>
          dn_status (dag_nodes (restore_statuses d saved) ! i) = dn_status n) \<and>
       (dn_id (dag_nodes d ! i) \<notin> dn_id ` set (dag_nodes saved) \<longrightarrow>
          dag_nodes (restore_statuses d saved) ! i = dag_nodes d ! i)) \<and>
    restore_statuses (restore_statuses d saved) saved = restore_statuses d saved"
  using restore_statuses_parts[OF assms] by blast

theorem restore_statuses_spec_witness:
  "dn_status (dag_nodes (restore_statuses
       \<lparr>dag_id = 0, dag_nodes = map (\<lambda>n. n\<lparr>dn_status := NodeStatus.Pending\<rparr>) sample_nodes, dag_created_at = 5\<rparr>
       \<lparr>dag_id = 0, dag_nodes = sample_nodes, dag_created_at = 5\<rparr>) ! 0) = NodeStatus.Done"
proof -
  have d: "distinct (map dn_id (dag_nodes \<lparr>dag_id = 0, dag_nodes = sample_nodes, dag_created_at = 5\<rparr>))"
    by (simp add: sample_nodes_def)
  from restore_statuses_spec[OF d, where d = "\<lparr>dag_id = 0,
      dag_nodes = map (\<lambda>n. n\<lparr>dn_status := NodeStatus.Pending\<rparr>) sample_nodes, dag_created_at = 5\<rparr>"]
  show ?thesis by (simp add: sample_nodes_def)
qed

end
