(* ===== verification/Dag_Properties.thy ===== *)
theory Dag_Properties
  imports Dag_Facts Dag_Build Hitl_Properties
begin

text \<open>
  The properties of DAG runs over the in-memory checkpointer: the refinement of \<open>ref_waves\<close>, that
  an accepted DAG is run to its end, the order in which the nodes are run, and what a yield in a
  wave leaves behind.
\<close>

section \<open>Acyclic DAGs\<close>

text \<open>Every dependency is the identifier of a node, there is no cycle, and no node is stuck.\<close>

definition runnable :: "DAG \<Rightarrow> bool" where
  "runnable d \<longleftrightarrow> acyclic (dep_edges (dag_nodes d)) \<and>
     (\<forall>n \<in> set (dag_nodes d). set (dn_depends_on n) \<subseteq> dn_id ` set (dag_nodes d) \<and>
        (dn_status n = NodeStatus.Pending \<or> dn_status n = NodeStatus.Done))"

lemma runnable_ready:
  assumes "runnable d" and "n \<in> set (dag_nodes d)" and "dn_status n = NodeStatus.Pending"
  shows "ready_wave (done_ids d) d \<noteq> []"
proof -
  let ?P = "dn_id ` {n \<in> set (dag_nodes d). dn_status n = NodeStatus.Pending}"
  have "wf (dep_edges (dag_nodes d))"
    using assms(1) finite_dep_edges by (simp add: runnable_def finite_acyclic_wf)
  moreover have "dn_id n \<in> ?P" using assms(2,3) by blast
  ultimately obtain u where u: "u \<in> ?P" and least: "\<And>y. (y, u) \<in> dep_edges (dag_nodes d) \<Longrightarrow> y \<notin> ?P"
    by (meson wfE_min)
  from u obtain m where m: "m \<in> set (dag_nodes d)" "dn_status m = NodeStatus.Pending" "u = dn_id m" by auto
  have "set (dn_depends_on m) \<subseteq> done_ids d"
  proof
    fix y assume y: "y \<in> set (dn_depends_on m)"
    with m have "(y, u) \<in> dep_edges (dag_nodes d)" by (auto simp: dep_edges_def)
    then have "y \<notin> ?P" by (rule least)
    moreover from y m(1) assms(1) have "y \<in> dn_id ` set (dag_nodes d)" by (auto simp: runnable_def)
    ultimately show "y \<in> done_ids d" using assms(1) by (auto simp: runnable_def done_ids_def)
  qed
  moreover obtain i where "i < length (dag_nodes d)" "dag_nodes d ! i = m"
    using m(1) by (auto simp: in_set_conv_nth)
  ultimately have "i \<in> set (ready_wave (done_ids d) d)" using m(2) by (simp add: ready_wave_iff)
  then show ?thesis by auto
qed

definition all_done :: "DAG \<Rightarrow> DAG" where
  "all_done d = d\<lparr>dag_nodes := map (\<lambda>n. n\<lparr>dn_status := NodeStatus.Done\<rparr>) (dag_nodes d)\<rparr>"

lemma all_done_set [simp]: "all_done (set_statuses st is d) = all_done d"
  by (rule dag_eqI) (simp_all add: all_done_def set_statuses_nth)

lemma all_done_id: "(\<And>n. n \<in> set (dag_nodes d) \<Longrightarrow> dn_status n = NodeStatus.Done) \<Longrightarrow> all_done d = d"
  by (rule dag_eqI) (simp_all add: all_done_def)

lemma set_statuses_nodes:
  "n \<in> set (dag_nodes (set_statuses st is d)) \<Longrightarrow>
     \<exists>m \<in> set (dag_nodes d). dn_id n = dn_id m \<and> dn_depends_on n = dn_depends_on m \<and>
       dn_step_type n = dn_step_type m \<and> (dn_status n = st \<or> dn_status n = dn_status m)"
proof -
  assume "n \<in> set (dag_nodes (set_statuses st is d))"
  then obtain k where "k < length (dag_nodes d)" "n = dag_nodes (set_statuses st is d) ! k"
    by (auto simp: in_set_conv_nth)
  then show ?thesis by (intro bexI[of _ "dag_nodes d ! k"]) (simp_all add: set_statuses_nth)
qed

lemma dep_edges_skeleton:
  "dep_edges (dag_nodes d) = {(u, fst e) | u e. e \<in> set (skeleton d) \<and> u \<in> set (snd (snd e))}"
  by (force simp: dep_edges_def skeleton_def)

lemma ids_skeleton: "dn_id ` set (dag_nodes d) = fst ` set (skeleton d)"
  by (force simp: skeleton_def)

lemma runnable_set: "runnable d \<Longrightarrow> runnable (set_statuses NodeStatus.Done is d)"
  unfolding runnable_def dep_edges_skeleton ids_skeleton skeleton_set by (metis set_statuses_nodes)

lemma runnable_waves:
  "runnable d \<Longrightarrow> pending_count d \<le> fuel \<Longrightarrow>
     (s', d') = last ((s, d) # ref_waves merge out fuel d s) \<Longrightarrow> d' = all_done d"
proof (induction fuel arbitrary: d s)
  case 0
  then have "dn_status n \<noteq> NodeStatus.Pending" if "n \<in> set (dag_nodes d)" for n
    using that by (auto simp: pending_count_def filter_empty_conv)
  then have "dn_status n = NodeStatus.Done" if "n \<in> set (dag_nodes d)" for n
    using that 0(1) by (auto simp: runnable_def)
  with 0 show ?case by (simp add: all_done_id)
next
  case (Suc fuel)
  let ?ready = "ready_wave (done_ids d) d"
  show ?case
  proof (cases "?ready = []")
    case True
    with runnable_ready[OF Suc.prems(1)] have "dn_status n \<noteq> NodeStatus.Pending"
      if "n \<in> set (dag_nodes d)" for n using that by blast
    then have "dn_status n = NodeStatus.Done" if "n \<in> set (dag_nodes d)" for n
      using that Suc.prems(1) by (auto simp: runnable_def)
    with Suc.prems True show ?thesis by (simp add: all_done_id)
  next
    case False
    let ?d = "set_statuses NodeStatus.Done ?ready d" and ?s = "wave_merge merge out d ?ready s"
    have "pending_count ?d \<le> fuel" using pending_finish_less[OF False] Suc.prems(2) by simp
    moreover have "(s', d') = last ((?s, ?d) # ref_waves merge out fuel ?d ?s)"
      using Suc.prems(3) False by (simp add: Let_def)
    ultimately show ?thesis using Suc.IH[OF runnable_set[OF Suc.prems(1)]] by simp
  qed
qed

lemma build_runnable:
  assumes "uuids_fresh env" and "distinct (map fst (db_entries b))"
    and "build env b y = Some (Inr dag, y')"
  shows "runnable dag"
  using build_result_parts(3,4)[OF assms] build_result_closed[OF assms] by (auto simp: runnable_def)

section \<open>Runs over the in-memory checkpointer\<close>

definition wave_job :: "'s env \<Rightarrow> ('s, 'x) graph \<Rightarrow> string \<Rightarrow> cancel_token option \<Rightarrow> ('s \<Rightarrow> 's \<Rightarrow> 's) \<Rightarrow>
    scheduler \<Rightarrow> ('s, 'x, mem_store) dag_job" where
  "wave_job env g thread_id token merge sched = \<lparr>dj_env = env, dj_graph = g,
     dj_ck = memory_checkpointer env, dj_thread_id = thread_id, dj_token = token, dj_merge = merge,
     dj_sched = sched\<rparr>"

lemma wave_job_simps [simp]:
  "dj_env (wave_job env g t token merge sched) = env" "dj_graph (wave_job env g t token merge sched) = g"
  "dj_ck (wave_job env g t token merge sched) = memory_checkpointer env"
  "dj_thread_id (wave_job env g t token merge sched) = t"
  "dj_token (wave_job env g t token merge sched) = token"
  "dj_merge (wave_job env g t token merge sched) = merge"
  "dj_sched (wave_job env g t token merge sched) = sched"
  by (simp_all add: wave_job_def)

text \<open>The checkpoint a wave leaves: its state and its DAG.\<close>

definition wave_checkpoint :: "'s env \<Rightarrow> MemoryCheckpoint \<Rightarrow> 's \<times> DAG \<Rightarrow> bool" where
  "wave_checkpoint env c sd \<longleftrightarrow> e_to_value env (fst sd) = Inr (mc_state c) \<and> mc_dag c = Some (snd sd) \<and>
     mc_next_node c = first_pending (snd sd) \<and> mc_status c = CheckpointStatus.Complete \<and>
     mc_yield_request c = None \<and> mc_claimed_interrupt c = None \<and> mc_resolved_interrupt c = None"

lemma run_dag_enters:
  assumes "depth \<le> 8" and "length (dag_nodes d) \<le> max_dag_nodes (g_resource_limits g)"
  shows "run_dag (wave_job env g t token merge sched) s depth (w, d) =
     wave_loop (wave_job env g t token merge sched) (dag_start s d None) (w, d)"
  by (rule mem_run.enter_dag) (simp_all add: assms)

text \<open>The checkpoint of a wave is its entry in the in-memory journal.\<close>

lemma wave_checkpoint_entry: "wave_entry (mem_enc env) (mem_entry c) sd \<longleftrightarrow> wave_checkpoint env c sd"
  by (auto simp: wave_entry_def wave_checkpoint_def mem_entry_def)

lemma wave_checkpoints: "list_all2 (wave_entry (mem_enc env)) (map mem_entry cs) waves \<longleftrightarrow>
    list_all2 (wave_checkpoint env) cs waves"
  by (simp add: list_all2_map1 wave_checkpoint_entry)

lemma run_dag_plain:
  assumes "plain_dag env g merge W F" and "\<forall>(d, s) \<in> W. \<exists>v. e_to_value env s = Inr v"
    and "permutes_tasks sched" and "depth \<le> 8"
    and "length (dag_nodes d) \<le> max_dag_nodes (g_resource_limits g)"
    and "(d, s) \<in> W" and "\<not> ms_poisoned (w_store w)"
    and "waves = ref_waves merge (\<lambda>n s. no_state (F n s)) (length (dag_nodes d)) d s"
    and "(s', d') = last ((s, d) # waves)"
  shows "\<exists>w' cs. run_dag (wave_job env g t None merge sched) s depth (w, d) =
       Some (ref_outcome s' d', (w', d')) \<and>
     mem_list (w_store w') = (mem_list (w_store w))(t := mem_list (w_store w) t @ cs) \<and>
     list_all2 (wave_checkpoint env) cs waves"
proof -
  let ?j = "wave_job env g t None merge sched"
  have "\<exists>w' es. run_dag ?j s depth (w, d) = Some (ref_outcome s' d', (w', d')) \<and>
      mem_run.appended (dj_thread_id ?j) es (store_at w) (store_at w') \<and>
      list_all2 (wave_entry (mem_enc env)) es waves"
    by (rule mem_run.run_dag_journal[where W = W and F = F])
       (use assms in \<open>simp_all add: mem_usable_def\<close>)
  then obtain w' es where r: "run_dag ?j s depth (w, d) = Some (ref_outcome s' d', (w', d'))"
    and a: "mem_run.appended t es (store_at w) (store_at w')"
    and es: "list_all2 (wave_entry (mem_enc env)) es waves" by auto
  from mem_appended(2)[OF a] obtain cs where cs: "map mem_entry cs = es"
    and l: "mem_list (w_store w') = (mem_list (w_store w))(t := mem_list (w_store w) t @ cs)" by blast
  from l r es[folded cs, unfolded wave_checkpoints] show ?thesis by blast
qed

text \<open>C23: a DAG run of nodes that succeed, without budgets, interrupts or a token, implements the
  abstract waves, in whatever order the runtime starts the tasks and gives their results and however
  many may run at once: the final state, the DAG and the error are those of \<open>ref_waves\<close>, which merges
  the outputs of a wave in the order of the nodes, and there is one Complete checkpoint for each wave,
  with its state and its DAG.\<close>

theorem run_dag_refines:
  assumes "plain_dag env g merge W F" and "\<forall>(d, s) \<in> W. \<exists>v. e_to_value env s = Inr v"
    and "permutes_tasks sched" and "depth \<le> 8"
    and "length (dag_nodes d) \<le> max_dag_nodes (g_resource_limits g)"
    and "(d, s) \<in> W" and "\<not> ms_poisoned (w_store w)"
    and "waves = ref_waves merge (\<lambda>n s. no_state (F n s)) (length (dag_nodes d)) d s"
    and "(s', d') = last ((s, d) # waves)"
  shows "\<exists>w' cs. run_dag (wave_job env g t None merge sched) s depth (w, d) =
       Some (ref_outcome s' d', (w', d')) \<and>
     mem_list (w_store w') = (mem_list (w_store w))(t := mem_list (w_store w) t @ cs) \<and>
     list_all2 (wave_checkpoint env) cs waves"
  by (rule run_dag_plain[OF assms])

section \<open>Samples\<close>

definition sample_merge :: "nat \<Rightarrow> nat \<Rightarrow> nat" where
  "sample_merge a b = min 100 (a + b)"

definition reversing :: scheduler where
  "reversing = \<lparr>sc_start = (\<lambda>_ is. is), sc_arrive = (\<lambda>_ is. rev is), sc_join_error = (\<lambda>m. m)\<rparr>"

lemma reversing_permutes: "permutes_tasks reversing"
  by (simp add: permutes_tasks_def reversing_def)

text \<open>The DAGs over the two sample nodes, in the states up to 100.\<close>

definition sample_runs :: "(DAG \<times> nat) set" where
  "sample_runs = {(d, s). dn_step_type ` set (dag_nodes d) \<subseteq> {''a'', ''b''} \<and> s \<le> 100}"

lemma sample_runs_merge:
  assumes "(d, s) \<in> sample_runs"
  shows "(set_statuses st is d, wave_merge sample_merge f d is s) \<in> sample_runs"
proof -
  have "a \<le> 100 \<Longrightarrow> foldl (\<lambda>a i. sample_merge a (f (step_type_at d i) s)) a is \<le> 100" for a
    by (induction "is" arbitrary: a) (simp_all add: sample_merge_def)
  moreover have "dn_step_type ` set (dag_nodes (set_statuses st is d)) \<subseteq> {''a'', ''b''}"
    using assms set_statuses_nodes[of _ st "is" d] by (fastforce simp: sample_runs_def)
  ultimately show ?thesis using assms by (simp add: sample_runs_def wave_merge_def)
qed

lemma sample_plain_dag: "plain_dag sample_env (sample_graph limit) sample_merge sample_runs sample_output"
  unfolding plain_dag_def
proof (intro conjI ballI)
  show "g_budget_eur (sample_graph limit) = None"
    "0 < max_execution_records (g_resource_limits (sample_graph limit))"
    using sample_graph_plain[of limit] by (simp_all add: plain_graph_def)
  fix ds assume "ds \<in> sample_runs"
  then obtain d s where ds: "ds = (d, s)" "(d, s) \<in> sample_runs" by (cases ds) simp
  then have s: "s \<le> 100" and d: "dn_step_type ` set (dag_nodes d) \<subseteq> {''a'', ''b''}"
    by (simp_all add: sample_runs_def)
  have "plain_node (sample_graph limit) {s} sample_output (step_type_at d i)"
    if "i \<in> set (ready_wave (done_ids d) d)" for i
  proof -
    from that have "dag_nodes d ! i \<in> set (dag_nodes d)" by (simp add: ready_wave_iff)
    with d have "step_type_at d i \<in> {''a'', ''b''}" by (auto simp: step_type_at_def)
    with s sample_graph_plain[of limit] show ?thesis by (auto simp: plain_graph_def plain_node_def)
  qed
  moreover have "estimated_size sample_env s \<le> max_checkpoint_bytes (g_resource_limits (sample_graph limit))"
    using sample_sizes[OF s] by (simp add: sample_graph_simps)
  ultimately show "case ds of (d, s) \<Rightarrow>
      estimated_size sample_env s \<le> max_checkpoint_bytes (g_resource_limits (sample_graph limit)) \<and>
      (let ready = ready_wave (done_ids d) d
       in (\<forall>i \<in> set ready. plain_node (sample_graph limit) {s} sample_output (step_type_at d i)) \<and>
          (ready \<noteq> [] \<longrightarrow> (set_statuses NodeStatus.Done ready d,
             wave_merge sample_merge (plain_out sample_output) d ready s) \<in> sample_runs))"
    using sample_runs_merge[OF ds(2)] by (simp add: ds(1) Let_def)
qed

lemma sample_runs_enc: "\<forall>(d, s) \<in> sample_runs. \<exists>v. e_to_value sample_env s = Inr v"
  by (auto simp: sample_enc)

definition sample_dag :: DAG where
  "sample_dag = \<lparr>dag_id = 0, dag_nodes =
     [\<lparr>dn_id = 1, dn_step_type = ''a'', dn_depends_on = [], dn_status = NodeStatus.Pending\<rparr>,
      \<lparr>dn_id = 2, dn_step_type = ''b'', dn_depends_on = [], dn_status = NodeStatus.Pending\<rparr>,
      \<lparr>dn_id = 3, dn_step_type = ''a'', dn_depends_on = [1, 2], dn_status = NodeStatus.Pending\<rparr>],
     dag_created_at = 0\<rparr>"

lemma sample_dag_limits:
  "length (dag_nodes sample_dag) \<le> max_dag_nodes (g_resource_limits (sample_graph limit))"
  "s \<le> 100 \<Longrightarrow> (sample_dag, s) \<in> sample_runs"
  by (simp_all add: sample_dag_def sample_graph_def set_resource_limits_def with_max_sequential_steps_def
      resource_limits_default_def sample_runs_def)

lemma sample_dag_length: "length (dag_nodes sample_dag) = 3"
  by (simp add: sample_dag_def)

lemma sample_ready:
  "ready_wave (done_ids sample_dag) sample_dag = [0, 1]"
  "ready_wave (done_ids (set_statuses NodeStatus.Done [0, 1] sample_dag))
     (set_statuses NodeStatus.Done [0, 1] sample_dag) = [2]"
  "ready_wave (done_ids (set_statuses NodeStatus.Done [0, 1, 2] sample_dag))
     (set_statuses NodeStatus.Done [0, 1, 2] sample_dag) = []"
  by code_simp+

lemma sample_waves:
  "ref_waves sample_merge (\<lambda>n s. no_state (sample_output n s)) 3 sample_dag 0 =
     [(2, set_statuses NodeStatus.Done [0, 1] sample_dag), (5, set_statuses NodeStatus.Done [0, 1, 2] sample_dag)]"
proof -
  let ?m = "wave_merge sample_merge (\<lambda>n s. no_state (sample_output n s))"
  have "?m sample_dag [0, 1] 0 = 2" and "?m (set_statuses NodeStatus.Done [0, 1] sample_dag) [2] 2 = 5"
    by (simp_all add: wave_merge_def sample_merge_def sample_output_def node_output_bare_def)
  then show ?thesis
    using sample_ready by (simp add: numeral_3_eq_3 Let_def del: set_statuses_simps(2)) (simp)
qed

theorem run_dag_refines_witness:
  "\<exists>w' d'. run_dag (wave_job sample_env (sample_graph 3) ''t'' None sample_merge reversing) 0 0
       (sample_world 0 mem_new, sample_dag) = Some (Inr 5, (w', d')) \<and>
     length (mem_list (w_store w') ''t'') = 2"
proof -
  let ?waves = "ref_waves sample_merge (\<lambda>n s. no_state (sample_output n s)) 3 sample_dag 0"
  let ?d = "set_statuses NodeStatus.Done [0, 1, 2] sample_dag"
  have w: "?waves = ref_waves sample_merge (\<lambda>n s. no_state (sample_output n s)) (length (dag_nodes sample_dag))
      sample_dag 0" unfolding sample_dag_length ..
  have l: "(5, ?d) = last ((0, sample_dag) # ?waves)" by (simp add: sample_waves)
  have o: "ref_outcome 5 ?d = (Inr 5 :: TakelnError + nat)"
    by (simp add: ref_outcome_def types_with_def sample_dag_def set_node_status_def)
  have p: "\<not> ms_poisoned (w_store (sample_world (0 :: nat) mem_new))" "(0 :: 8 word) \<le> 8" "(sample_dag, 0) \<in> sample_runs"
    using sample_dag_limits(2)[of 0] by (simp_all add: sample_world_def mem_new_def)
  from run_dag_refines[where t = "''t''", OF sample_plain_dag sample_runs_enc reversing_permutes
      p(2) sample_dag_limits(1) p(3,1) w l] obtain w' cs where
    r: "run_dag (wave_job sample_env (sample_graph 3) ''t'' None sample_merge reversing) 0 0
       (sample_world 0 mem_new, sample_dag) = Some (Inr 5, (w', ?d))"
    and m: "mem_list (w_store w') = (mem_list (w_store (sample_world (0 :: nat) mem_new)))(''t'' :=
        mem_list (w_store (sample_world (0 :: nat) mem_new)) ''t'' @ cs)"
    and cs: "list_all2 (wave_checkpoint sample_env) cs ?waves" unfolding o by blast
  have "length cs = 2" using list_all2_lengthD[OF cs] by (simp add: sample_waves)
  then have "length (mem_list (w_store w') ''t'') = 2"
    by (simp add: m sample_world_def mem_new_def mem_list_def)
  with r show ?thesis by blast
qed

end
