(* ===== verification/Dag_Order.thy ===== *)
theory Dag_Order
  imports Dag_Properties
begin

text \<open>
  What holds of a DAG run whatever its nodes, its budgets and its checkpointer do, errors included:
  the order in which nodes are run, and which nodes are never run again.
\<close>

section \<open>Nodes that have been launched\<close>

text \<open>A node that is no longer pending has all its dependencies Done.\<close>

definition ordered :: "DAG \<Rightarrow> bool" where
  "ordered d \<longleftrightarrow> (\<forall>n \<in> set (dag_nodes d). dn_status n = NodeStatus.Pending \<or>
     set (dn_depends_on n) \<subseteq> done_ids d)"

text \<open>The same nodes, those that are Done still Done, and the settled ones untouched.\<close>

definition advances :: "nat set \<Rightarrow> DAG \<Rightarrow> DAG \<Rightarrow> bool" where
  "advances A d d' \<longleftrightarrow> skeleton d' = skeleton d \<and> done_ids d \<subseteq> done_ids d' \<and>
     (\<forall>k < length (dag_nodes d). k \<notin> A \<longrightarrow> dag_nodes d' ! k = dag_nodes d ! k)"

lemma skeleton_length: "skeleton d = skeleton d' \<Longrightarrow> length (dag_nodes d) = length (dag_nodes d')"
  by (drule arg_cong[of _ _ length]) (simp add: skeleton_def)

lemma advances_step_type:
  assumes "advances A d d'"
  shows "step_type_at d' i = step_type_at d i"
proof -
  have "skeleton d' = skeleton d" using assms by (simp add: advances_def)
  then have "map dn_step_type (dag_nodes d') = map dn_step_type (dag_nodes d)"
    by (auto simp: skeleton_def o_def dest!: arg_cong[of _ _ "map (fst \<circ> snd)"])
  then show ?thesis unfolding step_type_at_def
    by (metis length_map nth_beyond nth_map not_le)
qed

lemma advances_refl [simp]: "advances A d d"
  by (simp add: advances_def)

lemma advances_trans: "advances A d d1 \<Longrightarrow> advances A d1 d2 \<Longrightarrow> advances A d d2"
  using skeleton_length[of d1 d] by (auto simp: advances_def)

lemma advances_mono: "advances A d d' \<Longrightarrow> A \<subseteq> B \<Longrightarrow> advances B d d'"
  by (auto simp: advances_def)

lemma ordered_nth: "ordered d \<longleftrightarrow> (\<forall>k < length (dag_nodes d). dn_status (dag_nodes d ! k) = NodeStatus.Pending \<or>
    set (dn_depends_on (dag_nodes d ! k)) \<subseteq> done_ids d)"
  by (simp add: ordered_def all_set_conv_all_nth)

lemma set_node_skeleton [simp]: "skeleton (set_node_status i st d) = skeleton d"
  using skeleton_set[of st "[i]" d] by simp

lemma set_node_done:
  assumes "i < length (dag_nodes d)" and "dn_status (dag_nodes d ! i) \<noteq> NodeStatus.Done"
  shows "done_ids d \<subseteq> done_ids (set_node_status i st d)"
proof
  fix u assume "u \<in> done_ids d"
  then obtain k where k: "k < length (dag_nodes d)" "dn_status (dag_nodes d ! k) = NodeStatus.Done"
    "u = dn_id (dag_nodes d ! k)" by (auto simp: done_ids_nth)
  with assms(2) have "k \<noteq> i" by auto
  with k show "u \<in> done_ids (set_node_status i st d)"
    by (auto simp: done_ids_nth set_node_status_nth intro!: exI[of _ k])
qed

lemma set_node_advances:
  assumes "i < length (dag_nodes d)" and "dn_status (dag_nodes d ! i) \<noteq> NodeStatus.Done" and "i \<in> A"
  shows "advances A d (set_node_status i st d)"
  using set_node_done[OF assms(1,2)] assms(3) by (auto simp: advances_def set_node_status_nth)

lemma set_node_ordered:
  assumes "ordered d" and "i < length (dag_nodes d)" and "dn_status (dag_nodes d ! i) \<noteq> NodeStatus.Done"
    and "set (dn_depends_on (dag_nodes d ! i)) \<subseteq> done_ids d"
  shows "ordered (set_node_status i st d)"
proof -
  from set_node_done[OF assms(2,3), of st] have sub: "done_ids d \<subseteq> done_ids (set_node_status i st d)" .
  show ?thesis
    unfolding ordered_nth
  proof (intro allI impI)
    fix k assume k: "k < length (dag_nodes (set_node_status i st d))"
    then have kl: "k < length (dag_nodes d)" by simp
    show "dn_status (dag_nodes (set_node_status i st d) ! k) = NodeStatus.Pending \<or>
        set (dn_depends_on (dag_nodes (set_node_status i st d) ! k)) \<subseteq> done_ids (set_node_status i st d)"
    proof (cases "k = i")
      case True
      with assms(4) sub kl show ?thesis by (auto simp: set_node_status_nth)
    next
      case False
      with assms(1) kl sub show ?thesis by (auto simp: ordered_nth set_node_status_nth)
    qed
  qed
qed

text \<open>The nodes of a wave that are running or have just ended may be given any status.\<close>

definition launched :: "nat list \<Rightarrow> DAG \<Rightarrow> bool" where
  "launched is d \<longleftrightarrow> (\<forall>i \<in> set is. i < length (dag_nodes d) \<and>
     dn_status (dag_nodes d ! i) \<noteq> NodeStatus.Done \<and> set (dn_depends_on (dag_nodes d ! i)) \<subseteq> done_ids d)"

lemma launched_Cons: "launched (i # is) d \<Longrightarrow> launched is d"
  by (simp add: launched_def)

lemma set_node_launched:
  assumes "launched is d" and "i \<notin> set is" and "i < length (dag_nodes d)"
    and "dn_status (dag_nodes d ! i) \<noteq> NodeStatus.Done"
  shows "launched is (set_node_status i st d)"
  using assms set_node_done[OF assms(3,4), of st] by (auto simp: launched_def set_node_status_nth)

lemma mark_running_launched:
  assumes "launched is d" and "ordered d" and "distinct is" and "set is \<subseteq> A"
  shows "advances A d (mark_running is d)" and "ordered (mark_running is d)"
    and "launched is (mark_running is d)"
proof -
  have "advances A d (set_statuses NodeStatus.Running is d) \<and> ordered (set_statuses NodeStatus.Running is d)"
    using assms
  proof (induction "is" arbitrary: d)
    case (Cons i "is")
    let ?d = "set_node_status i NodeStatus.Running d"
    from Cons.prems have i: "i < length (dag_nodes d)" "dn_status (dag_nodes d ! i) \<noteq> NodeStatus.Done"
      "set (dn_depends_on (dag_nodes d ! i)) \<subseteq> done_ids d" "i \<in> A" by (auto simp: launched_def)
    have "launched is ?d" using Cons.prems i by (auto intro: set_node_launched dest: launched_Cons)
    moreover have "ordered ?d" by (rule set_node_ordered[OF Cons.prems(2) i(1-3)])
    ultimately have "advances A ?d (set_statuses NodeStatus.Running is ?d) \<and>
        ordered (set_statuses NodeStatus.Running is ?d)" using Cons by simp
    with set_node_advances[OF i(1,2,4), of NodeStatus.Running] show ?case by (auto intro: advances_trans)
  qed simp
  then show a: "advances A d (mark_running is d)" and "ordered (mark_running is d)"
    by (simp_all add: mark_running_eq)
  show "launched is (mark_running is d)"
    using a assms(1) by (auto simp: launched_def mark_running_eq set_statuses_nth advances_def)
qed

section \<open>The collection\<close>

lemma collect_success_dag:
  assumes "collect_success j i out wv (w, d) = Some (res, (w', d'))"
  shows "case res of Inl e \<Rightarrow> d' = d
    | Inr wv' \<Rightarrow> d' = set_node_status i NodeStatus.Done d \<and>
        wv_completed wv' = insert (dn_id (dag_nodes d ! i)) (wv_completed wv)"
  using assms by (auto simp: collect_success_def Let_def split: option.splits prod.splits if_splits)

lemma collect_failure_dag:
  assumes "collect_failure j i e wv (w, d) = Some (res, (w', d'))"
  shows "d' = set_node_status i NodeStatus.Failed d"
    and "res = Inr wv' \<Longrightarrow> wv_completed wv' = wv_completed wv"
  using assms by (auto simp: collect_failure_def Let_def split: GraphError.splits WaveFailurePolicy.splits)

lemma collect_one_dag:
  assumes "collect_one j i r wv (w, d) = Some (res, (w', d'))"
  shows "(d' = d \<and> (\<exists>e. res = Inl e)) \<or> (\<exists>st. d' = set_node_status i st d \<and> (case res of Inl e \<Rightarrow> True
    | Inr wv' \<Rightarrow> wv_completed wv' = (if st = NodeStatus.Done then insert (dn_id (dag_nodes d ! i))
        (wv_completed wv) else wv_completed wv)))"
proof (cases r)
  case (Inl m)
  with assms show ?thesis by (auto simp: collect_one_def)
next
  case (Inr res0)
  show ?thesis
  proof (cases res0)
    case (Inr out)
    with assms \<open>r = Inr res0\<close> have "collect_success j i out wv (w, d) = Some (res, (w', d'))"
      by (simp add: collect_one_def)
    from collect_success_dag[OF this] show ?thesis by (cases res) auto
  next
    case (Inl e)
    show ?thesis
    proof (cases "\<exists>request. e = Yield request")
      case True
      then obtain request where "e = Yield request" by blast
      with assms Inl \<open>r = Inr res0\<close> have "d' = set_node_status i NodeStatus.Yielded d"
        and "\<exists>wv'. res = Inr wv' \<and> wv_completed wv' = wv_completed wv"
        by (auto simp: collect_one_def collect_yield_def)
      then show ?thesis by (intro disjI2 exI[of _ NodeStatus.Yielded]) auto
    next
      case False
      with assms Inl \<open>r = Inr res0\<close> have f: "collect_failure j i e wv (w, d) = Some (res, (w', d'))"
        by (cases e) (auto simp: collect_one_def)
      from collect_failure_dag(1)[OF f] collect_failure_dag(2)[OF f] show ?thesis
        by (cases res) (auto intro!: exI[of _ NodeStatus.Failed])
    qed
  qed
qed

lemma collect_wave_order:
  "collect_wave j results is wv (w, d) = Some (res, (w', d')) \<Longrightarrow> launched is d \<Longrightarrow> ordered d \<Longrightarrow>
     distinct is \<Longrightarrow> set is \<subseteq> A \<Longrightarrow> wv_completed wv \<subseteq> done_ids d \<Longrightarrow>
     advances A d d' \<and> ordered d' \<and> (\<forall>wv'. res = Inr wv' \<longrightarrow> wv_completed wv' \<subseteq> done_ids d')"
proof (induction "is" arbitrary: wv w d)
  case (Cons i "is")
  from Cons.prems(1) obtain r where r: "results i = Some r" by (auto split: option.splits)
  from Cons.prems have i: "i < length (dag_nodes d)" "dn_status (dag_nodes d ! i) \<noteq> NodeStatus.Done"
    "set (dn_depends_on (dag_nodes d ! i)) \<subseteq> done_ids d" "i \<in> A" "i \<notin> set is"
    by (auto simp: launched_def)
  from Cons.prems(1) r obtain r1 w1 d1 where c: "collect_one j i r wv (w, d) = Some (r1, (w1, d1))"
    by (cases "collect_one j i r wv (w, d)") auto
  have step: "advances A d d1 \<and> ordered d1 \<and> launched is d1"
    using collect_one_dag[OF c] Cons.prems(2,3) i
    by (auto intro: set_node_advances set_node_ordered set_node_launched dest: launched_Cons)
  show ?case
  proof (cases r1)
    case (Inl e)
    with Cons.prems(1) r c step show ?thesis by auto
  next
    case (Inr wv1)
    have "wv_completed wv1 \<subseteq> done_ids d1"
    proof -
      from collect_one_dag[OF c] Inr obtain st where st: "d1 = set_node_status i st d"
        "wv_completed wv1 = (if st = NodeStatus.Done then insert (dn_id (dag_nodes d ! i))
           (wv_completed wv) else wv_completed wv)" by auto
      have "dn_id (dag_nodes d ! i) \<in> done_ids (set_node_status i NodeStatus.Done d)"
        using i(1) by (auto simp: done_ids_nth set_node_status_nth intro!: exI[of _ i])
      with st Cons.prems(6) set_node_done[OF i(1,2), of st] show ?thesis by auto
    qed
    moreover have "collect_wave j results is wv1 (w1, d1) = Some (res, (w', d'))"
      using Cons.prems(1) r c Inr by simp
    ultimately show ?thesis
      using Cons.IH[of wv1 w1 d1] step Cons.prems(4,5) by (auto intro: advances_trans)
  qed
qed auto

section \<open>Passes and runs\<close>

lemma dag_save_dag':
  "dag_save j s n st r h wd = Some (res, wd') \<Longrightarrow> snd wd' = snd wd"
  by (cases wd; cases wd') (auto dest: dag_save_dag)

lemma wave_finish_dag:
  assumes "wave_finish j q ready wv (w, d) = Some (res, (w', d'))"
  shows "d' = d" and "res = Inr (Next_Wave q') \<Longrightarrow> ds_completed q' = wv_completed wv"
  using assms
  by (auto simp: wave_finish_def wave_suspend_def then_ok_Some dest: wave_commit_dag dag_save_dag split: if_splits)
     (auto simp: wave_commit_def then_ok_Some Let_def split: option.splits if_splits)

definition pending_nodes :: "DAG \<Rightarrow> nat set" where
  "pending_nodes d = {k. k < length (dag_nodes d) \<and> dn_status (dag_nodes d ! k) = NodeStatus.Pending}"

lemma pending_nodes_advance: "advances (pending_nodes d) d d' \<Longrightarrow> pending_nodes d' \<subseteq> pending_nodes d"
  using skeleton_length[of d' d] by (auto simp: advances_def pending_nodes_def)

lemma ready_launched:
  assumes "completed \<subseteq> done_ids d"
  shows "launched (ready_wave completed d) d" "set (ready_wave completed d) \<subseteq> pending_nodes d"
  using assms by (auto simp: launched_def ready_wave_iff pending_nodes_def subset_iff)

lemma arrivals_ready:
  assumes "permutes_tasks (dj_sched j)" and "distinct ready"
  shows "set (arrivals j no ready results) = set ready" "distinct (arrivals j no ready results)"
proof -
  have "mset (arrivals j no ready results) = mset ready"
    using assms(1) multiset_partition[of "mset ready" "\<lambda>i. results i \<noteq> None"]
    by (simp add: arrivals_def Let_def permutes_tasks_def)
  then show "set (arrivals j no ready results) = set ready" "distinct (arrivals j no ready results)"
    using assms(2) by (metis set_mset_mset, metis mset_eq_imp_distinct_iff)
qed

lemma wave_launch_order:
  assumes "permutes_tasks (dj_sched j)" and "ordered d" and "ds_completed q \<subseteq> done_ids d"
    and "ready = ready_wave (ds_completed q) d" and "wave_launch j q ready (w, d) = Some (res, (w', d'))"
  shows "advances (pending_nodes d) d d' \<and> ordered d' \<and>
     (\<forall>q'. res = Inr (Next_Wave q') \<longrightarrow> ds_completed q' \<subseteq> done_ids d')"
proof -
  let ?A = "pending_nodes d" and ?d = "mark_running ready d"
  let ?permits = "max (max_concurrent_nodes (g_resource_limits (dj_graph j))) 1"
  note l0 = ready_launched[OF assms(3), folded assms(4)]
  have dist: "distinct ready" by (simp add: assms(4))
  note m = mark_running_launched[OF l0(1) assms(2) dist l0(2)]
  show ?thesis
  proof (cases "missing_node (dj_graph j) ?d ready")
    case (Some name)
    with assms(5) m show ?thesis by (auto simp: wave_launch_def Let_def)
  next
    case None
    obtain results w1 where rt: "run_tasks j ?d (ds_state q) ?permits
        (sc_start (dj_sched j) (ds_wave_no q) ready) w = (results, w1)" by fastforce
    let ?arr = "arrivals j (ds_wave_no q) ready results"
    note arr = arrivals_ready[OF assms(1) dist, of "ds_wave_no q" results]
    have l1: "launched ?arr ?d" using m(3) arr(1) by (auto simp: launched_def)
    have comp: "wv_completed (wave_start (ds_completed q)) \<subseteq> done_ids ?d"
      using assms(3) m(1) by (auto simp: wave_start_def advances_def)
    from None assms(5) rt have fin: "then_ok (collect_wave j results ?arr (wave_start (ds_completed q)) (w1, ?d))
        (\<lambda>wv wd. wave_finish j q ready wv wd) = Some (res, (w', d'))"
      by (simp add: wave_launch_def Let_def)
    then obtain cres w2 d2 where c: "collect_wave j results ?arr (wave_start (ds_completed q)) (w1, ?d) =
        Some (cres, (w2, d2))"
      by (cases "collect_wave j results ?arr (wave_start (ds_completed q)) (w1, ?d)") auto
    from collect_wave_order[OF c l1 m(2) arr(2) _ comp] arr(1) l0(2)
    have o: "advances ?A ?d d2" "ordered d2" "\<forall>wv'. cres = Inr wv' \<longrightarrow> wv_completed wv' \<subseteq> done_ids d2"
      by auto
    show ?thesis
    proof (cases cres)
      case (Inl e)
      with fin c o m(1) show ?thesis by (auto intro: advances_trans)
    next
      case (Inr wv)
      with fin c have f: "wave_finish j q ready wv (w2, d2) = Some (res, (w', d'))" by simp
      from wave_finish_dag(1)[OF f] wave_finish_dag(2)[OF f] o Inr m(1) show ?thesis
        by (auto intro: advances_trans)
    qed
  qed
qed

lemma wave_step_order:
  assumes "permutes_tasks (dj_sched j)" and "ordered d" and "ds_completed q \<subseteq> done_ids d"
    and "wave_step j q (w, d) = Some (res, (w', d'))"
  shows "advances (pending_nodes d) d d' \<and> ordered d' \<and>
     (\<forall>q'. res = Inr (Next_Wave q') \<longrightarrow> ds_completed q' \<subseteq> done_ids d')"
proof -
  let ?ready = "ready_wave (ds_completed q) d" and ?q = "q\<lparr>ds_first_wave := False\<rparr>"
  consider "d' = d" "\<forall>q'. res \<noteq> Inr (Next_Wave q')"
    | "wave_launch j ?q ?ready (w, d) = Some (res, (w', d'))"
    using assms(4)
    by (auto simp: wave_step_def no_ready_def wave_interrupt_def then_ok_Some Let_def
        dest: dag_save_dag split: if_splits)
  then show ?thesis
  proof cases
    case 1
    then show ?thesis using assms(2) by simp
  next
    case 2
    then show ?thesis using wave_launch_order[OF assms(1,2), of ?q ?ready] assms(3) by simp
  qed
qed

lemma wave_loop_order:
  "permutes_tasks (dj_sched j) \<Longrightarrow> ordered (snd wd) \<Longrightarrow> ds_completed q \<subseteq> done_ids (snd wd) \<Longrightarrow>
     wave_loop j q wd = Some (res, wd') \<Longrightarrow>
     advances (pending_nodes (snd wd)) (snd wd) (snd wd') \<and> ordered (snd wd')"
proof (induction j q wd rule: wave_loop.induct)
  case (1 j q wd)
  obtain w d where wd: "wd = (w, d)" by fastforce
  from "1.prems"(4) obtain r1 w1 d1 where s: "wave_step j q (w, d) = Some (r1, (w1, d1))"
    by (subst (asm) wave_loop.simps) (auto simp: wd split: option.splits)
  from wave_step_order[OF "1.prems"(1) _ _ s] "1.prems"(2,3)
  have o: "advances (pending_nodes d) d d1" "ordered d1"
    "\<And>q'. r1 = Inr (Next_Wave q') \<Longrightarrow> ds_completed q' \<subseteq> done_ids d1" by (auto simp: wd)
  show ?case
  proof (cases "\<exists>q'. r1 = Inr (Next_Wave q')")
    case True
    then obtain q' where q': "r1 = Inr (Next_Wave q')" by blast
    from "1.prems"(4) s q' have "wave_loop j q' (w1, d1) = Some (res, wd')"
      by (subst (asm) wave_loop.simps) (simp add: wd)
    from "1.IH"[OF s[folded wd] refl q' refl "1.prems"(1) _ _ this] o q'
    have "advances (pending_nodes d1) d1 (snd wd')" "ordered (snd wd')" by auto
    with o(1) pending_nodes_advance[OF o(1)] show ?thesis
      by (auto simp: wd intro: advances_trans advances_mono)
  next
    case False
    then have "snd wd' = d1"
      using "1.prems"(4) s by (subst (asm) wave_loop.simps)
        (auto simp: wd split: sum.splits dag_flow.splits)
    with o show ?thesis by (simp add: wd)
  qed
qed

section \<open>The properties\<close>

lemma run_dag_order:
  assumes "permutes_tasks (dj_sched j)" and "ordered d"
    and "run_dag j s depth (w, d) = Some (r, (w', d'))"
  shows "advances (pending_nodes d) d d' \<and> ordered d'"
proof -
  consider "d' = d" | w1 head where "wave_loop j (dag_start s d head) (w1, d) = Some (r, (w', d'))"
    using assms(3) by (auto simp: run_dag_def Let_def split: if_splits option.splits sum.splits)
  then show ?thesis
  proof cases
    case 1
    then show ?thesis using assms(2) by simp
  next
    case (2 w1 head)
    have "ds_completed (dag_start s d head) \<subseteq> done_ids d" by (simp add: dag_start_def done_ids_def)
    with wave_loop_order[OF assms(1) _ _ 2] assms(2) show ?thesis by simp
  qed
qed

text \<open>C27: whatever its nodes, its budgets and its checkpointer do, and also when it fails, a DAG run
  only ever leaves the pending state of a node once all its dependencies are Done; it changes nothing
  of the DAG but statuses, and only those of nodes that were pending; what was Done stays Done.\<close>

theorem run_dag_dependency_order:
  assumes "permutes_tasks (dj_sched j)"
    and "\<And>n. n \<in> set (dag_nodes d) \<Longrightarrow> dn_status n \<noteq> NodeStatus.Pending \<Longrightarrow>
       set (dn_depends_on n) \<subseteq> done_ids d"
    and "run_dag j s depth (w, d) = Some (r, (w', d'))"
  shows "(\<forall>n \<in> set (dag_nodes d'). dn_status n = NodeStatus.Pending \<or> set (dn_depends_on n) \<subseteq> done_ids d') \<and>
     skeleton d' = skeleton d \<and> done_ids d \<subseteq> done_ids d' \<and>
     (\<forall>k < length (dag_nodes d). dn_status (dag_nodes d ! k) = NodeStatus.Pending \<or>
        dag_nodes d' ! k = dag_nodes d ! k)"
  using run_dag_order[OF assms(1) _ assms(3)] assms(2)
  by (auto simp: ordered_def advances_def pending_nodes_def)

lemma sample_dag_run:
  assumes "permutes_tasks sched"
  shows "\<exists>w' d'. run_dag (wave_job sample_env (sample_graph 3) ''t'' None sample_merge sched) 0 0
    (sample_world 0 mem_new, sample_dag) = Some (Inr 5, (w', d'))"
proof -
  let ?d = "set_statuses NodeStatus.Done [0, 1, 2] sample_dag"
  have l: "(5, ?d) = last ((0, sample_dag) # ref_waves sample_merge (\<lambda>n s. no_state (sample_output n s))
      (length (dag_nodes sample_dag)) sample_dag 0)"
    unfolding sample_dag_length by (simp add: sample_waves)
  have o: "ref_outcome 5 ?d = (Inr 5 :: TakelnError + nat)"
    by (simp add: ref_outcome_def types_with_def sample_dag_def set_node_status_def)
  have p: "\<not> ms_poisoned (w_store (sample_world (0 :: nat) mem_new))" "(0 :: 8 word) \<le> 8" "(sample_dag, 0) \<in> sample_runs"
    using sample_dag_limits(2)[of 0] by (simp_all add: sample_world_def mem_new_def)
  from run_dag_plain[where t = "''t''", OF sample_plain_dag sample_runs_enc assms p(2) sample_dag_limits(1)
      p(3,1) refl l] show ?thesis unfolding o by blast
qed

theorem run_dag_dependency_order_witness:
  "\<exists>w' d'. run_dag (wave_job sample_env (sample_graph 3) ''t'' None sample_merge reversing) 0 0
       (sample_world 0 mem_new, sample_dag) = Some (Inr 5, (w', d')) \<and>
     (\<forall>n \<in> set (dag_nodes d'). dn_status n = NodeStatus.Pending \<or> set (dn_depends_on n) \<subseteq> done_ids d')"
proof -
  obtain w' d' where r: "run_dag (wave_job sample_env (sample_graph 3) ''t'' None sample_merge reversing) 0 0
       (sample_world 0 mem_new, sample_dag) = Some (Inr 5, (w', d'))"
    using sample_dag_run[OF reversing_permutes] by blast
  have s: "permutes_tasks (dj_sched (wave_job sample_env (sample_graph 3) ''t'' None sample_merge reversing))"
    by (simp add: reversing_permutes)
  have "n \<in> set (dag_nodes sample_dag) \<Longrightarrow> dn_status n \<noteq> NodeStatus.Pending \<Longrightarrow>
      set (dn_depends_on n) \<subseteq> done_ids sample_dag" for n
    by (auto simp: sample_dag_def)
  from run_dag_dependency_order[OF s this r] r show ?thesis by blast
qed

end
