(* ===== verification/Dag_Starts.thy ===== *)
theory Dag_Starts
  imports Dag_Order
begin

text \<open>
  Which nodes a DAG run starts. A task announces itself with a \<open>NodeStarted\<close> event before its node is
  called, so the events of a name in the trace count the tasks of that name. Whatever its nodes do, a
  run adds such events only for nodes that were pending when it began.
\<close>

definition starts_of :: "string \<Rightarrow> obs \<Rightarrow> bool" where
  "starts_of n ob = (case ob of OEvent (NodeStarted _ name _ _) \<Rightarrow> name = n | _ \<Rightarrow> False)"

definition node_starts :: "string \<Rightarrow> ('x, 'st) world \<Rightarrow> obs list" where
  "node_starts n w = filter (starts_of n) (w_trace w)"

section \<open>What adds no start\<close>

lemma node_starts_update [simp]:
  "node_starts n (w\<lparr>w_ext := x\<rparr>) = node_starts n w" "node_starts n (w\<lparr>w_store := st\<rparr>) = node_starts n w"
  "node_starts n (w\<lparr>w_sys := y\<rparr>) = node_starts n w" "node_starts n (w\<lparr>w_seq := k\<rparr>) = node_starts n w"
  "node_starts n (w\<lparr>w_awaits := a\<rparr>) = node_starts n w" "node_starts n (w\<lparr>w_records := rs\<rparr>) = node_starts n w"
  by (simp_all add: node_starts_def)

lemma node_starts_observe:
  "node_starts n (observe ob w) = node_starts n w @ (if starts_of n ob then [ob] else [])"
  by (simp add: node_starts_def observe_def)

lemma node_starts_events [simp]:
  "name \<noteq> n \<Longrightarrow> node_starts n (send_started t name tm w) = node_starts n w"
  "node_starts n (send_finished t name ms st c w) = node_starts n w"
  "node_starts n (send_graph_finished t cost w) = node_starts n w"
  "node_starts n (emit_span t name a ms cst sst err meta w) = node_starts n w"
  "node_starts n (observe (ONodeComplete name ms sst) w) = node_starts n w"
  "node_starts n (observe (OSleep delay) w) = node_starts n w"
  by (simp_all add: send_started_def send_finished_def send_graph_finished_def emit_span_def next_seq_def
      node_starts_observe starts_of_def)

lemma read_clock_starts: "read_clock env w = (t, w') \<Longrightarrow> node_starts n w' = node_starts n w"
  by (auto simp: read_clock_def Let_def split: prod.splits)

lemma elapsed_ms_starts: "elapsed_ms env t w = (ms, w') \<Longrightarrow> node_starts n w' = node_starts n w"
  by (auto simp: elapsed_ms_def Let_def split: prod.splits dest: read_clock_starts)

lemma push_record_starts: "push_record limit r w = Some (x, w') \<Longrightarrow> node_starts n w' = node_starts n w"
  by (auto simp: push_record_def split: option.splits)

lemma on_store_starts: "on_store f w = Some (r, w') \<Longrightarrow> node_starts n w' = node_starts n w"
  by (auto simp: on_store_def split: option.splits)

lemma checked_save_starts: "checked_save env l ck a h w = Some (r, w') \<Longrightarrow> node_starts n w' = node_starts n w"
  by (auto simp: checked_save_def save_bound_def lift_result_def then_ok_Some dest: on_store_starts)

lemmas starts_simps = read_clock_starts elapsed_ms_starts push_record_starts on_store_starts checked_save_starts

section \<open>Calls\<close>

lemma call_once_starts: "call_once c attempt input w = (f, w') \<Longrightarrow> node_starts n w' = node_starts n w"
  by (auto simp: call_once_def Let_def split: prod.splits)

lemma before_retry_starts [simp]: "node_starts n (before_retry c attempt msg w) = node_starts n w"
  by (simp add: before_retry_def Let_def split: prod.splits)

lemma retry_loop_starts:
  assumes "retry_loop c attempt input w = Some (r, a, w')"
  shows "node_starts n w' = node_starts n w"
proof -
  have "case x of (r, a, w') \<Rightarrow> node_starts n w' = node_starts n w"
    if "retry_loop c attempt input w = Some x" for x
    using that
    by (rule retry_loop.raw_induct[rotated])
       (auto split: prod.splits future.splits sum.splits GraphError.splits if_splits dest: call_once_starts)
  from this[OF assms] show ?thesis by simp
qed

lemma dag_call_starts:
  "dag_call j name callee s w = Some (r, a, w') \<Longrightarrow> node_starts n w' = node_starts n w"
  by (auto simp: dag_call_def call_dynamic_def Let_def split: sum.splits prod.splits future.splits
      dest: retry_loop_starts)

lemma dag_task_starts:
  assumes "dag_task j name callee s w = (r, w')" and "name \<noteq> n"
  shows "node_starts n w' = node_starts n w"
  using assms
  by (auto simp: dag_task_def Let_def split: prod.splits option.splits sum.splits
      dest!: starts_simps[where n = n] dag_call_starts[where n = n])

lemma run_tasks_starts:
  "run_tasks j d s permits is w = (m, w') \<Longrightarrow> (\<And>i. i \<in> set is \<Longrightarrow> step_type_at d i \<noteq> n) \<Longrightarrow>
     node_starts n w' = node_starts n w"
proof (induction j d s permits "is" w arbitrary: m w' rule: run_tasks.induct)
  case (3 j d s permits i "is" w)
  then show ?case
    by (auto split: option.splits prod.splits dest!: dag_task_starts[where n = n])
qed simp_all

section \<open>Waves\<close>

lemma collect_one_starts:
  "collect_one j i r wv (w, d) = Some (res, (w', d')) \<Longrightarrow> node_starts n w' = node_starts n w"
  by (auto simp: collect_one_def collect_success_def collect_yield_def collect_failure_def Let_def
      split: sum.splits GraphError.splits option.splits prod.splits if_splits WaveFailurePolicy.splits
      dest!: starts_simps[where n = n])

lemma collect_wave_starts:
  "collect_wave j results is wv (w, d) = Some (res, (w', d')) \<Longrightarrow> node_starts n w' = node_starts n w"
proof (induction "is" arbitrary: wv w d)
  case (Cons i "is")
  then show ?case
    by (auto simp: then_ok_Some split: option.splits dest!: collect_one_starts[where n = n])
qed simp

lemma dag_save_starts:
  "dag_save j s p st r h (w, d) = Some (res, (w', d')) \<Longrightarrow> node_starts n w' = node_starts n w"
  by (auto simp: dag_save_def split: option.splits dest: checked_save_starts)

lemma wave_finish_starts:
  "wave_finish j q ready wv (w, d) = Some (res, (w', d')) \<Longrightarrow> node_starts n w' = node_starts n w"
  by (auto simp: wave_finish_def wave_suspend_def wave_commit_def Let_def then_ok_Some
      split: if_splits option.splits dest: dag_save_starts)

lemma wave_launch_starts:
  assumes "wave_launch j q ready (w, d) = Some (res, (w', d'))" and "permutes_tasks (dj_sched j)"
    and "\<And>i. i \<in> set ready \<Longrightarrow> step_type_at d i \<noteq> n"
  shows "node_starts n w' = node_starts n w"
proof (cases "missing_node (dj_graph j) (mark_running ready d) ready")
  case (Some name)
  with assms(1) show ?thesis by (simp add: wave_launch_def Let_def)
next
  case None
  let ?d = "mark_running ready d"
  obtain results w1 where rt: "run_tasks j ?d (ds_state q)
      (max (max_concurrent_nodes (g_resource_limits (dj_graph j))) 1)
      (sc_start (dj_sched j) (ds_wave_no q) ready) w = (results, w1)" by fastforce
  have w1: "node_starts n w1 = node_starts n w"
    by (rule run_tasks_starts[OF rt]) (use assms(3) permuted_sets(1)[OF assms(2)] in auto)
  from None rt assms(1) show ?thesis
    by (auto simp: wave_launch_def Let_def then_ok_Some w1
        dest!: collect_wave_starts[where n = n] wave_finish_starts[where n = n])
qed

lemma wave_step_starts:
  assumes "wave_step j q (w, d) = Some (res, (w', d'))" and "permutes_tasks (dj_sched j)"
    and "\<And>i. i \<in> pending_nodes d \<Longrightarrow> step_type_at d i \<noteq> n"
  shows "node_starts n w' = node_starts n w"
proof -
  have "step_type_at d i \<noteq> n" if "i \<in> set (ready_wave (ds_completed q) d)" for i
    using that assms(3) by (auto simp: ready_wave_iff pending_nodes_def)
  from assms(1) wave_launch_starts[OF _ assms(2) this] show ?thesis
    by (auto simp: wave_step_def no_ready_def wave_interrupt_def then_ok_Some Let_def
        split: if_splits dest: dag_save_starts)
qed

lemma wave_loop_starts:
  "permutes_tasks (dj_sched j) \<Longrightarrow> ordered (snd wd) \<Longrightarrow> ds_completed q \<subseteq> done_ids (snd wd) \<Longrightarrow>
     wave_loop j q wd = Some (res, wd') \<Longrightarrow>
     (\<And>i. i \<in> pending_nodes (snd wd) \<Longrightarrow> step_type_at (snd wd) i \<noteq> n) \<Longrightarrow>
     node_starts n (fst wd') = node_starts n (fst wd)"
proof (induction j q wd rule: wave_loop.induct)
  case (1 j q wd)
  obtain w d where wd: "wd = (w, d)" by fastforce
  from "1.prems"(4) obtain r1 w1 d1 where s: "wave_step j q (w, d) = Some (r1, (w1, d1))"
    by (subst (asm) wave_loop.simps) (auto simp: wd split: option.splits)
  from wave_step_order[OF "1.prems"(1) _ _ s] "1.prems"(2,3)
  have o: "advances (pending_nodes d) d d1" "ordered d1"
    "\<And>q'. r1 = Inr (Next_Wave q') \<Longrightarrow> ds_completed q' \<subseteq> done_ids d1" by (auto simp: wd)
  have w1: "node_starts n w1 = node_starts n w"
    by (rule wave_step_starts[OF s "1.prems"(1)]) (use "1.prems"(5) in \<open>simp add: wd\<close>)
  show ?case
  proof (cases "\<exists>q'. r1 = Inr (Next_Wave q')")
    case True
    then obtain q' where q': "r1 = Inr (Next_Wave q')" by blast
    have l: "wave_loop j q' (w1, d1) = Some (res, wd')"
      using "1.prems"(4) wave_loop_step(4)[OF s[unfolded q']] by (simp add: wd)
    have "step_type_at d1 i \<noteq> n" if "i \<in> pending_nodes d1" for i
      using that pending_nodes_advance[OF o(1)] advances_step_type[OF o(1)] "1.prems"(5) by (auto simp: wd)
    with "1.IH"[OF s[folded wd] refl q' refl "1.prems"(1) _ _ l] o(2) o(3)[OF q'] w1 show ?thesis
      by (simp add: wd)
  next
    case False
    then show ?thesis
      using "1.prems"(4) s w1 by (subst (asm) wave_loop.simps)
        (auto simp: wd split: sum.splits dag_flow.splits)
  qed
qed

text \<open>A run starts only nodes that were pending when it began.\<close>

lemma run_dag_starts:
  assumes "permutes_tasks (dj_sched j)" and "ordered d" and "run_dag j s depth (w, d) = Some (r, (w', d'))"
    and "\<And>i. i \<in> pending_nodes d \<Longrightarrow> step_type_at d i \<noteq> n"
  shows "node_starts n w' = node_starts n w"
proof -
  consider "node_starts n w' = node_starts n w"
    | w1 head where "node_starts n w1 = node_starts n w"
        "wave_loop j (dag_start s d head) (w1, d) = Some (r, (w', d'))"
    using assms(3) by (auto simp: run_dag_def Let_def split: if_splits option.splits sum.splits dest!: on_store_starts[where n = n])
  then show ?thesis
  proof cases
    case (2 w1 head)
    have "ds_completed (dag_start s d head) \<subseteq> done_ids d" by (simp add: dag_start_def done_ids_def)
    from wave_loop_starts[OF assms(1) _ _ 2(2), of n] assms(2,4) this 2(1) show ?thesis by simp
  qed
qed

end
