(* ===== verification/Dag_Suspend.thy ===== *)
theory Dag_Suspend
  imports Dag_Starts
begin

text \<open>
  What a yield in a wave leaves behind, and what \<open>resume_dag\<close> does with it.
\<close>

section \<open>A wave with yields\<close>

definition yields :: "'s node_result \<Rightarrow> bool" where
  "yields r \<longleftrightarrow> (case r of Inl (Yield _) \<Rightarrow> True | _ \<Rightarrow> False)"

text \<open>The results of a wave whose nodes succeed or yield; \<open>d0\<close> is the DAG they were launched from.\<close>

definition ends :: "(string \<Rightarrow> 's \<Rightarrow> 's node_result) \<Rightarrow> 's \<Rightarrow> DAG \<Rightarrow> nat \<Rightarrow> NodeStatus" where
  "ends R s d0 i = (if yields (R (step_type_at d0 i) s) then NodeStatus.Yielded else NodeStatus.Done)"

definition settled :: "(string \<Rightarrow> 's \<Rightarrow> 's node_result) \<Rightarrow> 's \<Rightarrow> DAG \<Rightarrow> nat list \<Rightarrow> DAG \<Rightarrow> DAG" where
  "settled R s d0 is d = fold (\<lambda>i. set_node_status i (ends R s d0 i)) is d"

lemma settled_simps [simp]:
  "settled R s d0 [] d = d"
  "settled R s d0 (i # is) d = settled R s d0 is (set_node_status i (ends R s d0 i) d)"
  by (simp_all add: settled_def)

lemma settled_frame [simp]:
  "length (dag_nodes (settled R s d0 is d)) = length (dag_nodes d)"
  "dag_id (settled R s d0 is d) = dag_id d" "dag_created_at (settled R s d0 is d) = dag_created_at d"
  by (induction "is" arbitrary: d) simp_all

lemma settled_nth:
  "k < length (dag_nodes d) \<Longrightarrow> dag_nodes (settled R s d0 is d) ! k =
     (if k \<in> set is then (dag_nodes d ! k)\<lparr>dn_status := ends R s d0 k\<rparr> else dag_nodes d ! k)"
  by (induction "is" arbitrary: d) (auto simp: set_node_status_nth)

lemma collect_wave_mixed:
  assumes "0 < max_execution_records (g_resource_limits (dj_graph j))"
    and "\<And>i. i \<in> set is \<Longrightarrow> i \<in> A \<and> effective_node_budget (dj_graph j) (step_type_at d0 i) = None \<and>
       ((\<exists>out. R (step_type_at d0 i) s = Inr out) \<or> (\<exists>y. R (step_type_at d0 i) s = Inl (Yield y)))"
    and "wv_failed wv = []" and "\<And>i. step_type_at d i = step_type_at d0 i"
  shows "\<exists>wv' w'. collect_wave j (wave_results R d0 s A) is wv (w, d) =
       Some (Inr wv', (w', settled R s d0 is d)) \<and> quiet w w' \<and> wv_failed wv' = [] \<and>
     (wv_yielded wv' \<longleftrightarrow> wv_yielded wv \<or> (\<exists>i \<in> set is. yields (R (step_type_at d0 i) s))) \<and>
     (if \<exists>i \<in> set is. yields (R (step_type_at d0 i) s)
      then \<exists>i \<in> set is. \<exists>y. R (step_type_at d0 i) s = Inl (Yield y) \<and> wv_request wv' = Some y
      else wv_request wv' = wv_request wv)"
  using assms(2-4)
proof (induction "is" arbitrary: wv w d)
  case Nil
  then show ?case by auto
next
  case (Cons i "is")
  let ?n = "step_type_at d0 i" and ?d = "set_node_status i (ends R s d0 i) d"
  have i: "wave_results R d0 s A i = Some (Inr (R ?n s))"
    using Cons.prems(1)[of i] by (simp add: wave_results_def)
  have "\<exists>wv1 w1. collect_one j i (Inr (R ?n s)) wv (w, d) = Some (Inr wv1, (w1, ?d)) \<and>
      quiet w w1 \<and> wv_failed wv1 = [] \<and>
      (wv_yielded wv1 \<longleftrightarrow> wv_yielded wv \<or> yields (R ?n s)) \<and>
      (if yields (R ?n s) then \<exists>y. R ?n s = Inl (Yield y) \<and> wv_request wv1 = Some y
       else wv_request wv1 = wv_request wv)"
  proof (cases "R ?n s")
    case (Inr out)
    have "effective_node_budget (dj_graph j) (step_type_at d i) = None"
      using Cons.prems(1)[of i] Cons.prems(3) by simp
    from collect_success_plain[OF this assms(1), of out wv w] Inr Cons.prems(2) show ?thesis
      by (auto simp: collect_one_def ends_def yields_def)
  next
    case (Inl e)
    with Cons.prems(1)[of i] obtain y where "R ?n s = Inl (Yield y)" by auto
    with Cons.prems(2) show ?thesis
      by (auto simp: collect_one_def collect_yield_def ends_def yields_def)
  qed
  then obtain wv1 w1 where c: "collect_one j i (Inr (R ?n s)) wv (w, d) = Some (Inr wv1, (w1, ?d))"
    and st: "quiet w w1" and wv1: "wv_failed wv1 = []"
      "wv_yielded wv1 \<longleftrightarrow> wv_yielded wv \<or> yields (R ?n s)"
      "if yields (R ?n s) then \<exists>y. R ?n s = Inl (Yield y) \<and> wv_request wv1 = Some y
       else wv_request wv1 = wv_request wv" by blast
  obtain wv' w' where r: "collect_wave j (wave_results R d0 s A) is wv1 (w1, ?d) =
       Some (Inr wv', (w', settled R s d0 is ?d))" and st': "quiet w1 w'" "wv_failed wv' = []"
     "wv_yielded wv' \<longleftrightarrow> wv_yielded wv1 \<or> (\<exists>i \<in> set is. yields (R (step_type_at d0 i) s))"
     "if \<exists>i \<in> set is. yields (R (step_type_at d0 i) s)
      then \<exists>i \<in> set is. \<exists>y. R (step_type_at d0 i) s = Inl (Yield y) \<and> wv_request wv' = Some y
      else wv_request wv' = wv_request wv1"
    using Cons.IH[of wv1 ?d w1] wv1(1) Cons.prems(1,3) by auto
  have "collect_wave j (wave_results R d0 s A) (i # is) wv (w, d) =
      Some (Inr wv', (w', settled R s d0 (i # is) d))"
    by (simp add: i c r)
  moreover have "if \<exists>k \<in> set (i # is). yields (R (step_type_at d0 k) s)
      then \<exists>k \<in> set (i # is). \<exists>y. R (step_type_at d0 k) s = Inl (Yield y) \<and> wv_request wv' = Some y
      else wv_request wv' = wv_request wv"
    using st'(4) wv1(3) by (auto split: if_splits)
  ultimately show ?case using quiet_trans[OF st st'(1)] st'(2,3) wv1(2) by (intro exI[of _ wv'] exI[of _ w']) simp
qed

lemma settled_order:
  "set is = set ready \<Longrightarrow> settled R s d0 is (mark_running ready d) = settled R s d0 ready d"
  by (rule dag_eqI) (auto simp: mark_running_eq settled_nth set_statuses_nth)

lemma yield_launch:
  assumes "dj_token j = None" and "permutes_tasks (dj_sched j)" and "ds_state q = s"
    and "0 < max_execution_records (g_resource_limits (dj_graph j))"
    and "\<And>i. i \<in> set ready \<Longrightarrow> answers (dj_graph j) (step_type_at d i) None s (R (step_type_at d i) s) \<and>
       effective_node_budget (dj_graph j) (step_type_at d i) = None \<and>
       ((\<exists>out. R (step_type_at d i) s = Inr out) \<or> (\<exists>y. R (step_type_at d i) s = Inl (Yield y)))"
    and "\<exists>i \<in> set ready. yields (R (step_type_at d i) s)" and "distinct ready"
  shows "\<exists>wv w' y. wave_launch j q ready (w, d) = wave_suspend j q wv (w', settled R s d ready d) \<and>
     quiet w w' \<and> wv_request wv = Some y \<and>
     (\<exists>i \<in> set ready. R (step_type_at d i) s = Inl (Yield y))"
proof -
  let ?d = "mark_running ready d" and ?arrive = "sc_arrive (dj_sched j) (ds_wave_no q) ready"
  note set = permuted_sets(2)[OF assms(2)]
  obtain w1 where st1: "quiet w w1" and launch: "wave_launch j q ready (w, d) =
      then_ok (collect_wave j (wave_results R d s (set ready)) ?arrive (wave_start (ds_completed q)) (w1, ?d))
        (wave_finish j q ready)"
    using answered_launch[OF assms(1,2), of ready d q R w] assms(3,5) by fastforce
  have "\<exists>i \<in> set ?arrive. yields (R (step_type_at d i) s)" using assms(6) by (simp add: set)
  then obtain wv w2 i y where c: "collect_wave j (wave_results R d s (set ready)) ?arrive
       (wave_start (ds_completed q)) (w1, ?d) = Some (Inr wv, (w2, settled R s d ?arrive ?d))"
    and st2: "quiet w1 w2" and wv: "wv_failed wv = []" "wv_yielded wv"
      "i \<in> set ready" "R (step_type_at d i) s = Inl (Yield y)" "wv_request wv = Some y"
    using collect_wave_mixed[where R = R and ?d0.0 = d and s = s and d = ?d and A = "set ready" and
        wv = "wave_start (ds_completed q)" and w = w1, OF assms(4), of ?arrive] assms(5)
    by (auto simp: set wave_start_def)
  have "wave_launch j q ready (w, d) = wave_suspend j q wv (w2, settled R s d ready d)"
    using c wv(1,2) assms(3) by (simp add: launch settled_order[OF set] wave_finish_def)
  then show ?thesis using wv quiet_trans[OF st1 st2] by (intro exI[of _ wv] exI[of _ w2] exI[of _ y]) auto
qed

section \<open>Restoring a saved DAG\<close>

text \<open>On the DAG that was saved, as it was built, \<open>restore_statuses\<close> gives every node its saved status.\<close>

lemma restore_nodes:
  assumes "skeleton d = skeleton saved" and "distinct (map dn_id (dag_nodes saved))"
  shows "dag_nodes (restore_statuses d saved) = dag_nodes saved"
proof (rule nth_equalityI)
  note len = skeleton_length[OF assms(1)]
  then show "length (dag_nodes (restore_statuses d saved)) = length (dag_nodes saved)"
    by (simp add: restore_statuses_def)
  fix k assume "k < length (dag_nodes (restore_statuses d saved))"
  then have k: "k < length (dag_nodes saved)" using len by (simp add: restore_statuses_def)
  let ?n = "dag_nodes d ! k" and ?n' = "dag_nodes saved ! k"
  have "skeleton d ! k = skeleton saved ! k" using assms(1) by simp
  then have sk: "dn_id ?n = dn_id ?n'" "dn_step_type ?n = dn_step_type ?n'"
    "dn_depends_on ?n = dn_depends_on ?n'"
    using k len by (simp_all add: skeleton_def)
  have "dag_nodes (restore_statuses d saved) ! k = ?n\<lparr>dn_status := dn_status ?n'\<rparr>"
    using status_map_distinct[OF assms(2) nth_mem[OF k]] k len
    by (simp add: restore_statuses_def restore_node_def sk(1))
  also have "\<dots> = ?n'" using sk by (cases ?n; cases ?n') simp
  finally show "dag_nodes (restore_statuses d saved) ! k = ?n'" .
qed

lemma skeleton_ids: "skeleton d = skeleton d' \<Longrightarrow> map dn_id (dag_nodes d) = map dn_id (dag_nodes d')"
  by (drule arg_cong[of _ _ "map fst"]) (simp add: skeleton_def o_def)

text \<open>A node that is not Done keeps its identifier out of those that are.\<close>

lemma undone_id:
  assumes "distinct (map dn_id (dag_nodes d))" and "k < length (dag_nodes d)"
    and "dn_status (dag_nodes d ! k) \<noteq> NodeStatus.Done"
  shows "dn_id (dag_nodes d ! k) \<notin> done_ids d"
proof
  assume "dn_id (dag_nodes d ! k) \<in> done_ids d"
  then obtain i where i: "i < length (dag_nodes d)" "dn_status (dag_nodes d ! i) = NodeStatus.Done"
    "dn_id (dag_nodes d ! i) = dn_id (dag_nodes d ! k)" by (auto simp: done_ids_nth)
  with assms(1,2) have "i = k" by (auto simp: distinct_conv_nth)
  with i(2) assms(3) show False by simp
qed

text \<open>The node \<open>i\<close> is pending and waits for the node \<open>k\<close>.\<close>

definition waits_for :: "DAG \<Rightarrow> nat \<Rightarrow> nat \<Rightarrow> bool" where
  "waits_for d k i \<longleftrightarrow> dn_status (dag_nodes d ! i) = NodeStatus.Pending \<and>
     dn_id (dag_nodes d ! k) \<in> set (dn_depends_on (dag_nodes d ! i))"

text \<open>Whatever a run does, a node that yielded stays as it is, and so does each node that waits for it.\<close>

lemma yielded_stays:
  assumes "permutes_tasks (dj_sched j)" and "ordered d" and "distinct (map dn_id (dag_nodes d))"
    and "k < length (dag_nodes d)" and "dn_status (dag_nodes d ! k) = NodeStatus.Yielded"
    and "run_dag j s depth (w, d) = Some (r, (w', d'))"
  shows "dag_nodes d' ! k = dag_nodes d ! k"
    and "i < length (dag_nodes d) \<Longrightarrow> waits_for d k i \<Longrightarrow> dag_nodes d' ! i = dag_nodes d ! i"
    and "n \<notin> set (types_with (\<lambda>st. st = NodeStatus.Pending) d) \<Longrightarrow> node_starts n w' = node_starts n w"
proof -
  from run_dag_order[OF assms(1,2,6)] have sk: "skeleton d' = skeleton d" and o: "ordered d'"
    and "k \<notin> pending_nodes d \<Longrightarrow> dag_nodes d' ! k = dag_nodes d ! k"
    using assms(4) by (auto simp: advances_def)
  with assms(5) show same: "dag_nodes d' ! k = dag_nodes d ! k" by (simp add: pending_nodes_def)
  have out: "dn_id (dag_nodes d ! k) \<notin> done_ids d'"
    using undone_id[of d' k] assms(3-5) same skeleton_ids[OF sk] skeleton_length[OF sk] by simp
  show "dag_nodes d' ! i = dag_nodes d ! i" if i: "i < length (dag_nodes d)" "waits_for d k i"
  proof -
    let ?n = "dag_nodes d ! i" and ?n' = "dag_nodes d' ! i"
    have "skeleton d' ! i = skeleton d ! i" using sk by simp
    then have eq: "dn_id ?n' = dn_id ?n" "dn_step_type ?n' = dn_step_type ?n" "dn_depends_on ?n' = dn_depends_on ?n"
      using i(1) skeleton_length[OF sk] by (simp_all add: skeleton_def)
    have "dn_status ?n' = NodeStatus.Pending"
    proof (rule ccontr)
      assume "dn_status ?n' \<noteq> NodeStatus.Pending"
      then have "set (dn_depends_on ?n') \<subseteq> done_ids d'"
        using o[unfolded ordered_nth, rule_format, of i] i(1) skeleton_length[OF sk] by simp
      with out i(2) show False unfolding eq(3) waits_for_def by blast
    qed
    with eq i(2) show ?thesis by (cases ?n; cases ?n') (simp add: waits_for_def)
  qed
  show "node_starts n w' = node_starts n w" if "n \<notin> set (types_with (\<lambda>st. st = NodeStatus.Pending) d)"
    by (rule run_dag_starts[OF assms(1,2,6)])
      (use that in \<open>auto simp: types_with_def pending_nodes_def step_type_at_def\<close>)
qed

lemma all_waiting:
  assumes "distinct (map dn_id (dag_nodes d))" and "k < length (dag_nodes d)"
    and "dn_status (dag_nodes d ! k) = NodeStatus.Yielded"
    and "\<And>i. i < length (dag_nodes d) \<Longrightarrow> dn_status (dag_nodes d ! i) = NodeStatus.Pending \<Longrightarrow> waits_for d k i"
  shows "ready_wave (done_ids d) d = []"
proof -
  have "i \<notin> set (ready_wave (done_ids d) d)" for i
    using undone_id[OF assms(1,2)] assms(3) assms(4)[of i] unfolding ready_wave_iff waits_for_def by auto
  then show ?thesis by (cases "ready_wave (done_ids d) d") auto
qed

section \<open>The properties\<close>

text \<open>C28: when a node of the first wave of a DAG run yields, the run returns Ok with the state it was
  given and saves that state: the outputs of the nodes of the wave that succeeded are dropped, although
  the saved DAG has these nodes as Done, so that no resumption computes them again.\<close>

theorem dag_yield_drops_siblings:
  assumes "ready = ready_wave (done_ids d) d" and "\<exists>i \<in> set ready. yields (R (step_type_at d i) s)"
    and "\<And>i. i \<in> set ready \<Longrightarrow> answers g (step_type_at d i) None s (R (step_type_at d i) s) \<and>
       effective_node_budget g (step_type_at d i) = None \<and>
       ((\<exists>out. R (step_type_at d i) s = Inr out) \<or> (\<exists>y. R (step_type_at d i) s = Inl (Yield y)))"
    and "permutes_tasks sched" and "depth \<le> 8"
    and "length (dag_nodes d) \<le> max_dag_nodes (g_resource_limits g)"
    and "0 < max_execution_records (g_resource_limits g)"
    and "estimated_size env s \<le> max_checkpoint_bytes (g_resource_limits g)"
    and "e_to_value env s = Inr v" and "\<not> ms_poisoned (w_store w)"
  shows "\<exists>w' c d' request. run_dag (wave_job env g t None merge sched) s depth (w, d) = Some (Inr s, (w', d')) \<and>
     mem_list (w_store w') t = mem_list (w_store w) t @ [c] \<and> mc_state c = v \<and> mc_dag c = Some d' \<and>
     mc_status c = CheckpointStatus.Yielded \<and> mc_yield_request c = Some request \<and>
     (\<exists>i \<in> set ready. R (step_type_at d i) s = Inl (Yield request)) \<and>
     dag_nodes d' = map (\<lambda>k. if k \<in> set ready then (dag_nodes d ! k)\<lparr>dn_status :=
         if yields (R (step_type_at d k) s) then NodeStatus.Yielded else NodeStatus.Done\<rparr>
       else dag_nodes d ! k) [0..<length (dag_nodes d)]"
proof -
  let ?j = "wave_job env g t None merge sched" and ?d = "settled R s d ready d"
  let ?q = "(dag_start s d None)\<lparr>ds_first_wave := False\<rparr>"
  have q: "ds_completed (dag_start s d None) = done_ids d" "ds_first_wave (dag_start s d None)"
    by (simp_all add: dag_start_def done_ids_def)
  have ne: "ready \<noteq> []" using assms(2) by auto
  have "\<exists>wv w1 y. wave_launch ?j ?q ready (w, d) = wave_suspend ?j ?q wv (w1, ?d) \<and>
     quiet w w1 \<and> wv_request wv = Some y \<and>
     (\<exists>i \<in> set ready. R (step_type_at d i) s = Inl (Yield y))"
    by (rule yield_launch) (use assms in \<open>simp_all add: dag_start_def\<close>)
  then obtain wv w1 y where l: "wave_launch ?j ?q ready (w, d) = wave_suspend ?j ?q wv (w1, ?d)"
    and q1: "quiet w w1" and y: "wv_request wv = Some y"
      "\<exists>i \<in> set ready. R (step_type_at d i) s = Inl (Yield y)" by blast
  have u: "mem_usable (store_at w1)" using assms(10) quiet_store[OF q1] by (simp add: mem_usable_def)
  let ?n = "join '','' (types_with (\<lambda>st. st = NodeStatus.Yielded \<or> st = NodeStatus.Pending) ?d)"
  have "\<exists>c w' tm. dag_save ?j s ?n CheckpointStatus.Yielded (Some y) None (w1, ?d) = Some (Inr c, (w', ?d)) \<and>
     mem_run.appended (dj_thread_id ?j) [entry_of \<lparr>sa_thread_id = dj_thread_id ?j, sa_state = s, sa_next_node = ?n,
       sa_dag = Some ?d, sa_status = CheckpointStatus.Yielded, sa_yield_request = Some y,
       sa_claimed_interrupt = None, sa_resolved_interrupt = None\<rparr> v c tm] (store_at w1) (store_at w')"
    by (rule mem_run.dag_save_ok[OF _ u]) (use assms(8,9) in simp_all)
  then obtain c w' tm where sv: "dag_save ?j s ?n CheckpointStatus.Yielded (Some y) None (w1, ?d) =
       Some (Inr c, (w', ?d))"
    and a: "mem_run.appended t [entry_of \<lparr>sa_thread_id = t, sa_state = s, sa_next_node = ?n,
       sa_dag = Some ?d, sa_status = CheckpointStatus.Yielded, sa_yield_request = Some y,
       sa_claimed_interrupt = None, sa_resolved_interrupt = None\<rparr> v c tm] (store_at w) (store_at w')"
    by (auto simp: mem_run.appended_quiet(2)[OF q1])
  from mem_appended(2)[OF a] obtain m where m: "mem_list (w_store w') t = mem_list (w_store w) t @ [m]"
    and e: "mc_state m = v" "mc_dag m = Some ?d" "mc_status m = CheckpointStatus.Yielded"
      "mc_yield_request m = Some y"
    by (auto simp: entry_of_def mem_entry_def map_eq_Cons_conv)
  have "wave_step ?j (dag_start s d None) (w, d) = Some (Inr (Suspend s), (w', ?d))"
    using ne q l sv y(1) assms(1)
    by (simp add: wave_step_def Let_def wave_suspend_def) (simp add: dag_start_def)
  then have "run_dag ?j s depth (w, d) = Some (Inr s, (w', ?d))"
    unfolding run_dag_enters[OF assms(5,6)] by (rule wave_loop_step(2))
  moreover have "dag_nodes ?d = map (\<lambda>k. if k \<in> set ready then (dag_nodes d ! k)\<lparr>dn_status :=
         if yields (R (step_type_at d k) s) then NodeStatus.Yielded else NodeStatus.Done\<rparr>
       else dag_nodes d ! k) [0..<length (dag_nodes d)]"
    by (rule nth_equalityI) (simp_all add: settled_nth ends_def)
  ultimately show ?thesis using m e y(2) by blast
qed

text \<open>C29: \<open>resume_dag\<close> never runs a node that was saved as Yielded, nor a node that depends on it. It is
  given the DAG of the checkpoint (the same nodes; in the saved one, as a run leaves it, a node that is
  not pending has its dependencies Done). Whatever the resumption returns, the node is Yielded after it,
  no task of its name has been started unless a pending node has its step type, and each pending node that
  depends on it is still pending. When all pending nodes depend on it, the resumption returns Ok with the
  saved state if there is none and fails with a deadlock otherwise, and no node has been called and nothing
  has been saved.\<close>

theorem resume_dag_skips_yielded:
  assumes "last_opt (mem_list (w_store w) t) = Some c" and "\<not> ms_poisoned (w_store w)"
    and "e_from_value env (mc_state c) = Inr s" and "mc_dag c = Some saved"
    and "mc_status c \<noteq> CheckpointStatus.Running" and "permutes_tasks sched"
    and "skeleton d = skeleton saved" and "distinct (map dn_id (dag_nodes saved))"
    and "\<And>n. n \<in> set (dag_nodes saved) \<Longrightarrow> dn_status n \<noteq> NodeStatus.Pending \<Longrightarrow>
       set (dn_depends_on n) \<subseteq> done_ids saved"
    and "k < length (dag_nodes saved)" and "dn_status (dag_nodes saved ! k) = NodeStatus.Yielded"
    and "pending = types_with (\<lambda>st. st = NodeStatus.Pending) saved"
  shows "(\<forall>r w' d'. resume_dag (wave_job env g t token merge sched) depth (w, d) = Some (r, (w', d')) \<longrightarrow>
       dn_status (dag_nodes d' ! k) = NodeStatus.Yielded \<and>
       (step_type_at d k \<notin> set pending \<longrightarrow> node_starts (step_type_at d k) w' = node_starts (step_type_at d k) w) \<and>
       (\<forall>i < length (dag_nodes saved). waits_for saved k i \<longrightarrow> dn_status (dag_nodes d' ! i) = NodeStatus.Pending)) \<and>
     (depth \<le> 8 \<and> length (dag_nodes d) \<le> max_dag_nodes (g_resource_limits g) \<and>
       (\<forall>i < length (dag_nodes saved). dn_status (dag_nodes saved ! i) = NodeStatus.Pending \<longrightarrow> waits_for saved k i) \<longrightarrow>
      (\<exists>w' d'. resume_dag (wave_job env g t token merge sched) depth (w, d) =
         Some (if pending = [] then Inr (Some s) else Inl (DAGDeadlock (join '', '' pending)), (w', d')) \<and>
       dag_nodes d' = dag_nodes saved \<and> w_ext w' = w_ext w \<and> w_store w' = w_store w))"
proof -
  let ?j = "wave_job env g t token merge sched" and ?d = "restore_statuses d saved"
  have nodes: "dag_nodes ?d = dag_nodes saved" by (rule restore_nodes[OF assms(7,8)])
  note at = done_ids_def ready_wave_def types_with_def waits_for_def nodes
  have "ordered ?d" using assms(9) by (auto simp: ordered_def at)
  note stays = yielded_stays[where j = ?j and d = ?d and k = k, simplified nodes, simplified,
      OF assms(6) this assms(8,10,11)]
  have resume: "resume_dag ?j depth (w, d) =
      then_ok (run_dag ?j s depth (w, ?d)) (\<lambda>final wd. Some (Inr (Some final), wd))"
    using assms(4,5) mem_load_last[OF assms(2,1,3)] by (simp add: resume_dag_def recover_dag_def Let_def)
  show ?thesis
  proof (intro conjI allI impI)
    fix r w' d' assume "resume_dag ?j depth (w, d) = Some (r, (w', d'))"
    then obtain r' where "run_dag ?j s depth (w, ?d) = Some (r', (w', d'))"
      by (auto simp: resume then_ok_Some)
    note st = stays[OF this]
    show "dn_status (dag_nodes d' ! k) = NodeStatus.Yielded" using st(1) assms(11) by simp
    show "node_starts (step_type_at d k) w' = node_starts (step_type_at d k) w" if "step_type_at d k \<notin> set pending"
      by (rule st(3)) (use that assms(12) in \<open>simp add: at\<close>)
    show "dn_status (dag_nodes d' ! i) = NodeStatus.Pending" if "i < length (dag_nodes saved)" "waits_for saved k i" for i
      using st(2)[of i] that by (simp add: at)
  next
    assume lim: "depth \<le> 8 \<and> length (dag_nodes d) \<le> max_dag_nodes (g_resource_limits g) \<and>
       (\<forall>i < length (dag_nodes saved). dn_status (dag_nodes saved ! i) = NodeStatus.Pending \<longrightarrow> waits_for saved k i)"
    let ?q = "dag_start s ?d None"
    have "ready_wave (ds_completed ?q) ?d = []"
      using all_waiting[OF assms(8,10,11)] lim by (simp add: dag_start_def at)
    from no_ready_loop[OF this, of ?j w] obtain w' where
      "wave_loop ?j ?q (w, ?d) = Some (ref_outcome s ?d, (w', ?d))"
      "w_store w' = w_store w" "w_ext w' = w_ext w" by (auto simp: dag_start_def dest: quiet_store)
    moreover have "depth \<le> 8" "length (dag_nodes ?d) \<le> max_dag_nodes (g_resource_limits g)"
      using lim nodes skeleton_length[OF assms(7)] by simp_all
    note run_dag_enters[OF this]
    ultimately show "\<exists>w' d'. resume_dag ?j depth (w, d) =
         Some (if pending = [] then Inr (Some s) else Inl (DAGDeadlock (join '', '' pending)), (w', d')) \<and>
       dag_nodes d' = dag_nodes saved \<and> w_ext w' = w_ext w \<and> w_store w' = w_store w"
      by (simp add: resume ref_outcome_def nodes assms(12) types_with_def)
  qed
qed

section \<open>Samples\<close>

definition gate_dag :: "NodeStatus \<Rightarrow> NodeStatus \<Rightarrow> DAG" where
  "gate_dag st st' = \<lparr>dag_id = 0, dag_nodes =
     [\<lparr>dn_id = 1, dn_step_type = ''gate'', dn_depends_on = [], dn_status = st\<rparr>,
      \<lparr>dn_id = 2, dn_step_type = ''a'', dn_depends_on = [], dn_status = st'\<rparr>], dag_created_at = 0\<rparr>"

definition gate_result :: "string \<Rightarrow> nat \<Rightarrow> nat node_result" where
  "gate_result n s = (if n = ''gate'' then Inl (Yield (sample_request ReEntry None))
     else Inr (sample_output n s))"

lemma gate_dag_ready: "ready_wave (done_ids (gate_dag NodeStatus.Pending NodeStatus.Pending)) (gate_dag NodeStatus.Pending NodeStatus.Pending) = [0, 1]"
  by code_simp

lemma gate_dag_limits:
  "length (dag_nodes (gate_dag st st')) \<le> max_dag_nodes (g_resource_limits gate_graph)"
  "0 < max_execution_records (g_resource_limits gate_graph)"
  by (simp_all add: gate_dag_def sample_graph_def set_resource_limits_def with_max_sequential_steps_def
      resource_limits_default_def)

lemma gate_dag_answers:
  "i \<in> set [0, 1] \<Longrightarrow>
     answers gate_graph (step_type_at (gate_dag st st') i) None s (gate_result (step_type_at (gate_dag st st') i) s) \<and>
     effective_node_budget gate_graph (step_type_at (gate_dag st st') i) = None \<and>
     ((\<exists>out. gate_result (step_type_at (gate_dag st st') i) s = Inr out) \<or>
      (\<exists>y. gate_result (step_type_at (gate_dag st st') i) s = Inl (Yield y)))"
proof -
  assume "i \<in> set [0, 1]"
  then have "step_type_at (gate_dag st st') i \<in> {''gate'', ''a''}"
    by (auto simp: step_type_at_def gate_dag_def)
  then show ?thesis
    by (auto simp: gate_result_def effective_node_budget_def answers_def sample_graph_simps gate_node_def)
qed

theorem dag_yield_drops_siblings_witness:
  "\<exists>w' c d'. run_dag (wave_job sample_env gate_graph ''t'' None sample_merge reversing) 0 0
       (sample_world 0 mem_new, gate_dag NodeStatus.Pending NodeStatus.Pending) = Some (Inr 0, (w', d')) \<and>
     mem_list (w_store w') ''t'' = [c] \<and> mc_state c = JNumber (JInt 0) \<and> mc_dag c = Some d' \<and>
     map dn_status (dag_nodes d') = [NodeStatus.Yielded, NodeStatus.Done]"
proof -
  let ?d = "gate_dag NodeStatus.Pending NodeStatus.Pending" and ?w = "sample_world (0 :: nat) mem_new"
  have y: "\<exists>i \<in> set [0, 1]. yields (gate_result (step_type_at ?d i) 0)"
    by (simp add: step_type_at_def gate_dag_def gate_result_def yields_def)
  have p: "\<not> ms_poisoned (w_store ?w)" "(0 :: 8 word) \<le> 8" "mem_list (w_store ?w) ''t'' = []"
    by (simp_all add: sample_world_def mem_new_def mem_list_def)
  have e: "e_to_value sample_env 0 = Inr (JNumber (JInt 0))" by (simp add: sample_env_def)
  have sz: "estimated_size sample_env 0 \<le> max_checkpoint_bytes (g_resource_limits gate_graph)"
    using sample_sizes[of 0] by (simp add: sample_graph_simps)
  from dag_yield_drops_siblings[where t = "''t''" and merge = sample_merge and R = gate_result,
      OF gate_dag_ready[symmetric] y gate_dag_answers reversing_permutes p(2) gate_dag_limits sz e p(1)]
  obtain w' c d' where r: "run_dag (wave_job sample_env gate_graph ''t'' None sample_merge reversing) 0 0
       (?w, ?d) = Some (Inr 0, (w', d'))"
    and m: "mem_list (w_store w') ''t'' = [c]" "mc_state c = JNumber (JInt 0)" "mc_dag c = Some d'"
    and n: "dag_nodes d' = map (\<lambda>k. if k \<in> set [0, 1] then (dag_nodes ?d ! k)\<lparr>dn_status :=
         if yields (gate_result (step_type_at ?d k) 0) then NodeStatus.Yielded else NodeStatus.Done\<rparr>
       else dag_nodes ?d ! k) [0..<length (dag_nodes ?d)]"
    unfolding p(3) by auto
  have "map dn_status (dag_nodes d') = [NodeStatus.Yielded, NodeStatus.Done]"
    unfolding n by (simp add: gate_dag_def step_type_at_def gate_result_def yields_def)
  with r m show ?thesis by (intro exI[of _ w'] exI[of _ c] exI[of _ d']) simp
qed

text \<open>The node \<open>gate\<close> yielded; \<open>b\<close> waits for it.\<close>

definition gated_dag :: "NodeStatus \<Rightarrow> NodeStatus \<Rightarrow> DAG" where
  "gated_dag st st' = \<lparr>dag_id = 0, dag_nodes =
     [\<lparr>dn_id = 1, dn_step_type = ''gate'', dn_depends_on = [], dn_status = st\<rparr>,
      \<lparr>dn_id = 2, dn_step_type = ''a'', dn_depends_on = [], dn_status = st'\<rparr>,
      \<lparr>dn_id = 3, dn_step_type = ''b'', dn_depends_on = [1], dn_status = NodeStatus.Pending\<rparr>], dag_created_at = 0\<rparr>"

definition yielded_store :: mem_store where
  "yielded_store = \<lparr>ms_poisoned = False, ms_map = [''t'' \<mapsto> [(waiting_checkpoint ReEntry None)
     \<lparr>mc_dag := Some (gated_dag NodeStatus.Yielded NodeStatus.Done)\<rparr>]]\<rparr>"

theorem resume_dag_skips_yielded_witness:
  "\<exists>w' d'. resume_dag (wave_job sample_env gate_graph ''t'' None sample_merge reversing) 0
       (sample_world 7 yielded_store, gated_dag NodeStatus.Pending NodeStatus.Pending) =
     Some (Inl (DAGDeadlock ''b''), (w', d')) \<and> w_ext w' = 7 \<and> w_store w' = yielded_store \<and>
     map dn_status (dag_nodes d') = [NodeStatus.Yielded, NodeStatus.Done, NodeStatus.Pending] \<and>
     node_starts ''gate'' w' = []"
proof -
  let ?s = "gated_dag NodeStatus.Yielded NodeStatus.Done" and ?d = "gated_dag NodeStatus.Pending NodeStatus.Pending"
  let ?c = "(waiting_checkpoint ReEntry None)\<lparr>mc_dag := Some ?s\<rparr>"
  let ?w = "sample_world (7 :: nat) yielded_store"
  have c: "last_opt (mem_list (w_store ?w) ''t'') = Some ?c" "\<not> ms_poisoned (w_store ?w)"
    "e_from_value sample_env (mc_state ?c) = Inr 0" "mc_dag ?c = Some ?s"
    "mc_status ?c \<noteq> CheckpointStatus.Running"
    by (simp_all add: sample_world_def yielded_store_def mem_list_def last_opt_def waiting_checkpoint_def
        sample_checkpoint_def)
  have d: "skeleton ?d = skeleton ?s" "distinct (map dn_id (dag_nodes ?s))"
    "\<And>n. n \<in> set (dag_nodes ?s) \<Longrightarrow> dn_status n \<noteq> NodeStatus.Pending \<Longrightarrow> set (dn_depends_on n) \<subseteq> done_ids ?s"
    "0 < length (dag_nodes ?s)" "dn_status (dag_nodes ?s ! 0) = NodeStatus.Yielded"
    by (auto simp: gated_dag_def skeleton_def)
  have p: "[''b''] = types_with (\<lambda>st. st = NodeStatus.Pending) ?s" "step_type_at ?d 0 = ''gate''"
    by (simp_all add: types_with_def gated_dag_def step_type_at_def)
  have lim: "length (dag_nodes ?d) \<le> max_dag_nodes (g_resource_limits gate_graph)" "(0 :: 8 word) \<le> 8"
    "\<forall>i < length (dag_nodes ?s). dn_status (dag_nodes ?s ! i) = NodeStatus.Pending \<longrightarrow> waits_for ?s 0 i"
    by (auto simp: gated_dag_def waits_for_def nth_Cons' sample_graph_def set_resource_limits_def
        with_max_sequential_steps_def resource_limits_default_def)
  note all = resume_dag_skips_yielded[where token = None and merge = sample_merge and g = gate_graph,
      OF c reversing_permutes d p(1)]
  from all[where depth = 0] lim obtain w' d' where
    "resume_dag (wave_job sample_env gate_graph ''t'' None sample_merge reversing) 0 (?w, ?d) =
       Some (Inl (DAGDeadlock ''b''), (w', d'))"
    "dag_nodes d' = dag_nodes ?s" "w_ext w' = w_ext ?w" "w_store w' = w_store ?w"
    by auto
  moreover from all[where depth = 0] this(1) have "node_starts ''gate'' w' = node_starts ''gate'' ?w"
    using p(2) by auto
  ultimately show ?thesis
    by (intro exI[of _ w'] exI[of _ d']) (simp add: sample_world_def gated_dag_def node_starts_def)
qed

end
