(* ===== verification/Dag_Recovery.thy ===== *)
theory Dag_Recovery
  imports Dag_Suspend
begin

text \<open>
  What \<open>resume_dag\<close> makes of a DAG run that was cut after a wave, and what a wave with failures
  leaves behind.
\<close>

section \<open>The waves that are left\<close>

lemma pending_le_length: "pending_count d \<le> length (dag_nodes d)"
  by (simp add: pending_count_def)

text \<open>More passes than there are pending nodes change nothing.\<close>

lemma ref_waves_fuel:
  "pending_count d \<le> fuel \<Longrightarrow> pending_count d \<le> fuel' \<Longrightarrow>
     ref_waves merge out fuel d s = ref_waves merge out fuel' d s"
proof (induction fuel arbitrary: fuel' d s)
  case 0
  then have "ready_wave (done_ids d) d = []"
    using pending_finish_less[of "done_ids d" d] by (cases "ready_wave (done_ids d) d = []") simp_all
  then show ?case by (cases fuel') (simp_all add: Let_def)
next
  case (Suc fuel)
  show ?case
  proof (cases "ready_wave (done_ids d) d = []")
    case True
    then show ?thesis by (cases fuel') (simp_all add: Let_def)
  next
    case False
    note less = pending_finish_less[OF False]
    with Suc.prems(2) obtain k where k: "fuel' = Suc k" by (cases fuel') simp_all
    have "pending_count (set_statuses NodeStatus.Done (ready_wave (done_ids d) d) d) \<le> fuel"
      "pending_count (set_statuses NodeStatus.Done (ready_wave (done_ids d) d) d) \<le> k"
      using less Suc.prems k by simp_all
    from Suc.IH[OF this] show ?thesis by (simp add: k Let_def)
  qed
qed

lemma ref_waves_rest:
  "pending_count d \<le> fuel \<Longrightarrow> pending_count d1 \<le> fuel' \<Longrightarrow> i < length (ref_waves merge out fuel d s) \<Longrightarrow>
     ref_waves merge out fuel d s ! i = (s1, d1) \<Longrightarrow>
     ref_waves merge out fuel' d1 s1 = drop (Suc i) (ref_waves merge out fuel d s)"
proof (induction fuel arbitrary: d s i)
  case (Suc fuel)
  let ?ready = "ready_wave (done_ids d) d"
  let ?d = "set_statuses NodeStatus.Done ?ready d" and ?s = "wave_merge merge out d ?ready s"
  have ne: "?ready \<noteq> []" using Suc.prems(3) by (auto simp: Let_def)
  then have w: "ref_waves merge out (Suc fuel) d s = (?s, ?d) # ref_waves merge out fuel ?d ?s"
    by (simp add: Let_def)
  have le: "pending_count ?d \<le> fuel" using pending_finish_less[OF ne] Suc.prems(1) by simp
  show ?case
  proof (cases i)
    case 0
    then have "d1 = ?d" "s1 = ?s" using Suc.prems(4) by (simp_all add: w del: ref_waves.simps)
    then have "ref_waves merge out fuel' d1 s1 = ref_waves merge out fuel ?d ?s"
      using ref_waves_fuel[OF Suc.prems(2), of fuel] le by simp
    then show ?thesis by (simp add: w 0 del: ref_waves.simps)
  next
    case (Suc k)
    with Suc.IH[OF le Suc.prems(2), of k] Suc.prems(3,4) show ?thesis
      by (simp add: w del: ref_waves.simps)
  qed
qed simp

text \<open>A wave changes neither the nodes nor the identity of the DAG, and keeps the states in \<open>S\<close>.\<close>

definition same_dag :: "DAG \<Rightarrow> DAG \<Rightarrow> bool" where
  "same_dag d d' \<longleftrightarrow> skeleton d = skeleton d' \<and> dag_id d = dag_id d' \<and> dag_created_at d = dag_created_at d'"

lemma same_dag_nodes:
  assumes "same_dag d d'"
  shows "length (dag_nodes d) = length (dag_nodes d')"
    and "map dn_id (dag_nodes d) = map dn_id (dag_nodes d')"
proof -
  have sk: "skeleton d = skeleton d'" using assms by (simp add: same_dag_def)
  show "length (dag_nodes d) = length (dag_nodes d')"
    using arg_cong[OF sk, of length] by (simp add: skeleton_def)
  show "map dn_id (dag_nodes d) = map dn_id (dag_nodes d')"
    using arg_cong[OF sk, of "map fst"] by (simp add: skeleton_def comp_def)
qed

lemma ref_waves_same:
  "sd \<in> set (ref_waves merge out fuel d s) \<Longrightarrow> same_dag (snd sd) d"
proof (induction fuel arbitrary: d s)
  case (Suc fuel)
  then show ?case by (auto simp: Let_def same_dag_def split: if_splits)
qed simp

lemma ref_waves_closed:
  assumes "plain_dag env g merge W F"
  shows "(d, s) \<in> W \<Longrightarrow> sd \<in> set (ref_waves merge (plain_out F) fuel d s) \<Longrightarrow> (snd sd, fst sd) \<in> W"
proof (induction fuel arbitrary: d s)
  case (Suc fuel)
  let ?ready = "ready_wave (done_ids d) d"
  have ne: "?ready \<noteq> []" using Suc.prems(2) by (auto simp: Let_def)
  from plain_dag_wave(3)[OF assms Suc.prems(1) refl ne] Suc.IH Suc.prems(2) ne
  show ?case by (auto simp: Let_def)
qed simp

lemma last_drop_nth: "i < length xs \<Longrightarrow> last ((xs ! i) # drop (Suc i) xs) = last (x # xs)"
  by (simp add: Cons_nth_drop_Suc) (metis last_drop list.size(3) not_less0)

section \<open>Restoring\<close>

lemma restore_same:
  assumes "same_dag d d'" and "distinct (map dn_id (dag_nodes d'))"
  shows "restore_statuses d d' = d'"
proof -
  have "dag_nodes (restore_statuses d d') = dag_nodes d'"
    using restore_nodes[OF _ assms(2)] assms(1) by (simp add: same_dag_def)
  then show ?thesis using assms(1) by (cases d') (simp add: restore_statuses_def same_dag_def)
qed

section \<open>Resuming over any store\<close>

context journal_runner
begin

lemma resume_dag_journal:
  assumes "dj_ck j = ck" and "dj_token j = None" and "usable (store_at w)"
    and "plain_dag (dj_env j) (dj_graph j) (dj_merge j) W F"
    and "\<forall>(d, s) \<in> W. \<exists>v. enc s = Inr v \<and> dec v = Inr s"
    and "permutes_tasks (dj_sched j)" and "depth \<le> 8"
    and "length (dag_nodes d) \<le> max_dag_nodes (g_resource_limits (dj_graph j))"
    and "(d, s) \<in> W" and "distinct (map dn_id (dag_nodes d))"
    and "waves = ref_waves (dj_merge j) (plain_out F) (length (dag_nodes d)) d s"
    and "(s', d') = last ((s, d) # waves)" and "i < length waves"
    and "last_opt (journal (w_store w) (dj_thread_id j)) = Some e"
    and "wave_entry enc e (waves ! i)" and "same_dag d0 d"
  shows "\<exists>w' es. resume_dag j depth (w, d0) =
       Some (case ref_outcome s' d' of Inl e \<Rightarrow> Inl e | Inr s \<Rightarrow> Inr (Some s), (w', d')) \<and>
     usable (store_at w') \<and> journal (w_store w') = (journal (w_store w))
       (dj_thread_id j := journal (w_store w) (dj_thread_id j) @ es) \<and>
     list_all2 (wave_entry enc) es (drop (Suc i) waves)"
proof -
  let ?t = "dj_thread_id j"
  obtain s1 d1 where h: "waves ! i = (s1, d1)" by fastforce
  have mem: "(s1, d1) \<in> set waves" using assms(13) h by (metis nth_mem)
  have same: "same_dag d1 d" using ref_waves_same[OF mem[unfolded assms(11)]] by simp
  note nodes = same_dag_nodes[OF same]
  have s1: "(d1, s1) \<in> W" using ref_waves_closed[OF assms(4,9) mem[unfolded assms(11)]] by simp
  have rest: "ref_waves (dj_merge j) (plain_out F) (length (dag_nodes d1)) d1 s1 = drop (Suc i) waves"
    unfolding assms(11)
    by (rule ref_waves_rest) (use pending_le_length[of d] pending_le_length[of d1] nodes(1) assms(11,13) h in simp_all)
  have last: "(s', d') = last ((s1, d1) # drop (Suc i) waves)"
    using last_drop_nth[OF assms(13), of "(s, d)"] h assms(12) by simp
  have e: "enc s1 = Inr (je_state e)" "je_dag e = Some d1" "je_status e = CheckpointStatus.Complete"
    using assms(15) h by (simp_all add: wave_entry_def)
  from assms(5) s1 e(1) have dec: "dec (je_state e) = Inr s1" by fastforce
  obtain st y where ld: "on_store (ck_load_state ck ?t) w =
       Some (Inr (Some (s1, meta_of ?t e, Some d1)), w\<lparr>w_store := st, w_sys := y\<rparr>)"
    and u: "usable (store_at (w\<lparr>w_store := st, w_sys := y\<rparr>))" and j: "journal st = journal (w_store w)"
    using load_last[OF assms(3,14) dec] e(2) by auto
  have r: "restore_statuses d0 d1 = d1"
    by (rule restore_same) (use assms(10,16) same nodes(2) in \<open>auto simp: same_dag_def\<close>)
  have enc: "\<forall>(d, s) \<in> W. \<exists>v. enc s = Inr v" using assms(5) by blast
  have lim: "length (dag_nodes d1) \<le> max_dag_nodes (g_resource_limits (dj_graph j))" using assms(8) nodes(1) by simp
  from run_dag_journal[OF assms(1,2) u assms(4) enc assms(6,7) lim s1 rest[symmetric] last] obtain w' es where
    run: "run_dag j s1 depth (w\<lparr>w_store := st, w_sys := y\<rparr>, d1) = Some (ref_outcome s' d', (w', d'))"
    and a: "appended ?t es (st, y) (store_at w')" and es: "list_all2 (wave_entry enc) es (drop (Suc i) waves)"
    by auto
  have "resume_dag j depth (w, d0) =
      Some (case ref_outcome s' d' of Inl e \<Rightarrow> Inl e | Inr s \<Rightarrow> Inr (Some s), (w', d'))"
    using run by (simp add: resume_dag_def assms(1) ld e(3) meta_of_def recover_dag_def r Let_def split: sum.splits)
  with a es j show ?thesis by (auto simp: appended_def)
qed

end

section \<open>A wave with failures\<close>

text \<open>The names of the nodes and their results, in the order the results arrive.\<close>

definition failures :: "(string \<times> 's node_result) list \<Rightarrow> (string \<times> string) list" where
  "failures rs = List.map_filter (\<lambda>(n, r). case r of Inr _ \<Rightarrow> None | Inl (Yield _) \<Rightarrow> None
     | Inl e \<Rightarrow> Some (n, display_graph_error e)) rs"

definition successes :: "(string \<times> 's node_result) list \<Rightarrow> string list" where
  "successes rs = List.map_filter (\<lambda>(n, r). case r of Inr _ \<Rightarrow> Some n | Inl _ \<Rightarrow> None) rs"

definition wave_error :: "WaveFailurePolicy \<Rightarrow> (string \<times> 's node_result) list \<Rightarrow> TakelnError" where
  "wave_error policy rs = (case policy of
       WaveFailurePolicy.FailFast \<Rightarrow>
         ExecutionError (''Node '' @ fst (hd (failures rs)) @ '' failed: '' @ snd (hd (failures rs)))
     | WaveFailurePolicy.ContinueOnError \<Rightarrow> PartialWaveFailure (successes rs) (failures rs))"

definition named_results :: "(string \<Rightarrow> 's \<Rightarrow> 's node_result) \<Rightarrow> DAG \<Rightarrow> 's \<Rightarrow> nat list \<Rightarrow>
    (string \<times> 's node_result) list" where
  "named_results R d s is = map (\<lambda>i. (step_type_at d i, R (step_type_at d i) s)) is"

lemma named_results_simps [simp]:
  "named_results R d s [] = []"
  "named_results R d s (i # is) = (step_type_at d i, R (step_type_at d i) s) # named_results R d s is"
  by (simp_all add: named_results_def)

lemma result_lists_simps [simp]:
  "failures [] = []" "successes [] = []"
  "failures ((n, Inr out) # rs) = failures rs" "successes ((n, Inr out) # rs) = n # successes rs"
  "successes ((n, Inl e) # rs) = successes rs"
  "failures ((n, Inl e) # rs) =
     (if \<exists>y. e = Yield y then failures rs else (n, display_graph_error e) # failures rs)"
  by (auto simp: failures_def successes_def List.map_filter_def split: GraphError.splits)

lemma collect_wave_errors:
  assumes "0 < max_execution_records (g_resource_limits (dj_graph j))"
    and "\<And>i. i \<in> set is \<Longrightarrow> i \<in> A \<and> effective_node_budget (dj_graph j) (step_type_at d0 i) = None \<and>
       (\<forall>a b. R (step_type_at d0 i) s \<noteq> Inl (GBudgetExceeded a b))"
    and "\<And>i. step_type_at d i = step_type_at d0 i"
  shows "\<exists>r w' d'. collect_wave j (wave_results R d0 s A) is wv (w, d) = Some (r, (w', d')) \<and>
     w_store w' = w_store w \<and>
     (if g_wave_failure_policy (dj_graph j) = WaveFailurePolicy.FailFast \<and> failures (named_results R d0 s is) \<noteq> []
      then r = Inl (wave_error WaveFailurePolicy.FailFast (named_results R d0 s is))
      else \<exists>wv'. r = Inr wv' \<and> wv_failed wv' = wv_failed wv @ failures (named_results R d0 s is) \<and>
        wv_succeeded wv' = wv_succeeded wv @ successes (named_results R d0 s is))"
  using assms(2,3)
proof (induction "is" arbitrary: wv w d)
  case Nil
  then show ?case by simp
next
  case (Cons i "is")
  let ?n = "step_type_at d0 i" and ?p = "g_wave_failure_policy (dj_graph j)"
  let ?go = "\<lambda>st. set_node_status i st d"
  have i: "wave_results R d0 s A i = Some (Inr (R ?n s))"
    using Cons.prems(1)[of i] by (simp add: wave_results_def)
  have types: "step_type_at (?go st) k = step_type_at d0 k" for st k using Cons.prems(2) by simp
  have rest: "\<And>k. k \<in> set is \<Longrightarrow> k \<in> A \<and> effective_node_budget (dj_graph j) (step_type_at d0 k) = None \<and>
       (\<forall>a b. R (step_type_at d0 k) s \<noteq> Inl (GBudgetExceeded a b))" using Cons.prems(1) by simp
  note next_one = Cons.IH[OF rest types]
  show ?case
  proof (cases "R ?n s")
    case (Inr out)
    have "effective_node_budget (dj_graph j) (step_type_at d i) = None"
      using Cons.prems by simp
    from collect_success_plain[OF this assms(1), of out wv w] Cons.prems(2) obtain wv1 w1 where
      c: "collect_one j i (Inr (R ?n s)) wv (w, d) = Some (Inr wv1, (w1, ?go NodeStatus.Done))"
      and e: "w_store w1 = w_store w" "wv_failed wv1 = wv_failed wv"
        "wv_succeeded wv1 = wv_succeeded wv @ [?n]"
      by (auto simp: collect_one_def Inr dest: quiet_store)
    from next_one[of wv1 w1 NodeStatus.Done] e Inr show ?thesis
      by (auto simp: i c[unfolded Inr] wave_error_def split: if_splits)
  next
    case (Inl e)
    show ?thesis
    proof (cases "\<exists>y. e = Yield y")
      case True
      then obtain y where y: "e = Yield y" by blast
      with next_one[of "wv\<lparr>wv_yielded := True, wv_request := Some y\<rparr>" w NodeStatus.Yielded] Inl
      show ?thesis by (auto simp: i collect_one_def collect_yield_def wave_error_def split: if_splits)
    next
      case False
      then have c: "collect_one j i (Inr (R ?n s)) wv (w, d) = (case ?p of
            WaveFailurePolicy.FailFast \<Rightarrow> Some (Inl (ExecutionError (''Node '' @ ?n @ '' failed: '' @
              display_graph_error e)), (w, ?go NodeStatus.Failed))
          | WaveFailurePolicy.ContinueOnError \<Rightarrow> Some (Inr (wv\<lparr>wv_failed := wv_failed wv @
              [(?n, display_graph_error e)]\<rparr>), (w, ?go NodeStatus.Failed)))"
        using Cons.prems(1)[of i] Cons.prems(2) by (cases ?p; cases e) (simp_all add: collect_one_def collect_failure_def Inl)
      from False next_one[of "wv\<lparr>wv_failed := wv_failed wv @ [(?n, display_graph_error e)]\<rparr>" w NodeStatus.Failed]
        Inl show ?thesis
        by (cases ?p) (auto simp: i c[unfolded Inl] wave_error_def)
    qed
  qed
qed

section \<open>The properties\<close>

text \<open>C24: a DAG run that is cut after any of its waves and resumed with \<open>resume_dag\<close> from the store, on
  the caller's DAG in whatever statuses it was left, ends in the same state, with the same DAG and the
  same outcome as the run that was not cut, and writes exactly the checkpoints that were missing: a
  finished wave is not executed again.\<close>

theorem dag_crash_resume:
  assumes "plain_dag env g merge W F"
    and "\<forall>(d, s) \<in> W. \<exists>v. e_to_value env s = Inr v \<and> e_from_value env v = Inr s"
    and "permutes_tasks sched" and "depth \<le> 8"
    and "length (dag_nodes d) \<le> max_dag_nodes (g_resource_limits g)"
    and "(d, s) \<in> W" and "distinct (map dn_id (dag_nodes d))" and "\<not> ms_poisoned (w_store w)"
    and "waves = ref_waves merge (\<lambda>n s. no_state (F n s)) (length (dag_nodes d)) d s"
    and "(s', d') = last ((s, d) # waves)"
    and "i < length waves" and "last_opt (mem_list (w_store w) t) = Some c"
    and "wave_checkpoint env c (waves ! i)" and "same_dag d0 d"
  shows "\<exists>w' cs. resume_dag (wave_job env g t None merge sched) depth (w, d0) =
       Some (case ref_outcome s' d' of Inl e \<Rightarrow> Inl e | Inr s \<Rightarrow> Inr (Some s), (w', d')) \<and>
     mem_list (w_store w') t = mem_list (w_store w) t @ cs \<and>
     list_all2 (wave_checkpoint env) cs (drop (Suc i) waves)"
proof -
  let ?j = "wave_job env g t None merge sched"
  have e: "last_opt (mem_journal (w_store w) (dj_thread_id ?j)) = Some (mem_entry c)"
    using assms(12) by (auto simp: mem_journal_def last_opt_def last_map split: if_splits)
  have dec: "\<forall>(d, s) \<in> W. \<exists>v. mem_enc env s = Inr v \<and> mem_dec env v = Inr s"
    using assms(2) by (fastforce simp: mem_dec_def)
  have "\<exists>w' es. resume_dag ?j depth (w, d0) =
       Some (case ref_outcome s' d' of Inl e \<Rightarrow> Inl e | Inr s \<Rightarrow> Inr (Some s), (w', d')) \<and>
     mem_usable (store_at w') \<and> mem_journal (w_store w') = (mem_journal (w_store w))
       (dj_thread_id ?j := mem_journal (w_store w) (dj_thread_id ?j) @ es) \<and>
     list_all2 (wave_entry (mem_enc env)) es (drop (Suc i) waves)"
    by (rule mem_run.resume_dag_journal[OF _ _ _ _ dec _ _ _ _ _ _ _ assms(11) e])
       (use assms in \<open>simp_all add: mem_usable_def wave_checkpoint_entry\<close>)
  then obtain w' es where "resume_dag ?j depth (w, d0) =
       Some (case ref_outcome s' d' of Inl e \<Rightarrow> Inl e | Inr s \<Rightarrow> Inr (Some s), (w', d'))"
    and a: "mem_run.appended t es (store_at w) (store_at w')"
    and es: "list_all2 (wave_entry (mem_enc env)) es (drop (Suc i) waves)"
    by (auto simp: mem_run.appended_def)
  with mem_appended(2)[OF a] show ?thesis by (auto simp: wave_checkpoints)
qed

text \<open>C31: \<open>resume_dag\<close> matches the nodes by their identifiers only. With a DAG that was built again, so
  that it shares no identifier with the saved one, no status is restored: the resumption is a run of the
  whole DAG, from its first wave, on the saved state, which already holds the outputs of the finished
  waves.\<close>

theorem dag_rebuilt_restarts:
  assumes "last_opt (mem_list (w_store w) t) = Some c" and "\<not> ms_poisoned (w_store w)"
    and "e_from_value env (mc_state c) = Inr s" and "mc_dag c = Some saved"
    and "mc_status c = CheckpointStatus.Complete"
    and "dn_id ` set (dag_nodes d) \<inter> dn_id ` set (dag_nodes saved) = {}"
  shows "resume_dag (wave_job env g t token merge sched) depth (w, d) =
     (case run_dag (wave_job env g t token merge sched) s depth (w, d) of
        None \<Rightarrow> None
      | Some (Inl e, wd) \<Rightarrow> Some (Inl e, wd)
      | Some (Inr final, wd) \<Rightarrow> Some (Inr (Some final), wd))"
proof -
  have "status_map (dag_nodes saved) (dn_id n) = None" if "n \<in> set (dag_nodes d)" for n
    using that assms(6) by (auto simp: status_map_None)
  then have "map (restore_node (status_map (dag_nodes saved))) (dag_nodes d) = dag_nodes d"
    by (intro map_idI) (simp add: restore_node_def)
  then have "restore_statuses d saved = d" by (simp add: restore_statuses_def)
  moreover have "recover_dag policy (mc_to_meta t c) d = d" for policy
    using assms(5) by (simp add: recover_dag_def)
  ultimately show ?thesis
    using assms(4,5) mem_load_last[OF assms(2,1,3)]
    by (auto simp: resume_dag_def Let_def split: option.splits prod.splits sum.splits)
qed

text \<open>C30: when nodes of the first wave of a DAG run fail for good, the run fails and saves nothing,
  whatever the other nodes of the wave give. Under FailFast the error is the failure whose result
  arrives first. Under ContinueOnError it is a partial failure that lists the nodes that succeeded and
  those that failed with their messages, in the order of arrival; a yield of another node is in neither
  list and is lost.\<close>

theorem dag_wave_failure:
  assumes "ready = ready_wave (done_ids d) d"
    and "\<And>i. i \<in> set ready \<Longrightarrow> answers g (step_type_at d i) None s (R (step_type_at d i) s) \<and>
       effective_node_budget g (step_type_at d i) = None \<and>
       (\<forall>m. R (step_type_at d i) s \<noteq> Inl (Retryable m)) \<and>
       (\<forall>a b. R (step_type_at d i) s \<noteq> Inl (GBudgetExceeded a b))"
    and "rs = map (\<lambda>i. (step_type_at d i, R (step_type_at d i) s)) (sc_arrive sched 0 ready)"
    and "failures rs \<noteq> []" and "permutes_tasks sched" and "depth \<le> 8"
    and "length (dag_nodes d) \<le> max_dag_nodes (g_resource_limits g)"
    and "0 < max_execution_records (g_resource_limits g)"
  shows "\<exists>w' d'. run_dag (wave_job env g t None merge sched) s depth (w, d) =
       Some (Inl (wave_error (g_wave_failure_policy g) rs), (w', d')) \<and> w_store w' = w_store w"
proof -
  let ?j = "wave_job env g t None merge sched" and ?d = "mark_running ready d"
  let ?q = "(dag_start s d None)\<lparr>ds_first_wave := False\<rparr>" and ?arrive = "sc_arrive sched 0 ready"
  note set = permuted_sets(2)[OF assms(5)]
  have rs: "named_results R d s ?arrive = rs" by (simp add: named_results_def assms(3))
  have ne: "ready \<noteq> []"
    by (cases "ready = []") (use assms(3,4) set[of 0 "[]"] in simp_all)
  obtain w1 where q: "quiet w w1" and launch: "wave_launch ?j ?q ready (w, d) =
      then_ok (collect_wave ?j (wave_results R d s (set ready)) ?arrive (wave_start (done_ids d)) (w1, ?d))
        (wave_finish ?j ?q ready)"
    using answered_launch[of ?j ready d ?q R w] assms(2,5) by (auto simp: dag_start_def done_ids_def)
  have recs: "0 < max_execution_records (g_resource_limits (dj_graph ?j))" using assms(8) by simp
  have nodes: "\<And>i. i \<in> set ?arrive \<Longrightarrow> i \<in> set ready \<and>
      effective_node_budget (dj_graph ?j) (step_type_at d i) = None \<and>
      (\<forall>a b. R (step_type_at d i) s \<noteq> Inl (GBudgetExceeded a b))" using assms(2) by (simp add: set)
  from collect_wave_errors[of ?j ?arrive "set ready" d R s ?d "wave_start (done_ids d)" w1, OF recs nodes
      mark_running_frame(1)] obtain r w2 d2 where
    c: "collect_wave ?j (wave_results R d s (set ready)) ?arrive (wave_start (done_ids d)) (w1, ?d) =
      Some (r, (w2, d2))" and st: "w_store w2 = w_store w"
    and r: "if g_wave_failure_policy g = WaveFailurePolicy.FailFast \<and> failures rs \<noteq> []
      then r = Inl (wave_error WaveFailurePolicy.FailFast rs)
      else \<exists>wv'. r = Inr wv' \<and> wv_failed wv' = failures rs \<and> wv_succeeded wv' = successes rs"
    unfolding rs wave_job_simps quiet_store[OF q] by (auto simp: wave_start_def split: if_splits)
  have "wave_launch ?j ?q ready (w, d) = Some (Inl (wave_error (g_wave_failure_policy g) rs), (w2, d2))"
    using r assms(4) by (cases "g_wave_failure_policy g") (auto simp: launch c wave_error_def wave_finish_def)
  then have "wave_step ?j (dag_start s d None) (w, d) =
      Some (Inl (wave_error (g_wave_failure_policy g) rs), (w2, d2))"
    using ne assms(1) by (simp add: wave_step_def Let_def dag_start_def done_ids_def)
  then have "run_dag ?j s depth (w, d) = Some (Inl (wave_error (g_wave_failure_policy g) rs), (w2, d2))"
    unfolding run_dag_enters[OF assms(6,7)] by (rule wave_loop_step(1))
  with st show ?thesis by simp
qed

section \<open>Samples\<close>

definition first_wave_done :: DAG where
  "first_wave_done = set_statuses NodeStatus.Done [0, 1] sample_dag"

definition all_waves_done :: DAG where
  "all_waves_done = set_statuses NodeStatus.Done [0, 1, 2] sample_dag"

lemma sample_cut:
  "[(2 :: nat, first_wave_done), (5, all_waves_done)] =
     ref_waves sample_merge (\<lambda>n s. no_state (sample_output n s)) (length (dag_nodes sample_dag)) sample_dag 0"
  "(5 :: nat, all_waves_done) = last ((0, sample_dag) # [(2, first_wave_done), (5, all_waves_done)])"
  "ref_outcome (5 :: nat) all_waves_done = Inr 5" "first_pending first_wave_done = ''a''"
  "distinct (map dn_id (dag_nodes sample_dag))" "same_dag sample_dag sample_dag" "(sample_dag, 0) \<in> sample_runs"
proof -
  show "[(2 :: nat, first_wave_done), (5, all_waves_done)] =
     ref_waves sample_merge (\<lambda>n s. no_state (sample_output n s)) (length (dag_nodes sample_dag)) sample_dag 0"
    unfolding sample_dag_length sample_waves first_wave_done_def all_waves_done_def ..
  show "ref_outcome (5 :: nat) all_waves_done = Inr 5"
    by (simp add: all_waves_done_def ref_outcome_def types_with_def sample_dag_def set_node_status_def)
  show "first_pending first_wave_done = ''a''" by (simp add: first_wave_done_def) code_simp
  show "(sample_dag, 0) \<in> sample_runs" by (rule sample_dag_limits(2)) simp
qed (simp_all add: sample_dag_def same_dag_def)

definition cut_store :: mem_store where
  "cut_store = \<lparr>ms_poisoned = False, ms_map = [''t'' \<mapsto>
     [(sample_checkpoint 2 ''a'')\<lparr>mc_dag := Some first_wave_done\<rparr>]]\<rparr>"

theorem dag_crash_resume_witness:
  "\<exists>w' d'. resume_dag (wave_job sample_env (sample_graph 3) ''t'' None sample_merge reversing) 0
       (sample_world 0 cut_store, sample_dag) = Some (Inr (Some 5), (w', d')) \<and>
     length (mem_list (w_store w') ''t'') = 2"
proof -
  let ?c = "(sample_checkpoint 2 ''a'')\<lparr>mc_dag := Some first_wave_done\<rparr>"
  let ?w = "sample_world (0 :: nat) cut_store" and ?waves = "[(2 :: nat, first_wave_done), (5, all_waves_done)]"
  have e: "\<forall>(d, s) \<in> sample_runs. \<exists>v. e_to_value sample_env s = Inr v \<and> e_from_value sample_env v = Inr s"
    by (auto simp: sample_env_def)
  have st: "last_opt (mem_list (w_store ?w) ''t'') = Some ?c" "\<not> ms_poisoned (w_store ?w)"
    "mem_list (w_store ?w) ''t'' = [?c]" "(0 :: 8 word) \<le> 8" "0 < length ?waves"
    by (simp_all add: sample_world_def cut_store_def mem_list_def last_opt_def)
  have c: "wave_checkpoint sample_env ?c (?waves ! 0)"
    by (simp add: wave_checkpoint_def sample_checkpoint_def sample_env_def sample_cut(4))
  from dag_crash_resume[OF sample_plain_dag[of 3] e reversing_permutes st(4) sample_dag_limits(1)[of 3]
      sample_cut(7,5) st(2) sample_cut(1,2) st(5,1) c sample_cut(6)]
  obtain w' cs where r: "resume_dag (wave_job sample_env (sample_graph 3) ''t'' None sample_merge reversing) 0
       (?w, sample_dag) = Some (Inr (Some 5), (w', all_waves_done))"
    and m: "mem_list (w_store w') ''t'' = [?c] @ cs"
    and cs: "list_all2 (wave_checkpoint sample_env) cs (drop (Suc 0) ?waves)" unfolding sample_cut(3) st(3) by auto
  have "length cs = 1" using list_all2_lengthD[OF cs] by simp
  with r m show ?thesis by (intro exI[of _ w'] exI[of _ all_waves_done]) simp
qed

definition fail_graph :: "WaveFailurePolicy \<Rightarrow> (nat, nat) graph" where
  "fail_graph policy = set_wave_failure_policy policy
     (add_node ''gate'' (\<lambda>ctx s x. (Ready 0 (Inl (Fatal ''no'')), x)) (sample_graph 5))"

definition fail_result :: "string \<Rightarrow> nat \<Rightarrow> nat node_result" where
  "fail_result n s = (if n = ''gate'' then Inl (Fatal ''no'') else Inr (sample_output n s))"

theorem dag_wave_failure_witness:
  "\<exists>w' d'. run_dag (wave_job sample_env (fail_graph WaveFailurePolicy.ContinueOnError) ''t'' None sample_merge
       reversing) 0 0 (sample_world 0 mem_new, gate_dag NodeStatus.Pending NodeStatus.Pending) =
     Some (Inl (PartialWaveFailure [''a''] [(''gate'', ''Fatal error: no'')]), (w', d')) \<and> w_store w' = mem_new"
proof -
  let ?g = "fail_graph WaveFailurePolicy.ContinueOnError" and ?d = "gate_dag NodeStatus.Pending NodeStatus.Pending"
  let ?rs = "[(''a'', fail_result ''a'' 0), (''gate'', fail_result ''gate'' 0)]"
  have types: "step_type_at ?d 0 = ''gate''" "step_type_at ?d 1 = ''a''"
    by (simp_all add: step_type_at_def gate_dag_def)
  have ans: "answers ?g (step_type_at ?d i) None 0 (fail_result (step_type_at ?d i) 0) \<and>
       effective_node_budget ?g (step_type_at ?d i) = None \<and>
       (\<forall>m. fail_result (step_type_at ?d i) 0 \<noteq> Inl (Retryable m)) \<and>
       (\<forall>a b. fail_result (step_type_at ?d i) 0 \<noteq> Inl (GBudgetExceeded a b))" if "i \<in> set [0, 1]" for i
    using that types
    by (auto simp: fail_result_def effective_node_budget_def answers_def fail_graph_def sample_graph_simps
        set_wave_failure_policy_def)
  have rs: "?rs = map (\<lambda>i. (step_type_at ?d i, fail_result (step_type_at ?d i) 0)) (sc_arrive reversing 0 [0, 1])"
    using types by (simp add: reversing_def)
  have f: "failures ?rs = [(''gate'', ''Fatal error: no'')]" "successes ?rs = [''a'']"
    by (simp_all add: fail_result_def)
  then have ne: "failures ?rs \<noteq> []" by simp
  have lim: "length (dag_nodes ?d) \<le> max_dag_nodes (g_resource_limits ?g)"
    "0 < max_execution_records (g_resource_limits ?g)" "(0 :: 8 word) \<le> 8"
    by (simp_all add: gate_dag_def fail_graph_def sample_graph_simps set_wave_failure_policy_def)
  have p: "g_wave_failure_policy ?g = WaveFailurePolicy.ContinueOnError"
    by (simp add: fail_graph_def set_wave_failure_policy_def)
  from dag_wave_failure[where R = fail_result and w = "sample_world 0 mem_new" and merge = sample_merge,
      OF gate_dag_ready[symmetric] ans rs ne reversing_permutes lim(3,1,2)]
  show ?thesis by (auto simp: p wave_error_def f sample_world_def)
qed

text \<open>The sample DAG built again: its first wave was saved, with state 2, and is run a second time.\<close>

definition rebuilt_dag :: DAG where
  "rebuilt_dag = \<lparr>dag_id = 9, dag_nodes =
     [\<lparr>dn_id = 11, dn_step_type = ''a'', dn_depends_on = [], dn_status = NodeStatus.Pending\<rparr>,
      \<lparr>dn_id = 12, dn_step_type = ''b'', dn_depends_on = [], dn_status = NodeStatus.Pending\<rparr>,
      \<lparr>dn_id = 13, dn_step_type = ''a'', dn_depends_on = [11, 12], dn_status = NodeStatus.Pending\<rparr>],
     dag_created_at = 0\<rparr>"

theorem dag_rebuilt_restarts_witness:
  "\<exists>w' d'. resume_dag (wave_job sample_env (sample_graph 3) ''t'' None sample_merge reversing) 0
       (sample_world 0 cut_store, rebuilt_dag) = Some (Inr (Some 17), (w', d'))"
proof -
  let ?c = "(sample_checkpoint 2 ''a'')\<lparr>mc_dag := Some first_wave_done\<rparr>"
  let ?w = "sample_world (0 :: nat) cut_store" and ?j = "wave_job sample_env (sample_graph 3) ''t'' None sample_merge reversing"
  have st: "last_opt (mem_list (w_store ?w) ''t'') = Some ?c" "\<not> ms_poisoned (w_store ?w)"
    "(0 :: 8 word) \<le> 8" "(rebuilt_dag, 2) \<in> sample_runs"
    by (simp_all add: sample_runs_def rebuilt_dag_def sample_world_def cut_store_def mem_list_def last_opt_def)
  have c: "e_from_value sample_env (mc_state ?c) = Inr 2" "mc_dag ?c = Some first_wave_done"
    "mc_status ?c = CheckpointStatus.Complete" by (simp_all add: sample_checkpoint_def sample_env_def)
  have ids: "dn_id ` set (dag_nodes rebuilt_dag) \<inter> dn_id ` set (dag_nodes first_wave_done) = {}" by code_simp
  let ?d = "\<lambda>is. set_statuses NodeStatus.Done is rebuilt_dag"
  have ready: "ready_wave (done_ids rebuilt_dag) rebuilt_dag = [0, 1]"
    "ready_wave (done_ids (?d [0, 1])) (?d [0, 1]) = [2]"
    "ready_wave (done_ids (?d [0, 1, 2])) (?d [0, 1, 2]) = []" by code_simp+
  let ?m = "wave_merge sample_merge (\<lambda>n s. no_state (sample_output n s))"
  have "?m rebuilt_dag [0, 1] 2 = 8" and "?m (?d [0, 1]) [2] 8 = 17"
    by (simp_all add: wave_merge_def sample_merge_def sample_output_def node_output_bare_def)
  then have w: "[(8, ?d [0, 1]), (17, ?d [0, 1, 2])] =
      ref_waves sample_merge (\<lambda>n s. no_state (sample_output n s)) (length (dag_nodes rebuilt_dag)) rebuilt_dag 2"
    using ready by (simp add: rebuilt_dag_def Let_def del: set_statuses_simps(2)) simp
  have l: "(17, ?d [0, 1, 2]) = last ((2, rebuilt_dag) # [(8, ?d [0, 1]), (17, ?d [0, 1, 2])])" by simp
  have o: "ref_outcome 17 (?d [0, 1, 2]) = (Inr 17 :: TakelnError + nat)"
    by (simp add: ref_outcome_def types_with_def rebuilt_dag_def set_node_status_def)
  have lim: "length (dag_nodes rebuilt_dag) \<le> max_dag_nodes (g_resource_limits (sample_graph 3))"
    by (simp_all add: rebuilt_dag_def sample_graph_simps)
  obtain w' where "run_dag ?j 2 0 (?w, rebuilt_dag) = Some (Inr 17, (w', ?d [0, 1, 2]))"
    using run_dag_plain[OF sample_plain_dag[of 3] sample_runs_enc reversing_permutes st(3) lim st(4,2) w l, of "''t''"]
    unfolding o by blast
  with dag_rebuilt_restarts[OF st(1,2) c ids, where merge = sample_merge and sched = reversing and token = None and g = "sample_graph 3" and depth = 0]
  show ?thesis by auto
qed

end
