(* ===== verification/Dag_Names.thy ===== *)
theory Dag_Names
  imports Dag_Recovery
begin

text \<open>
  The waves of a DAG that \<open>DAGBuilder::build\<close> made, told by the step types alone: the identifiers the
  builder drew play no part in what a run computes.
\<close>

section \<open>Waves of names\<close>

definition ready_entries :: "entry list \<Rightarrow> string set \<Rightarrow> entry list" where
  "ready_entries es finished = filter (\<lambda>e. fst e \<notin> finished \<and> set (snd e) \<subseteq> finished) es"

text \<open>The states after the waves of the entries \<open>es\<close> from the state \<open>s\<close>.\<close>

fun name_waves :: "('s \<Rightarrow> 's \<Rightarrow> 's) \<Rightarrow> (string \<Rightarrow> 's \<Rightarrow> 's) \<Rightarrow> entry list \<Rightarrow> nat \<Rightarrow> string set \<Rightarrow> 's \<Rightarrow> 's list" where
  "name_waves merge out es 0 finished s = []"
| "name_waves merge out es (Suc fuel) finished s =
     (let ready = ready_entries es finished; s' = foldl (\<lambda>a e. merge a (out (fst e) s)) s ready
      in if ready = [] then [] else s' # name_waves merge out es fuel (finished \<union> fst ` set ready) s')"

text \<open>The DAG of the entries \<open>es\<close>, under the identifiers \<open>m\<close>, with the step types \<open>finished\<close> done.\<close>

definition named_dag :: "(string \<rightharpoonup> uuid) \<Rightarrow> entry list \<Rightarrow> string set \<Rightarrow> DAG \<Rightarrow> bool" where
  "named_dag m es finished d \<longleftrightarrow> dag_nodes d = map (\<lambda>e. (named_node m e)\<lparr>dn_status :=
     if fst e \<in> finished then NodeStatus.Done else NodeStatus.Pending\<rparr>) es"

definition good_names :: "(string \<rightharpoonup> uuid) \<Rightarrow> entry list \<Rightarrow> bool" where
  "good_names m es \<longleftrightarrow> inj_on (\<lambda>n. the (m n)) (fst ` set es) \<and> deps_known es \<and> distinct (map fst es)"

lemma named_done_ids:
  assumes "named_dag m es finished d" and "good_names m es" and "set names \<subseteq> fst ` set es"
  shows "(\<lambda>n. the (m n)) ` set names \<subseteq> done_ids d \<longleftrightarrow> set names \<subseteq> finished"
proof -
  have D: "done_ids d = (\<lambda>n. the (m n)) ` (fst ` set es \<inter> finished)"
  proof -
    have "{n \<in> set (dag_nodes d). dn_status n = NodeStatus.Done} =
        (\<lambda>e. (named_node m e)\<lparr>dn_status := NodeStatus.Done\<rparr>) ` {e \<in> set es. fst e \<in> finished}"
    proof -
      have "{n \<in> f ` A. P n} = f ` {e \<in> A. P (f e)}" for f :: "entry \<Rightarrow> DAGNode" and A P by auto
      moreover have "set (dag_nodes d) = (\<lambda>e. (named_node m e)\<lparr>dn_status :=
          if fst e \<in> finished then NodeStatus.Done else NodeStatus.Pending\<rparr>) ` set es"
        using assms(1) by (simp add: named_dag_def)
      ultimately show ?thesis by (auto intro!: image_cong split: if_splits)
    qed
    moreover have "fst ` set es \<inter> finished = fst ` {e \<in> set es. fst e \<in> finished}" by auto
    ultimately show ?thesis by (simp add: done_ids_def image_image named_node_def)
  qed
  have M: "the (m n) \<in> (\<lambda>n. the (m n)) ` (fst ` set es \<inter> finished) \<longleftrightarrow> n \<in> finished"
    if "n \<in> set names" for n
  proof -
    have n: "n \<in> fst ` set es" using that assms(3) by blast
    have "inj_on (\<lambda>n. the (m n)) (fst ` set es)" using assms(2) by (simp add: good_names_def)
    from inj_on_image_mem_iff[OF this n, of "fst ` set es \<inter> finished"] n show ?thesis by simp
  qed
  then have "(\<forall>n \<in> set names. the (m n) \<in> (\<lambda>n. the (m n)) ` (fst ` set es \<inter> finished)) \<longleftrightarrow>
      (\<forall>n \<in> set names. n \<in> finished)" by (intro ball_cong refl)
  then show ?thesis unfolding D image_subset_iff subset_eq[of "set names" finished] .
qed

lemma named_ready:
  assumes "named_dag m es finished d" and "good_names m es"
  shows "ready_wave (done_ids d) d =
     filter (\<lambda>i. fst (es ! i) \<notin> finished \<and> set (snd (es ! i)) \<subseteq> finished) [0..<length es]"
proof -
  have len: "length (dag_nodes d) = length es" using assms(1) by (simp add: named_dag_def)
  have "set (snd (es ! i)) \<subseteq> fst ` set es" if "i < length es" for i
    using assms(2) that by (auto simp: good_names_def deps_known_def)
  from named_done_ids[OF assms this] show ?thesis
    unfolding ready_wave_def len using assms(1)
    by (intro filter_cong refl) (auto simp: named_dag_def named_node_def)
qed

lemma named_ready_entries:
  assumes "named_dag m es finished d" and "good_names m es"
  shows "map (\<lambda>i. es ! i) (ready_wave (done_ids d) d) = ready_entries es finished"
proof -
  have "map (\<lambda>i. es ! i) (filter (\<lambda>i. P (es ! i)) [0..<length es]) = filter P es" for P
  proof -
    have "map (\<lambda>i. es ! i) [0..<length es] = es" by (rule map_nth)
    then show ?thesis using filter_map[of P "\<lambda>i. es ! i" "[0..<length es]"] by (simp add: comp_def)
  qed
  then show ?thesis unfolding named_ready[OF assms] ready_entries_def .
qed

lemma named_step_type:
  "named_dag m es finished d \<Longrightarrow> i < length es \<Longrightarrow> step_type_at d i = fst (es ! i)"
  by (simp add: named_dag_def step_type_at_def named_node_def)

lemma named_wave:
  assumes "named_dag m es finished d" and "good_names m es" and "ready = ready_wave (done_ids d) d"
  shows "named_dag m es (finished \<union> fst ` set (ready_entries es finished)) (set_statuses NodeStatus.Done ready d)"
    and "wave_merge merge out d ready s =
       foldl (\<lambda>a e. merge a (out (fst e) s)) s (ready_entries es finished)"
proof -
  have len: "length (dag_nodes d) = length es" using assms(1) by (simp add: named_dag_def)
  have lt: "i < length es" if "i \<in> set ready" for i using that assms(3) len by (simp add: ready_wave_iff)
  note re = named_ready_entries[OF assms(1,2), folded assms(3)]
  have "foldl (\<lambda>a i. merge a (out (step_type_at d i) s)) x is =
      foldl (\<lambda>a e. merge a (out (fst e) s)) x (map (\<lambda>i. es ! i) is)" if "set is \<subseteq> set ready" for "is" x
    using that lt by (induction "is" arbitrary: x) (simp_all add: named_step_type[OF assms(1)])
  then show "wave_merge merge out d ready s =
       foldl (\<lambda>a e. merge a (out (fst e) s)) s (ready_entries es finished)"
    by (simp add: wave_merge_def re)
  have names: "fst ` set (ready_entries es finished) = (\<lambda>i. fst (es ! i)) ` set ready"
    unfolding re[symmetric] by (simp add: image_image)
  have "fst (es ! k) \<in> fst ` set (ready_entries es finished) \<longleftrightarrow> k \<in> set ready" if "k < length es" for k
    unfolding names using that lt assms(2)
    by (auto simp: good_names_def distinct_conv_nth)
  then show "named_dag m es (finished \<union> fst ` set (ready_entries es finished))
      (set_statuses NodeStatus.Done ready d)"
    unfolding named_dag_def using assms(1) len
    by (intro nth_equalityI) (auto simp: set_statuses_nth named_dag_def)
qed

lemma named_ref_waves:
  "named_dag m es finished d \<Longrightarrow> good_names m es \<Longrightarrow>
     map fst (ref_waves merge out fuel d s) = name_waves merge out es fuel finished s"
proof (induction fuel arbitrary: finished d s)
  case (Suc fuel)
  let ?ready = "ready_wave (done_ids d) d"
  note w = named_wave[OF Suc.prems refl]
  have e: "?ready = [] \<longleftrightarrow> ready_entries es finished = []"
    unfolding named_ready_entries[OF Suc.prems, symmetric] by simp
  from Suc.IH[OF w(1) Suc.prems(2)] show ?case by (simp add: Let_def e w(2)[of merge out s])
qed simp

section \<open>A built DAG\<close>

lemma build_named:
  assumes "uuids_fresh env" and "distinct (map fst (db_entries b))"
    and "build env b y = Some (Inr d, y')"
  shows "\<exists>m. named_dag m (db_entries b) {} d \<and> good_names m (db_entries b)"
proof -
  let ?es = "db_entries b"
  from build_accepts[OF assms(1,2), of y] assms(3)
  have None: "check_step_types b = None" and known: "deps_known ?es"
    and acy: "acyclic (name_edges ?es)" and dd: "deps_distinct ?es" by blast+
  obtain m where m: "dom m = fst ` set ?es" "inj_on m (fst ` set ?es)"
    and dag: "dag_nodes d = map (named_node m) ?es"
    by (rule build_cases[OF assms(1,2) None, of y]) (use assms(3) known acy dd in auto)
  have "inj_on (\<lambda>n. the (m n)) (fst ` set ?es)"
  proof (rule inj_onI)
    fix a b assume ab: "a \<in> fst ` set ?es" "b \<in> fst ` set ?es" "the (m a) = the (m b)"
    have "a \<in> dom m" "b \<in> dom m" using ab(1,2) unfolding m(1) .
    then obtain u v where "m a = Some u" "m b = Some v" by blast
    with ab(3) have "m a = m b" by simp
    from inj_onD[OF m(2) this ab(1,2)] show "a = b" .
  qed
  then have "good_names m ?es" using known assms(2) by (simp add: good_names_def)
  moreover have "named_dag m ?es {} d" by (simp add: named_dag_def dag named_node_def)
  ultimately show ?thesis by blast
qed

text \<open>A run stays within its own waves.\<close>

lemma plain_dag_waves:
  assumes "g_budget_eur g = None" and "0 < max_execution_records (g_resource_limits g)"
    and "pending_count d \<le> fuel" and "waves = (s, d) # ref_waves merge (plain_out F) fuel d s"
    and "\<And>s1 d1. (s1, d1) \<in> set waves \<Longrightarrow>
       estimated_size env s1 \<le> max_checkpoint_bytes (g_resource_limits g) \<and>
       (\<forall>i \<in> set (ready_wave (done_ids d1) d1). plain_node g {s1} F (step_type_at d1 i))"
  shows "plain_dag env g merge {(d1, s1). (s1, d1) \<in> set waves} F"
proof -
  have nxt: "(wave_merge merge (plain_out F) d1 (ready_wave (done_ids d1) d1) s1,
       set_statuses NodeStatus.Done (ready_wave (done_ids d1) d1) d1) \<in> set waves"
    if in_waves: "(s1, d1) \<in> set waves" and ne: "ready_wave (done_ids d1) d1 \<noteq> []" for s1 d1
  proof -
    let ?rest = "ref_waves merge (plain_out F) fuel d s"
    obtain k where k: "pending_count d1 \<le> Suc k" using le_SucI by blast
    have "\<exists>is. ref_waves merge (plain_out F) (Suc k) d1 s1 = drop is ?rest"
    proof (cases "(s1, d1) = (s, d)")
      case True
      have "ref_waves merge (plain_out F) (Suc k) d s = drop 0 ?rest"
        using ref_waves_fuel[of d "Suc k" fuel] assms(3) k True by simp
      with True show ?thesis by blast
    next
      case False
      with in_waves assms(4) obtain i where "i < length ?rest" "?rest ! i = (s1, d1)"
        by (auto simp: in_set_conv_nth)
      from ref_waves_rest[OF assms(3) k this] show ?thesis by blast
    qed
    then obtain i where D: "ref_waves merge (plain_out F) (Suc k) d1 s1 = drop i ?rest" by blast
    have "(wave_merge merge (plain_out F) d1 (ready_wave (done_ids d1) d1) s1,
        set_statuses NodeStatus.Done (ready_wave (done_ids d1) d1) d1) \<in>
        set (ref_waves merge (plain_out F) (Suc k) d1 s1)" using ne by (simp add: Let_def)
    then show ?thesis unfolding D assms(4) by (auto dest: in_set_dropD)
  qed
  show ?thesis
    unfolding plain_dag_def Let_def using assms(1,2,5) nxt by auto
qed

lemma name_waves_nonempty:
  assumes "deps_known es" and "acyclic (name_edges es)" and "es \<noteq> []"
  shows "name_waves merge out es (length es) {} s \<noteq> []"
proof -
  have "wf (name_edges es)"
  proof (rule finite_acyclic_wf[OF _ assms(2)])
    have "name_edges es = (\<Union>e \<in> set es. (\<lambda>d. (d, fst e)) ` set (snd e))" by (auto simp: name_edges_def)
    then show "finite (name_edges es)" by simp
  qed
  moreover obtain e0 where "e0 \<in> set es" using assms(3) by (cases es) auto
  then have "fst e0 \<in> fst ` set es" by blast
  ultimately obtain n where n: "n \<in> fst ` set es" and least: "\<And>m. (m, n) \<in> name_edges es \<Longrightarrow> m \<notin> fst ` set es"
    by (meson wfE_min)
  then obtain e where e: "e \<in> set es" "fst e = n" by auto
  have "snd e = []"
  proof (rule ccontr)
    assume "snd e \<noteq> []"
    then obtain d where d: "d \<in> set (snd e)" by (cases "snd e") auto
    have "(n, snd e) \<in> set es" using e by auto
    with d have "(d, n) \<in> name_edges es" by (auto simp: name_edges_def)
    with least have "d \<notin> fst ` set es" by blast
    with assms(1) e(1) d show False by (auto simp: deps_known_def)
  qed
  with e have "e \<in> set (ready_entries es {})" by (simp add: ready_entries_def)
  then have "ready_entries es {} \<noteq> []" by auto
  then show ?thesis using assms(3) by (cases "length es") (simp_all add: Let_def)
qed

lemma skeleton_step_types:
  assumes "skeleton d' = skeleton d" and "i \<in> set (ready_wave c d')"
  shows "step_type_at d' i \<in> fst ` snd ` set (skeleton d)"
proof -
  have "step_type_at d' i \<in> fst ` snd ` set (skeleton d')"
    using assms(2) by (auto simp: ready_wave_iff step_type_at_def skeleton_def image_image)
  then show ?thesis by (simp only: assms(1))
qed

lemma first_pending_all_done: "first_pending (all_done d) = end_node"
proof -
  have "find (\<lambda>n. dn_status n = NodeStatus.Pending) (dag_nodes (all_done d)) = None"
    by (auto simp: find_None_iff all_done_def)
  then show ?thesis by (simp add: first_pending_def)
qed

lemma built_dag_runs:
  assumes "uuids_fresh env" and "distinct (map fst (db_entries b))"
    and "build env b y = Some (Inr d, y')" and "db_entries b \<noteq> []"
    and "states = name_waves merge (\<lambda>n s. no_state (F n s)) (db_entries b) (length (db_entries b)) {} s"
    and "g_budget_eur g = None" and "0 < max_execution_records (g_resource_limits g)"
    and "\<forall>x \<in> set (s # states). saveable env g x \<and> (\<forall>n \<in> fst ` set (db_entries b). plain_node g {x} F n)"
    and "permutes_tasks sched" and "depth \<le> 8"
    and "length (db_entries b) \<le> max_dag_nodes (g_resource_limits g)"
    and "\<not> ms_poisoned (w_store w)"
  shows "\<exists>w' cs. run_dag (wave_job env g t None merge sched) s depth (w, d) = Some (Inr (last (s # states)),
       (w', d\<lparr>dag_nodes := map (\<lambda>n. n\<lparr>dn_status := NodeStatus.Done\<rparr>) (dag_nodes d)\<rparr>)) \<and>
     mem_list (w_store w') t = mem_list (w_store w) t @ cs \<and>
     list_all2 (\<lambda>c x. e_to_value env x = Inr (mc_state c)) cs states \<and>
     states \<noteq> [] \<and> length states \<le> length (db_entries b) \<and> mc_next_node (last cs) = end_node"
proof -
  let ?es = "db_entries b"
  note parts = build_result_parts[OF assms(1-3)]
  have len: "length (dag_nodes d) = length ?es" using parts(1) by (metis length_map)
  obtain m where m: "named_dag m ?es {} d" "good_names m ?es" using build_named[OF assms(1-3)] by blast
  let ?waves = "ref_waves merge (plain_out F) (length (dag_nodes d)) d s"
  have states: "map fst ?waves = states" using named_ref_waves[OF m] by (simp add: len assms(5))
  obtain s' d' where last: "(s', d') = last ((s, d) # ?waves)" by (metis surj_pair)
  have s': "s' = last (s # states)"
    using arg_cong[OF last, of fst] by (simp add: states[symmetric] last_map split: if_splits)
  have d': "d' = all_done d"
    using runnable_waves[OF build_runnable[OF assms(1-3)] pending_le_length last] .
  have out: "ref_outcome s' d' = Inr s'"
    by (simp add: ref_outcome_def d' all_done_def types_with_def filter_empty_conv)
  have names: "fst ` snd ` set (skeleton d) = fst ` set ?es"
    using arg_cong[OF parts(1), of set] by (simp add: skeleton_def image_image)
  let ?W = "{(d1, s1). (s1, d1) \<in> set ((s, d) # ?waves)}"
  have ok: "saveable env g s1 \<and> (\<forall>i \<in> set (ready_wave (done_ids d1) d1). plain_node g {s1} F (step_type_at d1 i))"
    if sd: "(s1, d1) \<in> set ((s, d) # ?waves)" for s1 d1
  proof -
    have "s1 \<in> set (s # states)" using sd by (force simp: states[symmetric])
    note s1 = bspec[OF assms(8) this]
    have "same_dag d1 d" using sd ref_waves_same[of "(s1, d1)"] by (auto simp: same_dag_def)
    then have sk: "skeleton d1 = skeleton d" by (simp add: same_dag_def)
    show ?thesis using s1 skeleton_step_types[OF sk] names by blast
  qed
  have plain: "plain_dag env g merge ?W F"
    by (rule plain_dag_waves[OF assms(6,7) pending_le_length refl]) (use ok in \<open>auto simp: saveable_def\<close>)
  have enc: "\<forall>(d, s) \<in> ?W. \<exists>v. e_to_value env s = Inr v" using ok by (auto simp: saveable_def)
  have lim: "length (dag_nodes d) \<le> max_dag_nodes (g_resource_limits g)" using assms(11) len by simp
  have "(d, s) \<in> ?W" by simp
  from run_dag_plain[OF plain enc assms(9,10) lim this assms(12) refl last, of t] obtain w' cs where
    r: "run_dag (wave_job env g t None merge sched) s depth (w, d) = Some (Inr s', (w', all_done d))"
    and l: "mem_list (w_store w') t = mem_list (w_store w) t @ cs"
    and cs: "list_all2 (wave_checkpoint env) cs ?waves" unfolding out unfolding d' by auto
  have ne: "states \<noteq> []"
    unfolding assms(5) using build_accepts[OF assms(1,2), of y] assms(3,4)
    by (intro name_waves_nonempty) blast+
  then have nw: "?waves \<noteq> []" "cs \<noteq> []" using states cs by auto
  have "wave_checkpoint env (last cs) (s', d')" using list_all2_last[OF cs nw(2)] last nw(1) by simp
  then have "mc_next_node (last cs) = end_node" by (simp add: wave_checkpoint_def d' first_pending_all_done)
  moreover have "list_all2 (\<lambda>c x. e_to_value env x = Inr (mc_state c)) cs states"
    unfolding states[symmetric] list_all2_map2 using cs
    by (rule list_all2_mono) (simp add: wave_checkpoint_def)
  moreover have "length states \<le> length ?es" using length_ref_waves[of merge _ "length (dag_nodes d)" d s] len
    by (metis states length_map)
  ultimately show ?thesis using r l ne by (auto simp: s' all_done_def)
qed

text \<open>C26: a DAG that \<open>DAGBuilder::build\<close> accepted is run to its end: with nodes that succeed, the run
  returns Ok, no deadlock is possible, and every node ends Done. The state it returns and the
  checkpoints, one for each wave and at most one for each node, are those of the waves of step types:
  the identifiers that were drawn and the scheduling play no part. The last checkpoint names the end as
  next node.\<close>

theorem built_dag_completes:
  assumes "uuids_fresh env" and "distinct (map fst (db_entries b))"
    and "build env b y = Some (Inr d, y')" and "db_entries b \<noteq> []"
    and "states = name_waves merge (\<lambda>n s. no_state (F n s)) (db_entries b) (length (db_entries b)) {} s"
    and "g_budget_eur g = None" and "0 < max_execution_records (g_resource_limits g)"
    and "\<forall>x \<in> set (s # states). saveable env g x \<and> (\<forall>n \<in> fst ` set (db_entries b). plain_node g {x} F n)"
    and "permutes_tasks sched" and "depth \<le> 8"
    and "length (db_entries b) \<le> max_dag_nodes (g_resource_limits g)"
    and "\<not> ms_poisoned (w_store w)"
  shows "\<exists>w' cs. run_dag (wave_job env g t None merge sched) s depth (w, d) = Some (Inr (last (s # states)),
       (w', d\<lparr>dag_nodes := map (\<lambda>n. n\<lparr>dn_status := NodeStatus.Done\<rparr>) (dag_nodes d)\<rparr>)) \<and>
     mem_list (w_store w') t = mem_list (w_store w) t @ cs \<and>
     list_all2 (\<lambda>c x. e_to_value env x = Inr (mc_state c)) cs states \<and>
     states \<noteq> [] \<and> length states \<le> length (db_entries b) \<and> mc_next_node (last cs) = end_node"
  by (rule built_dag_runs[OF assms])

section \<open>Samples\<close>

definition chain_builder :: DAGBuilder where
  "chain_builder = builder_node ''b'' [''a''] (builder_node ''a'' [] dag_builder)"

lemma chain_entries: "db_entries chain_builder = [(''a'', []), (''b'', [''a''])]"
  by (simp add: chain_builder_def builder_node_def dag_builder_def)

lemma chain_distinct: "distinct (map fst (db_entries chain_builder))"
  by (simp add: chain_entries)

lemma chain_built: "\<exists>d y'. build sample_env chain_builder sample_sys = Some (Inr d, y')"
proof -
  have "name_edges (db_entries chain_builder) \<subseteq> measure (\<lambda>s. if s = ''a'' then 0 else 1)"
    by (auto simp: name_edges_def chain_entries)
  then have "acyclic (name_edges (db_entries chain_builder))"
    by (blast intro: wf_acyclic wf_subset wf_measure)
  moreover have "check_step_types chain_builder = None"
    by (simp add: chain_builder_def builder_node_def dag_builder_def check_step_types_def)
  ultimately show ?thesis
    using build_accepts[OF sample_env_fresh, of chain_builder sample_sys]
    by (simp add: chain_entries deps_known_def deps_distinct_def)
qed

theorem built_dag_completes_witness:
  "\<exists>d y' w' d'. build sample_env chain_builder sample_sys = Some (Inr d, y') \<and>
     run_dag (wave_job sample_env (sample_graph 3) ''t'' None sample_merge reversing) 0 0
       (sample_world 0 mem_new, d) = Some (Inr 3, (w', d'))"
proof -
  let ?out = "\<lambda>n s. no_state (sample_output n s)"
  obtain d y' where b: "build sample_env chain_builder sample_sys = Some (Inr d, y')"
    using chain_built by blast
  have states: "[1, 3] = name_waves sample_merge ?out (db_entries chain_builder) (length (db_entries chain_builder)) {} 0"
    by (simp add: chain_entries ready_entries_def sample_merge_def sample_output_def node_output_bare_def Let_def)
  have ne: "db_entries chain_builder \<noteq> []"
    "length (db_entries chain_builder) \<le> max_dag_nodes (g_resource_limits (sample_graph 3))"
    by (simp_all add: chain_entries sample_graph_simps)
  have g: "g_budget_eur (sample_graph 3) = None" "0 < max_execution_records (g_resource_limits (sample_graph 3))"
    by (simp_all add: sample_graph_simps)
  have p: "\<not> ms_poisoned (w_store (sample_world (0 :: nat) mem_new))" "(0 :: 8 word) \<le> 8"
    by (simp_all add: sample_world_def mem_new_def)
  have "saveable sample_env (sample_graph 3) x \<and>
      (\<forall>n \<in> fst ` set (db_entries chain_builder). plain_node (sample_graph 3) {x} sample_output n)"
    if "x \<le> 100" for x
    using that sample_graph_plain[of 3] sample_sizes[OF that] sample_enc[of x]
    by (auto simp: chain_entries plain_graph_def plain_node_def saveable_def)
  then have ok: "\<forall>x \<in> set (0 # [1, 3]). saveable sample_env (sample_graph 3) x \<and>
      (\<forall>n \<in> fst ` set (db_entries chain_builder). plain_node (sample_graph 3) {x} sample_output n)" by simp
  from built_dag_completes[OF sample_env_fresh chain_distinct b ne(1) states g ok reversing_permutes p(2) ne(2)
      p(1), of "''t''"] b show ?thesis by auto
qed

end
