(* ===== verification/Dag_Examples.thy ===== *)
theory Dag_Examples
  imports Examples Dag_Names
begin

text \<open>
  The DAG programs of \<open>src/examples\<close>, on the model. Both merge states by appending lists, and each
  node's output contains the state it was given: what a wave was given is therefore in the merged state
  once for the wave and once more for each of its nodes.
\<close>

section \<open>dag\_builder.rs\<close>

record PipelineState =
  pl_steps :: "string list"

definition merge_pipeline :: "PipelineState Merge" where
  "merge_pipeline s other = s\<lparr>pl_steps := pl_steps s @ pl_steps other\<rparr>"

definition step_node :: "string \<Rightarrow> (PipelineState, 'x) node" where
  "step_node name = bare (\<lambda>s. s\<lparr>pl_steps := pl_steps s @ [name]\<rparr>)"

definition pipeline_graph :: "(PipelineState, 'x) graph" where
  "pipeline_graph = add_node ''merge'' (step_node ''merge'') (add_node ''rank'' (step_node ''rank'')
     (add_node ''score'' (step_node ''score'') (add_node ''parse'' (step_node ''parse'')
       (add_node ''fetch'' (step_node ''fetch'') graph_new))))"

definition pipeline_builder :: DAGBuilder where
  "pipeline_builder = builder_node ''merge'' [''score'', ''rank''] (builder_node ''rank'' [''parse'']
     (builder_node ''score'' [''parse''] (builder_node ''parse'' [''fetch''] (builder_node ''fetch'' [] dag_builder))))"

text \<open>\<open>unwrap\<close> panics when the builder refuses the DAG.\<close>

definition dag_builder_main :: "PipelineState env \<Rightarrow> scheduler \<Rightarrow> 'x \<Rightarrow> sys \<Rightarrow>
    (TakelnError, PipelineState, ('x, mem_store) world \<times> DAG) outcome" where
  "dag_builder_main env sched x y = (case build env pipeline_builder y of
       Some (Inr d, y) \<Rightarrow> run_dag \<lparr>dj_env = env, dj_graph = pipeline_graph, dj_ck = memory_checkpointer env,
         dj_thread_id = ''pipeline_1'', dj_token = None, dj_merge = merge_pipeline, dj_sched = sched\<rparr>
         \<lparr>pl_steps = []\<rparr> 0 (fresh_world x y, d)
     | _ \<Rightarrow> None)"

lemma pipeline_entries: "db_entries pipeline_builder = [(''fetch'', []), (''parse'', [''fetch'']),
    (''score'', [''parse'']), (''rank'', [''parse'']), (''merge'', [''score'', ''rank''])]"
  by (simp add: pipeline_builder_def builder_node_def dag_builder_def)

lemma pipeline_distinct: "distinct (map fst (db_entries pipeline_builder))"
  by (simp add: pipeline_entries)

lemma pipeline_built:
  assumes "uuids_fresh env"
  shows "\<exists>d y'. build env pipeline_builder y = Some (Inr d, y')"
proof -
  let ?rank = "\<lambda>n. if n = ''fetch'' then 0 else if n = ''parse'' then 1 else if n = ''merge'' then 3 else 2 :: nat"
  have "name_edges (db_entries pipeline_builder) \<subseteq> measure ?rank"
    by (auto simp: name_edges_def pipeline_entries)
  then have "acyclic (name_edges (db_entries pipeline_builder))"
    by (blast intro: wf_acyclic wf_subset wf_measure)
  moreover have "check_step_types pipeline_builder = None"
    by (simp add: pipeline_builder_def builder_node_def dag_builder_def check_step_types_def)
  ultimately show ?thesis
    using build_accepts[OF assms pipeline_distinct, of y]
    by (simp add: pipeline_entries deps_known_def deps_distinct_def)
qed

abbreviation step_output :: "string \<Rightarrow> PipelineState \<Rightarrow> PipelineState NodeOutput" where
  "step_output n s \<equiv> node_output_bare (s\<lparr>pl_steps := pl_steps s @ [n]\<rparr>)"

text \<open>The steps after each wave.\<close>

definition pipeline_steps :: "string list list" where
  "pipeline_steps =
     (let a = [''fetch''];
          b = a @ a @ [''parse''];
          c = b @ (b @ [''score'']) @ (b @ [''rank''])
      in [a, b, c, c @ c @ [''merge'']])"

lemma pipeline_waves:
  "map (\<lambda>p. \<lparr>pl_steps = p\<rparr>) pipeline_steps =
     name_waves merge_pipeline (\<lambda>n s. no_state (step_output n s)) (db_entries pipeline_builder)
       (length (db_entries pipeline_builder)) {} \<lparr>pl_steps = []\<rparr>"
  by (simp add: pipeline_entries ready_entries_def merge_pipeline_def node_output_bare_def Let_def pipeline_steps_def)

lemma pipeline_sizes: "p \<in> set pipeline_steps \<Longrightarrow> length p \<le> 23"
  by (auto simp: pipeline_steps_def Let_def)

lemma pipeline_runs:
  fixes x :: 'x
  assumes "uuids_fresh env" and "\<forall>p. length p \<le> 23 \<longrightarrow> fits env \<lparr>pl_steps = p\<rparr>" and "permutes_tasks sched"
  shows "\<exists>w d. dag_builder_main env sched x y = Some (Inr \<lparr>pl_steps = last pipeline_steps\<rparr>, (w, d)) \<and>
     (\<forall>n \<in> set (dag_nodes d). dn_status n = NodeStatus.Done)"
proof -
  let ?g = "pipeline_graph :: (PipelineState, 'x) graph" and ?s = "\<lparr>pl_steps = []\<rparr>"
  let ?states = "map (\<lambda>p. \<lparr>pl_steps = p\<rparr>) pipeline_steps"
  obtain d y' where b: "build env pipeline_builder y = Some (Inr d, y')" using pipeline_built[OF assms(1)] by blast
  have u: "unconfigured ?g" by (simp add: unconfigured_def pipeline_graph_def graph_defs)
  then have g: "g_budget_eur ?g = None" "0 < max_execution_records (g_resource_limits ?g)"
    by (simp_all add: unconfigured_def resource_limits_default_def)
  have ne: "db_entries pipeline_builder \<noteq> []"
    "length (db_entries pipeline_builder) \<le> max_dag_nodes (g_resource_limits ?g)"
    using u by (simp_all add: pipeline_entries unconfigured_def resource_limits_default_def)
  have "plain_node ?g {x} step_output n" if "n \<in> fst ` set (db_entries pipeline_builder)" for n x
    using that u by (auto simp: pipeline_entries plain_node_def effective_node_budget_def unconfigured_def answers_def
        pipeline_graph_def graph_defs step_node_def bare_def closure_def)
  moreover have "saveable env ?g x" if "x \<in> set (?s # ?states)" for x
    using that assms(2) pipeline_sizes by (auto intro!: fits_saveable[OF _ u])
  ultimately have ok: "\<forall>x \<in> set (?s # ?states). saveable env ?g x \<and>
      (\<forall>n \<in> fst ` set (db_entries pipeline_builder). plain_node ?g {x} step_output n)" by blast
  obtain w' where "run_dag (wave_job env ?g ''pipeline_1'' None merge_pipeline sched) ?s 0 (fresh_world x y', d) =
      Some (Inr (last (?s # ?states)), (w', d\<lparr>dag_nodes := map (\<lambda>n. n\<lparr>dn_status := NodeStatus.Done\<rparr>) (dag_nodes d)\<rparr>))"
    using built_dag_runs[OF assms(1) pipeline_distinct b ne(1) pipeline_waves g ok assms(3) _ ne(2),
        of 0 "fresh_world x y'" "''pipeline_1''"] by auto
  moreover have "pipeline_steps \<noteq> []" by (simp add: pipeline_steps_def Let_def)
  ultimately show ?thesis by (auto simp: dag_builder_main_def b wave_job_def last_map)
qed

text \<open>C39: the program \<open>dag_builder.rs\<close>: its five nodes run once each and all end Done, whatever the
  scheduling, but it prints 23 steps: every node's output contains the state its wave was given, and the
  merge appends it to that state once more. The step of the node that ran first is in the result twelve
  times.\<close>

theorem dag_builder_steps:
  assumes "uuids_fresh env" and "\<forall>p. length p \<le> 23 \<longrightarrow> fits env \<lparr>pl_steps = p\<rparr>" and "permutes_tasks sched"
  shows "\<exists>s w d. dag_builder_main env sched x y = Some (Inr s, (w, d)) \<and>
     (\<forall>n \<in> set (dag_nodes d). dn_status n = NodeStatus.Done) \<and> length (pl_steps s) = 23 \<and>
     map (count_list (pl_steps s)) [''fetch'', ''parse'', ''score'', ''rank'', ''merge''] = [12, 6, 2, 2, 1]"
proof -
  have "length (last pipeline_steps) = 23 \<and> map (count_list (last pipeline_steps))
      [''fetch'', ''parse'', ''score'', ''rank'', ''merge''] = [12, 6, 2, 2, 1]"
    by (simp add: pipeline_steps_def Let_def)
  with pipeline_runs[OF assms] show ?thesis by fastforce
qed

fun json_strings :: "json \<Rightarrow> string list" where
  "json_strings (JArray vs) = map (\<lambda>v. case v of JString s \<Rightarrow> s | _ \<Rightarrow> []) vs"
| "json_strings _ = []"

definition pipeline_env :: "PipelineState env" where
  "pipeline_env = coded_env (\<lambda>s. JArray (map JString (pl_steps s))) (\<lambda>v. \<lparr>pl_steps = json_strings v\<rparr>)"

theorem dag_builder_steps_witness:
  "\<exists>s w d. dag_builder_main pipeline_env reversing (0 :: nat) sample_sys = Some (Inr s, (w, d)) \<and>
     length (pl_steps s) = 23"
proof -
  have "fits pipeline_env \<lparr>pl_steps = p\<rparr>" for p
    unfolding pipeline_env_def by (rule coded_env_fits) (simp add: comp_def)
  moreover have "uuids_fresh pipeline_env" unfolding pipeline_env_def by (rule coded_env_fresh)
  ultimately show ?thesis
    using dag_builder_steps[OF _ _ reversing_permutes, of pipeline_env "0 :: nat" sample_sys] by blast
qed

section \<open>parallel\_nodes.rs\<close>

record ParallelState =
  executed :: "string list"

definition merge_parallel :: "ParallelState Merge" where
  "merge_parallel s other = s\<lparr>executed := executed s @ executed other\<rparr>"

definition log_node :: "string \<Rightarrow> (ParallelState, 'x) node" where
  "log_node name = bare (\<lambda>s. s\<lparr>executed := executed s @ [name]\<rparr>)"

definition parallel_graph :: "(ParallelState, 'x) graph" where
  "parallel_graph = add_node ''Extract'' (log_node ''Extract Node'')
     (add_node ''Navigate'' (log_node ''Navigate Node'') graph_new)"

definition parallel_dag :: "ParallelState env \<Rightarrow> sys \<Rightarrow> DAG \<times> sys" where
  "parallel_dag env y =
     (let (id_a, y) = new_v4 env y; (id_b, y) = new_v4 env y; (i, y) = new_v4 env y; (t, y) = utc_now env y
      in (\<lparr>dag_id = i,
            dag_nodes = [\<lparr>dn_id = id_a, dn_step_type = ''Navigate'', dn_depends_on = [], dn_status = NodeStatus.Pending\<rparr>,
              \<lparr>dn_id = id_b, dn_step_type = ''Extract'', dn_depends_on = [], dn_status = NodeStatus.Pending\<rparr>],
            dag_created_at = t\<rparr>, y))"

definition parallel_nodes :: "ParallelState env \<Rightarrow> scheduler \<Rightarrow> 'x \<Rightarrow> sys \<Rightarrow>
    (TakelnError, ParallelState, ('x, mem_store) world \<times> DAG) outcome" where
  "parallel_nodes env sched x y = (case parallel_dag env y of (d, y) \<Rightarrow>
     run_dag \<lparr>dj_env = env, dj_graph = parallel_graph, dj_ck = memory_checkpointer env,
         dj_thread_id = ''thread_parallel_ex'', dj_token = None, dj_merge = merge_parallel, dj_sched = sched\<rparr>
       \<lparr>executed = []\<rparr> 0 (fresh_world x y, d))"

text \<open>Whichever of the two ends first, the result has them in the order of the DAG.\<close>

lemma parallel_nodes_executes:
  fixes x :: 'x
  assumes "\<forall>p. length p \<le> 2 \<longrightarrow> fits env \<lparr>executed = p\<rparr>" and "permutes_tasks sched"
  shows "\<exists>wd. parallel_nodes env sched x y = Some (Inr \<lparr>executed = [''Navigate Node'', ''Extract Node'']\<rparr>, wd)"
proof -
  let ?g = "parallel_graph :: (ParallelState, 'x) graph" and ?s = "\<lparr>executed = []\<rparr>"
  let ?s' = "\<lparr>executed = [''Navigate Node'', ''Extract Node'']\<rparr>"
  let ?F = "\<lambda>n s. node_output_bare (s\<lparr>executed := executed s @ [n @ '' Node'']\<rparr>)"
  obtain d y' where d: "parallel_dag env y = (d, y')" by fastforce
  define d' where d': "d' = set_statuses NodeStatus.Done [0, Suc 0] d"
  let ?node = "\<lambda>i n st. \<lparr>dn_id = i, dn_step_type = n, dn_depends_on = [], dn_status = st\<rparr>"
  obtain a b where ns: "dag_nodes d = [?node a ''Navigate'' NodeStatus.Pending, ?node b ''Extract'' NodeStatus.Pending]"
    using d by (auto simp: parallel_dag_def split: prod.splits)
  have len: "length (dag_nodes d) = 2" by (simp add: ns)
  have "[0..<2] = [0, Suc 0]" by (simp add: numeral_2_eq_2)
  then have r: "ready_wave c d = [0, Suc 0]" for c unfolding ready_wave_def len by (simp add: ns)
  have st: "step_type_at d 0 = ''Navigate''" "step_type_at d (Suc 0) = ''Extract''" by (simp_all add: ns step_type_at_def)
  have ended: "\<forall>n \<in> set (dag_nodes d'). dn_status n = NodeStatus.Done"
    by (simp add: d' ns set_statuses_def set_node_status_def)
  have r': "ready_wave c d' = []" for c
    using ended by (force simp: ready_wave_def filter_empty_conv)
  have m: "wave_merge merge_parallel (plain_out ?F) d [0, Suc 0] ?s = ?s'"
    by (simp add: wave_merge_def st merge_parallel_def node_output_bare_def)
  have w: "ref_waves merge_parallel (plain_out ?F) (length (dag_nodes d)) d ?s = [(?s', d')]"
    by (simp add: len numeral_2_eq_2 r r' m[simplified] d'[simplified, symmetric] Let_def)
  have u: "unconfigured ?g" by (simp add: unconfigured_def parallel_graph_def graph_defs)
  have fits: "saveable env ?g ?s" "saveable env ?g ?s'" using assms(1) by (auto intro!: fits_saveable[OF _ u])
  have nodes: "plain_node ?g S ?F n" if "n \<in> {''Navigate'', ''Extract''}" for n S
    using that u by (auto simp: plain_node_def effective_node_budget_def unconfigured_def answers_def
        parallel_graph_def graph_defs log_node_def bare_def closure_def)
  have plain: "plain_dag env ?g merge_parallel {(d, ?s), (d', ?s')} ?F"
    using u fits nodes by (auto simp: plain_dag_def Let_def r r' m st d'[simplified, symmetric] unconfigured_def
        resource_limits_default_def saveable_def)
  have lim: "length (dag_nodes d) \<le> max_dag_nodes (g_resource_limits ?g)"
    using u by (simp add: len unconfigured_def resource_limits_default_def)
  have "(?s', d') = last ((?s, d) # [(?s', d')])" by simp
  from run_dag_plain[OF plain _ assms(2) _ lim _ _ w[symmetric] this, of 0 "fresh_world x y'" "''thread_parallel_ex''"] fits
  show ?thesis using ended
    by (fastforce simp: parallel_nodes_def d wave_job_def saveable_def ref_outcome_def types_with_def Let_def filter_empty_conv)
qed

end
