(* ===== verification/Run_Failures.thy ===== *)
theory Run_Failures
  imports Step_Properties
begin

text \<open>
  Runs that fail after some nodes have succeeded: what the thread holds then, and what a resumption
  makes of it.
\<close>

section \<open>A node that fails\<close>

text \<open>The error of a run whose node gives \<open>e\<close>; a yield is not a failure.\<close>

fun node_failure :: "string \<Rightarrow> GraphError \<Rightarrow> TakelnError option" where
  "node_failure n (Retryable msg) =
     Some (ExecutionError (''Node '' @ n @ '' failed (retryable) after max attempts: '' @ msg))"
| "node_failure n (Fatal msg) = Some (ExecutionError (''Node '' @ n @ '' failed fatally: '' @ msg))"
| "node_failure n (GBudgetExceeded spent limit) = Some (BudgetExceeded spent limit)"
| "node_failure n (YieldInDynamicNode i) =
     Some (ExecutionError (''HITL yield inside dynamic node is not supported (node: '' @ quoted n @
       '', interrupt: '' @ quoted i @ ''). Move the yielding node to a top-level graph node.''))"
| "node_failure n (Yield request) = None"

lemma failed_result:
  assumes "node_failure (q_current q) e = Some err"
  shows "\<exists>w'. seq_result j q t a (Inl e) w = Some (Inl err, w') \<and> w_store w' = w_store w"
  using assms quiet_store[OF seq_report_failure_quiet] by (cases e) auto

lemma failed_step:
  assumes "answers (j_graph j) (q_current q) (q_input q) (q_state q) (Inl e)" and "j_token j = None"
    and "node_failure (q_current q) e = Some err" and "\<And>msg. e \<noteq> Retryable msg"
    and "q_current q \<noteq> end_node" and "q_first q \<or> q_current q \<notin> g_interrupt_before (j_graph j)"
    and "q_step_count q < max_sequential_steps (g_resource_limits (j_graph j))"
  shows "\<exists>w'. seq_step j q w = Some (Inl err, w') \<and> w_store w' = w_store w"
proof -
  let ?q = "q\<lparr>q_step_count := Suc (q_step_count q), q_first := False\<rparr>"
  have "\<exists>t w'. seq_execute j ?q w = seq_result j (?q\<lparr>q_input := None\<rparr>) t 0 (Inl e) w' \<and> quiet w w'"
    by (rule answered_execute) (use assms(1,2,4) in simp_all)
  then obtain t w2 where x: "seq_execute j ?q w = seq_result j (?q\<lparr>q_input := None\<rparr>) t 0 (Inl e) w2"
    and q2: "quiet w w2" by auto
  from failed_result[of "?q\<lparr>q_input := None\<rparr>" e err j t 0 w2] assms(3) obtain w' where
    "seq_result j (?q\<lparr>q_input := None\<rparr>) t 0 (Inl e) w2 = Some (Inl err, w')" "w_store w' = w_store w2" by auto
  with x quiet_store[OF q2] assms(5-7) show ?thesis by (auto simp: seq_step_def Let_def)
qed

section \<open>A node that breaks the budget\<close>

lemma overspent_step:
  assumes "answers (j_graph j) (q_current q) (q_input q) (q_state q) (Inr out)" and "j_token j = None"
    and "spent = fadd (q_running_cost q) (cost_or_zero (no_meta out))"
    and "g_budget_eur (j_graph j) = Some b" and "fgt spent b"
    and "effective_node_budget (j_graph j) (q_current q) = None"
    and "q_current q \<noteq> end_node" and "q_first q \<or> q_current q \<notin> g_interrupt_before (j_graph j)"
    and "q_step_count q < max_sequential_steps (g_resource_limits (j_graph j))"
  shows "\<exists>w'. seq_step j q w = Some (Inl (BudgetExceeded spent b), w') \<and> w_store w' = w_store w"
proof -
  let ?q = "q\<lparr>q_step_count := Suc (q_step_count q), q_first := False\<rparr>"
  have "\<exists>t w'. seq_execute j ?q w = seq_result j (?q\<lparr>q_input := None\<rparr>) t 0 (Inr out) w' \<and> quiet w w'"
    by (rule answered_execute) (use assms(1,2) in simp_all)
  then obtain t w2 where x: "seq_execute j ?q w = seq_success j (?q\<lparr>q_input := None\<rparr>) t 0 out w2"
    and q2: "quiet w w2" by auto
  obtain ms w3 where e: "elapsed_ms (j_env j) t w2 = (ms, w3)" by fastforce
  have "\<exists>w'. seq_success j (?q\<lparr>q_input := None\<rparr>) t 0 out w2 = Some (Inl (BudgetExceeded spent b), w') \<and>
      w_store w' = w_store w3"
    by (simp add: seq_success_def e seq_node_budget_def assms(4-6) seq_run_budget_def Let_def assms(3)[symmetric])
  with x quiet_store[OF quiet_trans[OF q2 elapsed_ms_quiet[OF e]]] assms(7-9) show ?thesis by (auto simp: seq_step_def Let_def)
qed

section \<open>Runs\<close>

text \<open>
  A run that follows a path to a node at which its step fails and saves nothing, and the resumption of
  the thread with a graph in which a path from that node leads to the end.
\<close>

lemma stopped_run_resumes:
  assumes "passes (saveable env g) g F start s hops" and "(s', n) = last ((s, start) # hops)" and "hops \<noteq> []"
    and "0 < max_execution_records (g_resource_limits g)" and "n \<notin> g_interrupt_before g"
    and "length hops < max_sequential_steps (g_resource_limits g)" and "\<not> ms_poisoned (w_store w)"
    and "affordable (g_budget_eur g) F (Fin 0) start s hops"
    and "\<forall>v. e_to_value env s' = Inr v \<longrightarrow> e_from_value env v = Inr s'"
    and "passes (saveable env g') g' F' n s' rest" and "last ((s', n) # rest) = (final, end_node)"
    and "affordable (g_budget_eur g') F' (Fin 0) n s' rest" and "0 < max_execution_records (g_resource_limits g')"
    and "length rest < max_sequential_steps (g_resource_limits g')"
    and "\<And>q w1. q_state q = s' \<Longrightarrow> q_current q = n \<Longrightarrow> q_input q = None \<Longrightarrow>
       q_running_cost q = path_cost F (Fin 0) start s hops \<Longrightarrow>
       q_step_count q < max_sequential_steps (g_resource_limits g) \<Longrightarrow>
       \<exists>w2. seq_step (run_job env g t None None) q w1 = Some (Inl err, w2) \<and> w_store w2 = w_store (w1 :: ('x, mem_store) world)"
  shows "\<exists>w1 w2 cs. run env g (memory_checkpointer env) t s start None w = Some (Inl err, w1) \<and>
     mem_list (w_store w1) = (mem_list (w_store w))(t := mem_list (w_store w) t @ cs) \<and>
     list_all2 (checkpoint_of env) cs hops \<and>
     resume env g' (memory_checkpointer env) t None w1 = Some (Inr (Some final), w2)"
proof -
  let ?j = "run_job env g t None None"
  obtain q w0 cs where r: "run env g (memory_checkpointer env) t s start None w = seq_loop ?j q w0"
    and q: "q_state q = s'" "q_current q = n" "q_input q = None" "q_step_count q = length hops"
      "q_running_cost q = path_cost F (Fin 0) start s hops"
    and l0: "mem_list (w_store w0) = (mem_list (w_store w))(t := mem_list (w_store w) t @ cs)"
    and cs: "list_all2 (checkpoint_of env) cs hops" and np0: "\<not> ms_poisoned (w_store w0)"
    by (rule run_prefix[OF assms(1,2) _ _ assms(7,8)]) (use assms(4-6) in auto)
  from assms(15)[of q w0] q assms(6) obtain w1 where st: "seq_step ?j q w0 = Some (Inl err, w1)"
    and w1: "w_store w1 = w_store w0" by auto
  have run: "run env g (memory_checkpointer env) t s start None w = Some (Inl err, w1)"
    unfolding r by (rule seq_loop_step(2)[OF st])
  have l: "mem_list (w_store w1) = (mem_list (w_store w))(t := mem_list (w_store w) t @ cs)"
    and np: "\<not> ms_poisoned (w_store w1)" using l0 np0 w1 by simp_all
  have ne: "cs \<noteq> []" using cs assms(3) by auto
  have "checkpoint_of env (last cs) (s', n)" using list_all2_last[OF cs ne] assms(2,3) by simp
  then have c: "e_to_value env s' = Inr (mc_state (last cs))" "mc_next_node (last cs) = n"
    "mc_status (last cs) \<noteq> CheckpointStatus.Running" by (simp_all add: checkpoint_of_def)
  have lc: "last_opt (mem_list (w_store w1) t) = Some (last cs)" using l ne by (simp add: last_opt_def)
  have dec: "e_from_value env (mc_state (last cs)) = Inr s'" using assms(9) c(1) by blast
  from resume_path[OF lc np dec c(3), unfolded c(2), OF assms(10-14)] run l cs show ?thesis by blast
qed

text \<open>C19: a node that fails loses nothing of the run before it. Whatever error it gives that is not a
  yield and is not retried, the run returns that error under the name of the node and leaves the
  checkpoints of the nodes before it and no other; a resumption with a graph in which the node succeeds,
  and in which the rest of the path leads to the end, calls the failed node again in the state it was
  given and ends Ok.\<close>

theorem failed_run_resumes:
  assumes "passes (saveable env g) g F start s hops" and "(s', n) = last ((s, start) # hops)" and "hops \<noteq> []"
    and "0 < max_execution_records (g_resource_limits g)" and "n \<notin> g_interrupt_before g"
    and "length hops < max_sequential_steps (g_resource_limits g)" and "\<not> ms_poisoned (w_store w)"
    and "affordable (g_budget_eur g) F (Fin 0) start s hops"
    and "\<forall>v. e_to_value env s' = Inr v \<longrightarrow> e_from_value env v = Inr s'"
    and "passes (saveable env g') g' F' n s' rest" and "last ((s', n) # rest) = (final, end_node)"
    and "affordable (g_budget_eur g') F' (Fin 0) n s' rest" and "0 < max_execution_records (g_resource_limits g')"
    and "length rest < max_sequential_steps (g_resource_limits g')"
    and "answers g n None s' (Inl e)" and "node_failure n e = Some err" and "\<forall>msg. e \<noteq> Retryable msg"
    and "n \<noteq> end_node"
  shows "\<exists>w1 w2 cs. run env g (memory_checkpointer env) t s start None w = Some (Inl err, w1) \<and>
     mem_list (w_store w1) = (mem_list (w_store w))(t := mem_list (w_store w) t @ cs) \<and>
     list_all2 (checkpoint_of env) cs hops \<and>
     resume env g' (memory_checkpointer env) t None w1 = Some (Inr (Some final), w2)"
proof (rule stopped_run_resumes[OF assms(1-14)])
  show "\<exists>w2. seq_step (run_job env g t None None) q w1 = Some (Inl err, w2) \<and> w_store w2 = w_store w1"
    if "q_state q = s'" "q_current q = n" "q_input q = None"
      "q_step_count q < max_sequential_steps (g_resource_limits g)" for q and w1 :: "('b, mem_store) world"
    by (rule failed_step) (use that assms(5,15-18) in \<open>auto simp: run_job_def\<close>)
qed

definition broken_graph :: "(nat, nat) graph" where
  "broken_graph = add_node ''b'' (\<lambda>ctx s x. (Ready 0 (Inl (Fatal ''no'')), x)) (sample_graph 5)"

theorem failed_run_resumes_witness:
  "\<exists>w1 w2 c. run sample_env broken_graph (memory_checkpointer sample_env) ''t'' 0 ''a'' None (sample_world 0 mem_new) =
       Some (Inl (ExecutionError ''Node b failed fatally: no''), w1) \<and> mem_list (w_store w1) ''t'' = [c] \<and>
     resume sample_env (sample_graph 5) (memory_checkpointer sample_env) ''t'' None w1 = Some (Inr (Some 2), w2)"
proof -
  let ?b = "broken_graph" and ?g = "sample_graph 5"
  have p: "passes (saveable sample_env ?b) ?b sample_output ''a'' 0 [(1, ''b'')]"
    "passes (saveable sample_env ?g) ?g sample_output ''b'' 1 [(2, end_node)]"
    using sample_sizes[of 1] sample_sizes[of 2] sample_enc
    by (simp_all add: plain_node_def answers_def saveable_def broken_graph_def sample_graph_simps)
  have l: "(1, ''b'') = last ((0 :: nat, ''a'') # [(1, ''b'')])" "[(1 :: nat, ''b'')] \<noteq> []"
    "last ((1 :: nat, ''b'') # [(2, end_node)]) = (2, end_node)" by simp_all
  have b: "0 < max_execution_records (g_resource_limits ?b)" "''b'' \<notin> g_interrupt_before ?b"
    "length [(1 :: nat, ''b'')] < max_sequential_steps (g_resource_limits ?b)"
    "affordable (g_budget_eur ?b) sample_output (Fin 0) ''a'' 0 [(1, ''b'')]"
    by (simp_all add: broken_graph_def sample_graph_simps)
  have g: "affordable (g_budget_eur ?g) sample_output (Fin 0) ''b'' 1 [(2, end_node)]"
    "0 < max_execution_records (g_resource_limits ?g)"
    "length [(2 :: nat, end_node)] < max_sequential_steps (g_resource_limits ?g)"
    by (simp_all add: sample_graph_simps)
  have m: "\<not> ms_poisoned (w_store (sample_world (0 :: nat) mem_new))" "mem_list mem_new ''t'' = []"
    by (simp_all add: sample_world_def mem_new_def mem_list_def)
  have d: "\<forall>v. e_to_value sample_env 1 = Inr v \<longrightarrow> e_from_value sample_env v = Inr 1"
    by (simp add: sample_env_def)
  have f: "answers ?b ''b'' None 1 (Inl (Fatal ''no''))" "\<forall>msg. Fatal ''no'' \<noteq> Retryable msg" "''b'' \<noteq> end_node"
    "node_failure ''b'' (Fatal ''no'') = Some (ExecutionError ''Node b failed fatally: no'')"
    by (simp_all add: answers_def broken_graph_def sample_graph_simps)
  from failed_run_resumes[OF p(1) l(1,2) b(1-3) m(1) b(4) d p(2) l(3) g f(1,4,2,3), of "''t''"] m(2)
  show ?thesis by (fastforce simp: sample_world_def list_all2_Cons2)
qed

text \<open>C20: a run whose accumulated cost passes the budget of the graph at some node returns
  BudgetExceeded with that cost; the checkpoints are those of the nodes before it, and the output that
  was paid for is lost. The budget is one of the run, not of the thread: a resumption with the same graph
  starts at no cost, calls the node again and ends Ok if the rest of the path alone is within the
  budget.\<close>

theorem overspent_run_resumes:
  assumes "passes (saveable env g) g F start s hops" and "(s', n) = last ((s, start) # hops)" and "hops \<noteq> []"
    and "0 < max_execution_records (g_resource_limits g)" and "n \<notin> g_interrupt_before g"
    and "length hops < max_sequential_steps (g_resource_limits g)" and "\<not> ms_poisoned (w_store w)"
    and "affordable (g_budget_eur g) F (Fin 0) start s hops"
    and "\<forall>v. e_to_value env s' = Inr v \<longrightarrow> e_from_value env v = Inr s'"
    and "passes (saveable env g) g F n s' rest" and "last ((s', n) # rest) = (final, end_node)" and "rest \<noteq> []"
    and "affordable (g_budget_eur g) F (Fin 0) n s' rest" and "length rest < max_sequential_steps (g_resource_limits g)"
    and "spent = fadd (path_cost F (Fin 0) start s hops) (cost_or_zero (no_meta (F n s')))"
    and "g_budget_eur g = Some b" and "fgt spent b"
  shows "\<exists>w1 w2 cs. run env g (memory_checkpointer env) t s start None w = Some (Inl (BudgetExceeded spent b), w1) \<and>
     mem_list (w_store w1) = (mem_list (w_store w))(t := mem_list (w_store w) t @ cs) \<and>
     list_all2 (checkpoint_of env) cs hops \<and>
     resume env g (memory_checkpointer env) t None w1 = Some (Inr (Some final), w2)"
proof (rule stopped_run_resumes[OF assms(1-11,13,4,14)])
  obtain h hops' where "rest = h # hops'" using assms(12) by (cases rest) auto
  with assms(10) have n: "n \<noteq> end_node" "plain_node g {s'} F n" by (cases h; simp)+
  show "\<exists>w2. seq_step (run_job env g t None None) q w1 = Some (Inl (BudgetExceeded spent b), w2) \<and>
      w_store w2 = w_store w1"
    if "q_state q = s'" "q_current q = n" "q_input q = None" "q_running_cost q = path_cost F (Fin 0) start s hops"
      "q_step_count q < max_sequential_steps (g_resource_limits g)" for q and w1 :: "('b, mem_store) world"
    by (rule overspent_step[where out = "F n s'"])
       (use that n assms(5,15-17) in \<open>simp_all add: run_job_def plain_node_def\<close>)
qed

text \<open>Two nodes that cost one euro each, and a budget of one.\<close>

definition paid_output :: "string \<Rightarrow> nat \<Rightarrow> nat NodeOutput" where
  "paid_output n s = (sample_output n s)\<lparr>no_meta := node_meta_default\<lparr>nm_cost_eur := Some (Fin 1)\<rparr>\<rparr>"

definition paid_graph :: "(nat, nat) graph" where
  "paid_graph = set_budget_eur (Fin 1) (add_node ''a'' (\<lambda>ctx s x. (Ready 0 (Inr (paid_output ''a'' s)), x))
     (add_node ''b'' (\<lambda>ctx s x. (Ready 0 (Inr (paid_output ''b'' s)), x)) (sample_graph 5)))"

lemma round64_small: "round64 1 = Fin 1" "round64 2 = Fin 2"
proof -
  have "quotient_of 1 = (1, 1)" "quotient_of 2 = (2, 1)" by code_simp+
  then have "ilog2 1 = 0" "ilog2 2 = 1" by (simp_all add: ilog2_def ilog2_nat.simps pow2_def)
  then show "round64 1 = Fin 1" "round64 2 = Fin 2"
    by (simp_all add: round64_def pow2_def round_half_even_def Let_def)
qed

theorem overspent_run_resumes_witness:
  "\<exists>w1 w2 c. run sample_env paid_graph (memory_checkpointer sample_env) ''t'' 0 ''a'' None (sample_world 0 mem_new) =
       Some (Inl (BudgetExceeded (Fin 2) (Fin 1)), w1) \<and> mem_list (w_store w1) ''t'' = [c] \<and>
     resume sample_env paid_graph (memory_checkpointer sample_env) ''t'' None w1 = Some (Inr (Some 2), w2)"
proof -
  let ?g = "paid_graph"
  have p: "passes (saveable sample_env ?g) ?g paid_output ''a'' 0 [(1, ''b'')]"
    "passes (saveable sample_env ?g) ?g paid_output ''b'' 1 [(2, end_node)]"
    using sample_sizes[of 1] sample_sizes[of 2] sample_enc
    by (simp_all add: plain_node_def answers_def saveable_def paid_graph_def paid_output_def set_budget_eur_def
        sample_graph_simps)
  have l: "(1, ''b'') = last ((0 :: nat, ''a'') # [(1, ''b'')])" "[(1 :: nat, ''b'')] \<noteq> []"
    "last ((1 :: nat, ''b'') # [(2, end_node)]) = (2, end_node)" "[(2 :: nat, end_node)] \<noteq> []" by simp_all
  have b: "0 < max_execution_records (g_resource_limits ?g)" "''b'' \<notin> g_interrupt_before ?g"
    "length [(1 :: nat, ''b'')] < max_sequential_steps (g_resource_limits ?g)"
    "length [(2 :: nat, end_node)] < max_sequential_steps (g_resource_limits ?g)" "g_budget_eur ?g = Some (Fin 1)"
    by (simp_all add: paid_graph_def set_budget_eur_def sample_graph_simps)
  have c: "cost_or_zero (no_meta (paid_output n s)) = Fin 1" for n s
    by (simp add: paid_output_def cost_or_zero_def)
  have aff: "affordable (g_budget_eur ?g) paid_output (Fin 0) ''a'' 0 [(1, ''b'')]"
    "affordable (g_budget_eur ?g) paid_output (Fin 0) ''b'' 1 [(2, end_node)]"
    by (simp_all add: b(5) c cost_within_def round64_small)
  have sp: "Fin 2 = fadd (path_cost paid_output (Fin 0) ''a'' 0 [(1, ''b'')]) (cost_or_zero (no_meta (paid_output ''b'' 1)))"
    "fgt (Fin 2) (Fin 1)" by (simp_all add: c round64_small)
  have m: "\<not> ms_poisoned (w_store (sample_world (0 :: nat) mem_new))" "mem_list mem_new ''t'' = []"
    by (simp_all add: sample_world_def mem_new_def mem_list_def)
  have d: "\<forall>v. e_to_value sample_env 1 = Inr v \<longrightarrow> e_from_value sample_env v = Inr 1"
    by (simp add: sample_env_def)
  from overspent_run_resumes[OF p(1) l(1,2) b(1-3) m(1) aff(1) d p(2) l(3,4) aff(2) b(4) sp(1) b(5) sp(2), of "''t''"] m(2)
  show ?thesis by (fastforce simp: sample_world_def list_all2_Cons2)
qed

end
