(* ===== verification/Store_Runs.thy ===== *)
theory Store_Runs
  imports Hitl_Properties
begin

text \<open>
  Runs, crash recovery and human in the loop over any store that keeps the contract of a
  checkpointer: what the properties of the in-memory store say, with the thread's journal in place of
  its list of checkpoints. The lemmas are proved once in the interface \<open>journal_runner\<close>; the theory
  \<open>Sql_Journals\<close> interprets it on the SQL stores.
\<close>

text \<open>The entry records a hop of the abstract run: the state after it and the name of the next node.\<close>

definition journal_hop :: "('s \<Rightarrow> TakelnError + 'v) \<Rightarrow> 'v journal_entry \<Rightarrow> 's \<times> string \<Rightarrow> bool" where
  "journal_hop enc e h \<longleftrightarrow> je_status e = CheckpointStatus.Complete \<and>
     enc (fst h) = Inr (je_state e) \<and> je_next_node e = snd h"

text \<open>The entry waits for the answer to the request.\<close>

definition entry_waits :: "string \<Rightarrow> YieldRequest \<Rightarrow> 'v journal_entry \<Rightarrow> bool" where
  "entry_waits i request e \<longleftrightarrow> je_status e = CheckpointStatus.Yielded \<and>
     je_yield_request e = Some request \<and> yr_interrupt_id request = i"

lemma entry_waits_awaits: "entry_waits i request e \<Longrightarrow> awaits i e"
  by (auto simp: entry_waits_def awaits_def)

lemma claim_entry_sel [simp]:
  "je_checkpoint_id (claim_entry i e) = je_checkpoint_id e" "je_state (claim_entry i e) = je_state e"
  "je_next_node (claim_entry i e) = je_next_node e" "je_dag (claim_entry i e) = je_dag e"
  "je_yield_request (claim_entry i e) = je_yield_request e"
  "je_resolved_interrupt (claim_entry i e) = je_resolved_interrupt e"
  by (simp_all add: claim_entry_def)

lemma meta_of_sel [simp]:
  "cm_status (meta_of t e) = je_status e" "cm_next_node (meta_of t e) = je_next_node e"
  "cm_claimed_interrupt (meta_of t e) = je_claimed_interrupt e"
  "cm_yield_request (meta_of t e) = je_yield_request e"
  by (simp_all add: meta_of_def)

lemma audit_quiet:
  assumes "0 < max_execution_records (g_resource_limits g)"
  shows "\<exists>w'. audit_resume env g t i meta rctx hash w = Some (Inr (), w') \<and> quiet w w'"
proof -
  obtain tm w1 where c: "read_clock env w = (tm, w1)" by fastforce
  let ?w = "observe (OResume \<lparr>rr_interrupt_id = i, rr_thread_id = t, rr_node_name = cm_next_node meta,
      rr_actor = rc_actor rctx, rr_resumed_at = tm, rr_response_hash = hash\<rparr>) w1"
  obtain u w2 where p: "push_record (max_execution_records (g_resource_limits g))
      \<lparr>er_node_name = cm_next_node meta, er_started_at = tm, er_duration_ms = 0,
       er_status = ''resumed'', er_cost_eur = None, er_checkpoint_id = Some (cm_checkpoint_id meta),
       er_attempts = 0, er_actor = rc_actor rctx, er_response_hash = Some hash, er_tokens_in = None,
       er_tokens_out = None\<rparr> ?w = Some (Inr u, w2)"
    using assms by (simp add: push_record_def evict_pos)
  have "quiet w w2" using quiet_trans[OF read_clock_quiet[OF c]] push_record_quiet[OF p] by simp
  with p show ?thesis by (simp add: audit_resume_def c)
qed

context journal_runner
begin

abbreviation runner_job :: "'s env \<Rightarrow> ('s, 'x) graph \<Rightarrow> string \<Rightarrow> string option \<Rightarrow> ('s, 'x, 'st) job" where
  "runner_job env g t resolved \<equiv> resume_job env g ck t None resolved"

lemma runner_job_sel [simp]:
  "j_env (runner_job env g t resolved) = env" "j_graph (runner_job env g t resolved) = g"
  "j_ck (runner_job env g t resolved) = ck" "j_thread_id (runner_job env g t resolved) = t"
  "j_token (runner_job env g t resolved) = None"
  "j_resolved_interrupt (runner_job env g t resolved) = resolved"
  by (simp_all add: resume_job_def)

lemma logs_hops:
  assumes "logs j es hops"
  shows "list_all2 (journal_hop enc) es hops"
    and "\<forall>e \<in> set es. je_resolved_interrupt e = j_resolved_interrupt j"
proof -
  show "list_all2 (journal_hop enc) es hops"
    using assms unfolding logs_def
    by (rule list_all2_mono) (auto simp: complete_entry_def journal_hop_def)
  show "\<forall>e \<in> set es. je_resolved_interrupt e = j_resolved_interrupt j"
    using assms by (induction es hops rule: list_induct2') (auto simp: logs_def complete_entry_def)
qed

lemma inner_run:
  assumes "usable (store_at w)" and "plain_graph env g N S F" and "\<forall>n. \<forall>s \<in> S n. \<exists>v. enc s = Inr v"
    and "start \<in> insert end_node N" and "s \<in> S start"
    and "ref_run (plain_hop g F) (max_sequential_steps (g_resource_limits g)) start s = (result, hops)"
  shows "\<exists>w' es. run_inner (runner_job env g t resolved) s start None w =
       Some (ref_result (max_sequential_steps (g_resource_limits g)) result, w') \<and>
     appended t es (store_at w) (store_at w') \<and> list_all2 (journal_hop enc) es hops"
proof -
  from plain_run[of "runner_job env g t resolved" w N S F start s, simplified, OF assms(1,2,3) _ assms(5) refl]
    assms(4,6)
  obtain w' es where "run_inner (runner_job env g t resolved) s start None w =
      Some (ref_result (max_sequential_steps (g_resource_limits g)) result, w')"
    "appended t es (store_at w) (store_at w')" "logs (runner_job env g t resolved) es hops" by auto
  with logs_hops(1) show ?thesis by blast
qed

text \<open>A run appends the hops of the abstract run to its thread.\<close>

lemma run_journal:
  assumes "usable (store_at w)" and "plain_graph env g N S F" and "\<forall>n. \<forall>s \<in> S n. \<exists>v. enc s = Inr v"
    and "start \<in> insert end_node N" and "s \<in> S start"
    and "ref_run (plain_hop g F) (max_sequential_steps (g_resource_limits g)) start s = (result, hops)"
  shows "\<exists>w' es. run env g ck t s start None w =
       Some (ref_result (max_sequential_steps (g_resource_limits g)) result, w') \<and>
     usable (store_at w') \<and>
     journal (w_store w') = (journal (w_store w))(t := journal (w_store w) t @ es) \<and>
     list_all2 (journal_hop enc) es hops"
proof -
  have "usable (store_at (w\<lparr>w_last_head := None\<rparr>))" using assms(1) by simp
  from inner_run[OF this assms(2-6), of t None] show ?thesis
    by (fastforce simp: run_def resume_job_def appended_def)
qed

lemma resume_journal:
  assumes "usable (store_at w)" and "plain_graph env g N S F"
    and "\<forall>n. \<forall>s \<in> S n. \<exists>v. enc s = Inr v \<and> dec v = Inr s"
    and "start \<in> insert end_node N" and "s \<in> S start"
    and "ref_run (plain_hop g F) (max_sequential_steps (g_resource_limits g)) start s = (Some final, hops)"
    and "k < length hops" and "last_opt (journal (w_store w) t) = Some e" and "journal_hop enc e (hops ! k)"
  shows "\<exists>w' es. resume env g ck t None w = Some (Inr (Some final), w') \<and> usable (store_at w') \<and>
     journal (w_store w') = (journal (w_store w))(t := journal (w_store w) t @ es) \<and>
     list_all2 (journal_hop enc) es (drop (Suc k) hops)"
proof -
  let ?L = "max_sequential_steps (g_resource_limits g)"
  obtain s' n' where h: "hops ! k = (s', n')" by fastforce
  have mem: "(s', n') \<in> set (snd (ref_run (plain_hop g F) ?L start s))"
    using assms(6,7) h by (metis nth_mem snd_conv)
  from ref_run_closed[OF assms(2,4,5) mem] have s': "s' \<in> S n'" "n' \<in> insert end_node N" by auto
  have e: "je_status e = CheckpointStatus.Complete" "enc s' = Inr (je_state e)" "je_next_node e = n'"
    using assms(9) h by (simp_all add: journal_hop_def)
  have dec: "dec (je_state e) = Inr s'" using assms(3) s'(1) e(2) by fastforce
  have "ref_run (plain_hop g F) (?L - Suc k) n' s' = (Some final, drop (Suc k) hops)"
    using ref_run_suffix[of "plain_hop g F" ?L start s final k s' n'] assms(6,7) h by simp
  from ref_run_more[OF this] have ref: "ref_run (plain_hop g F) ?L n' s' = (Some final, drop (Suc k) hops)"
    by simp
  obtain st y where ld: "on_store (ck_load_state ck t) w =
       Some (Inr (Some (s', meta_of t e, je_dag e)), w\<lparr>w_store := st, w_sys := y\<rparr>)"
    and u: "usable (st, y)" and j: "journal st = journal (w_store w)"
    using load_last[OF assms(1,8) dec] by blast
  let ?w = "w\<lparr>w_store := st, w_sys := y, w_last_head := None\<rparr>"
  have enc: "\<forall>n. \<forall>s \<in> S n. \<exists>v. enc s = Inr v" using assms(3) by blast
  have "usable (store_at ?w)" using u by simp
  from inner_run[OF this assms(2) enc s'(2,1) ref, of t "je_claimed_interrupt e"]
  obtain w' es where r: "run_inner (runner_job env g t (je_claimed_interrupt e)) s' n' None ?w =
      Some (Inr final, w')"
    and a: "appended t es (st, y) (store_at w')" and hops: "list_all2 (journal_hop enc) es (drop (Suc k) hops)"
    by (auto simp: ref_result_def)
  have "resume env g ck t None w = Some (Inr (Some final), w')"
    using r by (simp add: resume_def resume_with_def ld e Let_def resume_run_def)
  with a hops j show ?thesis by (auto simp: appended_def)
qed

text \<open>
  An answer to a waiting thread: the claim marks the entry, the node that yielded runs with the
  answer, and the run goes on to its end; every entry it appends resolves the interrupt. The same
  call again gives the final state and appends nothing.
\<close>

lemma claim_waiting:
  assumes "usable (store_at w)" and "last_opt (journal (w_store w) t) = Some e"
    and "entry_waits i request e" and "\<not> resolved_in i (journal (w_store w) t)"
  shows "\<exists>st y. on_store (ck_claim_interrupt ck t i) w = Some (Inr Claimed, w\<lparr>w_store := st, w_sys := y\<rparr>) \<and>
     usable (st, y) \<and> journal st = (journal (w_store w))(t := butlast (journal (w_store w) t) @ [claim_entry i e])"
proof -
  have st: "je_status e = CheckpointStatus.Yielded" using assms(3) by (simp add: entry_waits_def)
  have "journal_claim i (journal (w_store w) t) =
      (Won, butlast (journal (w_store w) t) @ [claim_entry i e])"
    using assms(2,4) entry_waits_awaits[OF assms(3)] by (simp add: journal_claim_def st)
  with claim_spec[OF assms(1), of t i] obtain r st y where
    c: "claim t i (store_at w) = Some (r, (st, y))" "usable (st, y)" "verdict_of r = Won"
    and j: "journal st = (journal (w_store w))(t := butlast (journal (w_store w) t) @ [claim_entry i e])"
    by fastforce
  from c(3) have "r = Inr Claimed" by (cases r rule: verdict_of.cases) auto
  with c j show ?thesis by (auto simp: on_store_def claim_is)
qed

lemma answer_journal:
  assumes "usable (store_at w)" and "last_opt (journal (w_store w) t) = Some e"
    and "entry_waits i request e" and "\<not> resolved_in i (journal (w_store w) t)"
    and "yr_resume_mode request = ReEntry" and "input_ok env i input request" and "dec (je_state e) = Inr s"
    and "answers g (je_next_node e) (Some input) s (Inr out)"
    and "effective_node_budget g (je_next_node e) = None"
    and "je_next_node e \<notin> g_interrupt_after g" and "je_next_node e \<noteq> end_node"
    and "plain_graph env g N S F" and "\<forall>n. \<forall>s \<in> S n. \<exists>v. enc s = Inr v"
    and "no_state out \<in> S n" and "n = resolve_next_node g (je_next_node e) out" and "n \<in> insert end_node N"
    and "max_sequential_steps (g_resource_limits g) = Suc fuel"
    and "ref_run (plain_hop g F) fuel n (no_state out) = (Some final, hops)"
  shows "\<exists>w' es. resume_with_input env g ck t i input rctx None w = Some (Inr (Some final), w') \<and>
     usable (store_at w') \<and> journal (w_store w') = (journal (w_store w))(t :=
        butlast (journal (w_store w) t) @ claim_entry i e # es) \<and>
     list_all2 (journal_hop enc) es ((no_state out, n) # hops) \<and>
     (\<forall>e \<in> set es. je_resolved_interrupt e = Some i)"
proof -
  let ?J = "journal (w_store w)" and ?e = "claim_entry i e" and ?gate = "je_next_node e"
  obtain st y where cl: "on_store (ck_claim_interrupt ck t i) w = Some (Inr Claimed, w\<lparr>w_store := st, w_sys := y\<rparr>)"
    and u: "usable (st, y)" and j: "journal st = ?J(t := butlast (?J t) @ [?e])"
    using claim_waiting[OF assms(1-4)] by blast
  let ?w1 = "w\<lparr>w_store := st, w_sys := y\<rparr>"
  have "usable (store_at ?w1)" "last_opt (journal (w_store ?w1) t) = Some ?e" "dec (je_state ?e) = Inr s"
    using u j assms(7) by simp_all
  from load_last[OF this] obtain st2 y2 where ld: "on_store (ck_load_state ck t) ?w1 =
       Some (Inr (Some (s, meta_of t ?e, je_dag e)), ?w1\<lparr>w_store := st2, w_sys := y2\<rparr>)"
    and u2: "usable (st2, y2)" and j2: "journal st2 = journal st" by auto
  let ?w2 = "w\<lparr>w_store := st2, w_sys := y2\<rparr>" and ?job = "runner_job env g t (Some i)"
  let ?init = "?w2\<lparr>w_last_head := None\<rparr>"
  have us: "usable (store_at ?init)" using u2 by simp
  have nx: "resolve_next_node g ?gate out \<in> insert end_node N" using assms(15,16) by simp
  from gate_run[of ?job ?init N S F ?gate "Some input" s out fuel "ref_run (plain_hop g F) fuel n (no_state out)"]
    us assms(8-12,13,14,15,17,18) nx
  obtain w3 es where r: "run_inner ?job s ?gate (Some input) ?init = Some (Inr final, w3)"
    and a: "appended t es (st2, y2) (store_at w3)" and lg: "logs ?job es ((no_state out, n) # hops)"
    by (auto simp: ref_result_def)
  have "0 < max_execution_records (g_resource_limits g)" using assms(12) by (simp add: plain_graph_def)
  from audit_quiet[OF this, of env t i "meta_of t ?e" rctx "compute_response_hash env input" w3]
  obtain w' where au: "audit_resume env g t i (meta_of t ?e) rctx (compute_response_hash env input) w3 =
      Some (Inr (), w')" and q: "quiet w3 w'" by blast
  have "run_or_revert env g ck t i None s ?gate request ?gate (Some input) ?w2 = Some (Inr final, w3)"
    using r by (simp add: run_or_revert_def)
  then have "resume_with_input env g ck t i input rctx None w = Some (Inr (Some final), w')"
    using assms(3,5) au
    by (simp add: resume_with_input_def cl ld entry_waits_def resume_claimed_eq[OF _ _ assms(6)])
  moreover have "usable (store_at w')" using usable_quiet[OF q appended_usable[OF a]] .
  moreover have "journal (w_store w') = ?J(t := butlast (?J t) @ ?e # es)"
    using a quiet_store[OF q] by (simp add: appended_def j2 j)
  ultimately show ?thesis using logs_hops[OF lg] by auto
qed

lemma answered_again:
  assumes "usable (store_at w)" and "last_opt (journal (w_store w) t) = Some e" and "dec (je_state e) = Inr s"
    and "resolved_in i (journal (w_store w) t)"
  shows "\<exists>w'. resume_with_input env g ck t i input rctx token w = Some (Inr (Some s), w') \<and>
     journal (w_store w') = journal (w_store w)"
proof -
  have "journal_claim i (journal (w_store w) t) = (Settled, journal (w_store w) t)"
    using assms(4) by (simp add: journal_claim_def)
  with claim_spec[OF assms(1), of t i] obtain r st y where
    c: "claim t i (store_at w) = Some (r, (st, y))" "usable (st, y)" "verdict_of r = Settled"
    and j: "journal st = journal (w_store w)" by fastforce
  from c(3) have "r = Inr AlreadyCompleted" by (cases r rule: verdict_of.cases) auto
  then have cl: "on_store (ck_claim_interrupt ck t i) w = Some (Inr AlreadyCompleted, w\<lparr>w_store := st, w_sys := y\<rparr>)"
    using c(1) by (simp add: on_store_def claim_is)
  let ?w = "w\<lparr>w_store := st, w_sys := y\<rparr>"
  have "usable (store_at ?w)" "last_opt (journal (w_store ?w) t) = Some e" using c(2) j assms(2) by simp_all
  from load_last[OF this assms(3)] obtain st2 y2 where "on_store (ck_load_state ck t) ?w =
       Some (Inr (Some (s, meta_of t e, je_dag e)), ?w\<lparr>w_store := st2, w_sys := y2\<rparr>)"
    and "journal st2 = journal st" by auto
  with j show ?thesis by (auto simp: resume_with_input_def cl)
qed

lemma answer_completes:
  assumes "usable (store_at w)" and "last_opt (journal (w_store w) t) = Some e"
    and "entry_waits i request e" and "\<not> resolved_in i (journal (w_store w) t)"
    and "yr_resume_mode request = ReEntry" and "input_ok env i input request" and "dec (je_state e) = Inr s"
    and "answers g (je_next_node e) (Some input) s (Inr out)"
    and "effective_node_budget g (je_next_node e) = None"
    and "je_next_node e \<notin> g_interrupt_after g" and "je_next_node e \<noteq> end_node"
    and "plain_graph env g N S F" and "\<forall>n. \<forall>s \<in> S n. \<exists>v. enc s = Inr v \<and> dec v = Inr s"
    and "no_state out \<in> S n" and "n = resolve_next_node g (je_next_node e) out" and "n \<in> insert end_node N"
    and "max_sequential_steps (g_resource_limits g) = Suc fuel"
    and "ref_run (plain_hop g F) fuel n (no_state out) = (Some final, hops)"
  shows "\<exists>w' es. resume_with_input env g ck t i input rctx None w = Some (Inr (Some final), w') \<and>
     journal (w_store w') = (journal (w_store w))(t :=
        butlast (journal (w_store w) t) @ claim_entry i e # es) \<and>
     list_all2 (journal_hop enc) es ((no_state out, n) # hops) \<and>
     (\<forall>e \<in> set es. je_resolved_interrupt e = Some i) \<and>
     (\<forall>g' input' rctx' token'. \<exists>w''.
        resume_with_input env g' ck t i input' rctx' token' w' = Some (Inr (Some final), w'') \<and>
        journal (w_store w'') = journal (w_store w'))"
proof -
  have enc: "\<forall>n. \<forall>s \<in> S n. \<exists>v. enc s = Inr v" using assms(13) by blast
  from answer_journal[OF assms(1-12) enc assms(14-18), of rctx] obtain w' es where
    r: "resume_with_input env g ck t i input rctx None w = Some (Inr (Some final), w')"
    and u: "usable (store_at w')"
    and l: "journal (w_store w') = (journal (w_store w))(t := butlast (journal (w_store w) t) @ claim_entry i e # es)"
    and lc: "list_all2 (journal_hop enc) es ((no_state out, n) # hops)"
    and rs: "\<forall>e \<in> set es. je_resolved_interrupt e = Some i" by blast
  from lc have ne: "es \<noteq> []" by auto
  have st: "enc final = Inr (je_state (last es))"
    using list_all2_last[OF lc ne] ref_run_last[OF assms(18)] by (simp add: journal_hop_def)
  from ref_run_final[OF assms(12,16,14,18)] assms(13) st have dec: "dec (je_state (last es)) = Inr final"
    by fastforce
  have lo: "last_opt (journal (w_store w') t) = Some (last es)" using l ne by (simp add: last_opt_def)
  have "resolved_in i (journal (w_store w') t)" using l ne rs by (auto simp: resolved_in_def)
  from answered_again[OF u lo dec this] r l lc rs show ?thesis by blast
qed

end

end
