(* ===== verification/Sql.thy ===== *)
theory Sql
  imports Memory_Store "HOL-Library.Product_Lexorder"
begin

text \<open>
  What \<open>src/store/sqlite.rs\<close> and \<open>src/store/postgres.rs\<close> share: the rows of the table
  \<open>takeln_checkpoints\<close>, the SQL statements of the two files as functions on the rows, and the
  decisions both make on the latest row of a thread. The database engines and \<open>serde\<close> are third
  party code, the records \<open>engine\<close> and \<open>codec\<close>: an engine may fail any statement (which then
  changes nothing), and breaks ties of \<open>ORDER BY created_at\<close> as it likes. The columns that hold
  JSON are of type \<open>'j\<close>, texts in SQLite and values in PostgreSQL, the times of type \<open>'ts\<close>.
\<close>

section \<open>Rows\<close>

record ('j, 'ts) row =
  rw_id :: string
  rw_thread_id :: string
  rw_state :: 'j
  rw_next_node :: string
  rw_dag :: "'j option"
  rw_status :: string
  rw_created_at :: 'ts
  rw_yield_request :: "'j option"
  rw_claimed_interrupt :: "string option"
  rw_resolved_interrupt :: "string option"

record ('j, 'ts) database =
  db_rows :: "('j, 'ts) row list"
  db_statements :: nat  \<comment> \<open>the number of statements executed so far\<close>

record ('j, 'ts) engine =
  en_fault :: "nat \<Rightarrow> string option"    \<comment> \<open>the failure of the n-th statement, if it fails\<close>
  en_tie :: "('j, 'ts) row \<Rightarrow> nat"     \<comment> \<open>the order of rows with equal \<open>created_at\<close>\<close>
  en_duplicate_id :: string            \<comment> \<open>the message for a violated primary key\<close>
  en_bad_limit :: string               \<comment> \<open>the message for a limit above \<open>i64::MAX\<close>\<close>

record ('s, 'j) codec =
  cd_state :: "'s \<Rightarrow> string + 'j"
  cd_read_state :: "'j \<Rightarrow> string + 's"
  cd_dag :: "DAG \<Rightarrow> string + 'j"
  cd_read_dag :: "'j \<Rightarrow> string + DAG"
  cd_request :: "YieldRequest \<Rightarrow> string + 'j"
  cd_read_request :: "'j \<Rightarrow> string + YieldRequest"

text \<open>\<open>opt.map(f).transpose()\<close>.\<close>

definition transpose_map :: "('a \<Rightarrow> string + 'b) \<Rightarrow> 'a option \<Rightarrow> string + 'b option" where
  "transpose_map f x = (case x of None \<Rightarrow> Inr None
     | Some a \<Rightarrow> (case f a of Inl e \<Rightarrow> Inl e | Inr b \<Rightarrow> Inr (Some b)))"

section \<open>Statements\<close>

text \<open>One statement: \<open>map_err\<close> puts \<open>label\<close> before the engine's message.\<close>

definition statement :: "('j, 'ts) engine \<Rightarrow> string \<Rightarrow>
    (('j, 'ts) row list \<Rightarrow> string + 'a \<times> ('j, 'ts) row list) \<Rightarrow> ('j, 'ts) database \<Rightarrow>
    (TakelnError, 'a, ('j, 'ts) database) outcome" where
  "statement eng label f db =
     (let db' = db\<lparr>db_statements := Suc (db_statements db)\<rparr> in
      case en_fault eng (db_statements db) of
        Some msg \<Rightarrow> Some (Inl (CheckpointError (label @ msg)), db')
      | None \<Rightarrow> (case f (db_rows db) of
            Inl msg \<Rightarrow> Some (Inl (CheckpointError (label @ msg)), db')
          | Inr (x, rows) \<Rightarrow> Some (Inr x, db'\<lparr>db_rows := rows\<rparr>)))"

definition reading :: "(('j, 'ts) row list \<Rightarrow> 'a) \<Rightarrow> ('j, 'ts) row list \<Rightarrow>
    string + 'a \<times> ('j, 'ts) row list" where
  "reading f rows = Inr (f rows, rows)"

text \<open>\<open>INSERT INTO takeln_checkpoints\<close>; \<open>id\<close> is the primary key.\<close>

definition insert_row :: "('j, 'ts) engine \<Rightarrow> ('j, 'ts) row \<Rightarrow> ('j, 'ts) row list \<Rightarrow>
    string + unit \<times> ('j, 'ts) row list" where
  "insert_row eng r rows =
     (if rw_id r \<in> set (map rw_id rows) then Inl (en_duplicate_id eng) else Inr ((), rows @ [r]))"

text \<open>\<open>WHERE thread_id = ? ORDER BY created_at ASC\<close>; descending, the same read backwards.\<close>

definition thread_rows :: "('j, 'ts :: linorder) engine \<Rightarrow> string \<Rightarrow> ('j, 'ts) row list \<Rightarrow>
    ('j, 'ts) row list" where
  "thread_rows eng t rows =
     sort_key (\<lambda>r. (rw_created_at r, en_tie eng r)) (filter (\<lambda>r. rw_thread_id r = t) rows)"

definition latest_row :: "('j, 'ts :: linorder) engine \<Rightarrow> string \<Rightarrow> ('j, 'ts) row list \<Rightarrow>
    ('j, 'ts) row option" where
  "latest_row eng t rows = last_opt (thread_rows eng t rows)"

definition version_row :: "string \<Rightarrow> string \<Rightarrow> ('j, 'ts) row list \<Rightarrow> ('j, 'ts) row option" where
  "version_row t checkpoint_id rows = find (\<lambda>r. rw_thread_id r = t \<and> rw_id r = checkpoint_id) rows"

definition delete_rows :: "(('j, 'ts) row \<Rightarrow> bool) \<Rightarrow> ('j, 'ts) row list \<Rightarrow>
    string + nat \<times> ('j, 'ts) row list" where
  "delete_rows P rows = Inr (length (filter P rows), filter (\<lambda>r. \<not> P r) rows)"

definition delete_but_last :: "('j, 'ts :: linorder) engine \<Rightarrow> string \<Rightarrow> nat \<Rightarrow> ('j, 'ts) row list \<Rightarrow>
    string + nat \<times> ('j, 'ts) row list" where
  "delete_but_last eng t n rows =
     (if 2 ^ 63 \<le> n then Inl (en_bad_limit eng)
      else (let kept = map rw_id (take n (rev (thread_rows eng t rows)))
            in delete_rows (\<lambda>r. rw_thread_id r = t \<and> rw_id r \<notin> set kept) rows))"

definition delete_older :: "string \<Rightarrow> 'ts :: linorder \<Rightarrow> ('j, 'ts) row list \<Rightarrow>
    string + nat \<times> ('j, 'ts) row list" where
  "delete_older t cutoff = delete_rows (\<lambda>r. rw_thread_id r = t \<and> rw_created_at r < cutoff)"

definition resolved_exists :: "string \<Rightarrow> string \<Rightarrow> ('j, 'ts) row list \<Rightarrow> bool" where
  "resolved_exists t i rows \<longleftrightarrow>
     (\<exists>r \<in> set rows. rw_thread_id r = t \<and> rw_resolved_interrupt r = Some i)"

text \<open>\<open>UPDATE .. SET status = 'Running', claimed_interrupt = ? WHERE id = (latest) AND status = 'Yielded'\<close>.\<close>

definition claim_row :: "string \<Rightarrow> ('j, 'ts) row \<Rightarrow> ('j, 'ts) row" where
  "claim_row i r = r\<lparr>rw_status := ''Running'', rw_claimed_interrupt := Some i\<rparr>"

definition claim_latest :: "('j, 'ts :: linorder) engine \<Rightarrow> string \<Rightarrow> string \<Rightarrow> ('j, 'ts) row list \<Rightarrow>
    string + nat \<times> ('j, 'ts) row list" where
  "claim_latest eng t i rows = (case latest_row eng t rows of
       None \<Rightarrow> Inr (0, rows)
     | Some l \<Rightarrow>
         (let P = (\<lambda>r. rw_id r = rw_id l \<and> rw_status r = ''Yielded'')
          in Inr (length (filter P rows), map (\<lambda>r. if P r then claim_row i r else r) rows)))"

section \<open>Decisions\<close>

fun parse_status :: "string \<Rightarrow> CheckpointStatus" where
  "parse_status s =
     (if s = ''Complete'' then CheckpointStatus.Complete
      else if s = ''Running'' then CheckpointStatus.Running
      else if s = ''Yielded'' then CheckpointStatus.Yielded
      else if s = ''Failed'' then CheckpointStatus.Failed
      else if s = ''Interrupted'' then CheckpointStatus.Interrupted
      else CheckpointStatus.Complete)"

definition not_yielded :: "string \<Rightarrow> string \<Rightarrow> TakelnError" where
  "not_yielded t status = NothingToResume (''Thread '' @ quoted t @
     '' latest checkpoint status is '' @ quoted status @ '', expected Yielded'')"

definition concurrent_claim :: "string \<Rightarrow> TakelnError" where
  "concurrent_claim t = ExecutionError (''Concurrent resume claim failed for thread '' @ quoted t)"

text \<open>What a claim answers on the latest row; \<open>None\<close> when it goes on to the update.\<close>

definition check_claim :: "('s, 'j) codec \<Rightarrow> string \<Rightarrow> string \<Rightarrow> ('j, 'ts) row option \<Rightarrow>
    (TakelnError + ClaimResult) option" where
  "check_claim cod t i latest = (case latest of
       None \<Rightarrow> Some (Inl (NothingToResume t))
     | Some r \<Rightarrow>
         (let status = parse_status (rw_status r) in
          if status = CheckpointStatus.Running \<and> rw_claimed_interrupt r = Some i
          then Some (Inr InProgress)
          else if status \<noteq> CheckpointStatus.Yielded
          then Some (Inl (if status = CheckpointStatus.Running
                 then already_running t (rw_claimed_interrupt r) else not_yielded t (rw_status r)))
          else (case rw_yield_request r of
              None \<Rightarrow> Some (Inl (no_yield_metadata t))
            | Some v \<Rightarrow> (case cd_read_request cod v of
                  Inl e \<Rightarrow> Some (Inl (DeserializationError e))
                | Inr request \<Rightarrow>
                    if yr_interrupt_id request \<noteq> i
                    then Some (Inl (wrong_interrupt (yr_interrupt_id request) i)) else None))))"

text \<open>What the columns of a row become in a \<open>CheckpointMeta\<close>.\<close>

definition row_meta :: "string \<Rightarrow> timestamp \<Rightarrow> YieldRequest option \<Rightarrow> ('j, 'ts) row \<Rightarrow> CheckpointMeta" where
  "row_meta t created_at request r = \<lparr>cm_checkpoint_id = rw_id r, cm_thread_id = t,
     cm_next_node = rw_next_node r, cm_graph_version = None, cm_state_schema_version = None,
     cm_status = parse_status (rw_status r), cm_created_at = created_at, cm_yield_request = request,
     cm_claimed_interrupt = rw_claimed_interrupt r, cm_resolved_interrupt = rw_resolved_interrupt r\<rparr>"

lemma parse_debug_status [simp]: "parse_status (debug_status st) = st"
  by (cases st) simp_all

lemma debug_status_inj [simp]: "debug_status st = debug_status st' \<longleftrightarrow> st = st'"
  by (metis parse_debug_status)

lemma parse_status_Yielded [simp]: "parse_status s = CheckpointStatus.Yielded \<longleftrightarrow> s = ''Yielded''"
  by simp

lemma parse_status_Running [simp]: "parse_status s = CheckpointStatus.Running \<longleftrightarrow> s = ''Running''"
  by simp

declare parse_status.simps [simp del]

end
