(* ===== verification/Postgres_Store.thy ===== *)
theory Postgres_Store
  imports Sql
begin

text \<open>
  \<open>src/store/postgres.rs\<close>. The state is the table; every statement is atomic and commits on its own.
  The database sets \<open>created_at\<close>. A claim is three statements without a transaction, so the claims
  and saves of several clients may interleave between them: \<open>claim_move\<close> is one statement of a
  claim, and the relation \<open>pg_step\<close> lets any client make its next one.
\<close>

section \<open>Operations\<close>

record 's pg_lib =
  pg_env :: "'s env"
  pg_engine :: "(json, timestamp) engine"
  pg_codec :: "('s, json) codec"
  pg_now :: "nat \<Rightarrow> timestamp"  \<comment> \<open>\<open>NOW()\<close> in the n-th statement\<close>

type_synonym pg_database = "(json, timestamp) database"

definition on_table :: "(pg_database \<Rightarrow> (TakelnError, 'a, pg_database) outcome) \<Rightarrow> ('a, pg_database) store_op" where
  "on_table f = (\<lambda>(db, y). case f db of None \<Rightarrow> None | Some (r, db) \<Rightarrow> Some (r, (db, y)))"

text \<open>\<open>let _ = query(..)\<close>: a failed migration is ignored.\<close>

definition ignoring :: "('j, 'ts) engine \<Rightarrow> ('j, 'ts) database \<Rightarrow> ('j, 'ts) database" where
  "ignoring eng db = db\<lparr>db_statements := Suc (db_statements db)\<rparr>"

definition postgres_new :: "'s pg_lib \<Rightarrow> pg_database \<Rightarrow> (TakelnError, unit, pg_database) outcome" where
  "postgres_new lib db = (let run = statement (pg_engine lib) in
     then_ok (run ''Failed to create table: '' (reading (\<lambda>_. ())) db)
       (\<lambda>_ db. run ''Failed to create index: '' (reading (\<lambda>_. ()))
          ((ignoring (pg_engine lib) ^^ 3) db)))"

definition postgres_save_state :: "'s pg_lib \<Rightarrow> 's save_args \<Rightarrow> (string, pg_database) store_op" where
  "postgres_save_state lib a = (\<lambda>(db, y).
     (let (u, y) = new_v4 (pg_env lib) y; checkpoint_id = e_uuid_text (pg_env lib) u; cod = pg_codec lib in
      case cd_state cod (sa_state a) of
        Inl e \<Rightarrow> Some (Inl (SerializationError e), (db, y))
      | Inr state_json \<Rightarrow> (case transpose_map (cd_dag cod) (sa_dag a) of
          Inl e \<Rightarrow> Some (Inl (SerializationError e), (db, y))
        | Inr dag_json \<Rightarrow> (case transpose_map (cd_request cod) (sa_yield_request a) of
            Inl e \<Rightarrow> Some (Inl (SerializationError e), (db, y))
          | Inr request_json \<Rightarrow>
              (let r = \<lparr>rw_id = checkpoint_id, rw_thread_id = sa_thread_id a, rw_state = state_json,
                     rw_next_node = sa_next_node a, rw_dag = dag_json,
                     rw_status = debug_status (sa_status a), rw_created_at = pg_now lib (db_statements db),
                     rw_yield_request = request_json, rw_claimed_interrupt = sa_claimed_interrupt a,
                     rw_resolved_interrupt = sa_resolved_interrupt a\<rparr>
               in on_table (\<lambda>db. then_ok (statement (pg_engine lib) ''Failed to save: ''
                        (insert_row (pg_engine lib) r) db) (\<lambda>_ db. Some (Inr checkpoint_id, db))) (db, y))))))"

definition postgres_found :: "'s pg_lib \<Rightarrow> string \<Rightarrow> (json, timestamp) row option \<Rightarrow>
    TakelnError + 's loaded" where
  "postgres_found lib t ro = (let cod = pg_codec lib in case ro of
       None \<Rightarrow> Inr None
     | Some r \<Rightarrow> (case cd_read_state cod (rw_state r) of
           Inl e \<Rightarrow> Inl (DeserializationError e)
         | Inr s \<Rightarrow> (case transpose_map (cd_read_dag cod) (rw_dag r) of
               Inl e \<Rightarrow> Inl (DeserializationError e)
             | Inr d \<Rightarrow> (case transpose_map (cd_read_request cod) (rw_yield_request r) of
                   Inl e \<Rightarrow> Inl (DeserializationError e)
                 | Inr q \<Rightarrow> Inr (Some (s, row_meta t (rw_created_at r) q r, d))))))"

definition postgres_load_state :: "'s pg_lib \<Rightarrow> string \<Rightarrow> ('s loaded, pg_database) store_op" where
  "postgres_load_state lib t = on_table (\<lambda>db.
     then_ok (statement (pg_engine lib) ''Failed to load: '' (reading (latest_row (pg_engine lib) t)) db)
       (\<lambda>ro db. Some (postgres_found lib t ro, db)))"

definition postgres_load_version :: "'s pg_lib \<Rightarrow> string \<Rightarrow> string \<Rightarrow> ('s loaded, pg_database) store_op" where
  "postgres_load_version lib t checkpoint_id = on_table (\<lambda>db.
     then_ok (statement (pg_engine lib) ''Failed to load version: '' (reading (version_row t checkpoint_id)) db)
       (\<lambda>ro db. Some (postgres_found lib t ro, db)))"

fun postgres_metas :: "'s pg_lib \<Rightarrow> string \<Rightarrow> (json, timestamp) row list \<Rightarrow>
    TakelnError + CheckpointMeta list" where
  "postgres_metas lib t [] = Inr []"
| "postgres_metas lib t (r # rs) = (case transpose_map (cd_read_request (pg_codec lib)) (rw_yield_request r) of
       Inl e \<Rightarrow> Inl (DeserializationError e)
     | Inr q \<Rightarrow> (case postgres_metas lib t rs of
           Inl e \<Rightarrow> Inl e
         | Inr ms \<Rightarrow> Inr (row_meta t (rw_created_at r) q r # ms)))"

definition postgres_list_checkpoints :: "'s pg_lib \<Rightarrow> string \<Rightarrow> (CheckpointMeta list, pg_database) store_op" where
  "postgres_list_checkpoints lib t = on_table (\<lambda>db.
     then_ok (statement (pg_engine lib) ''Failed to list: '' (reading (thread_rows (pg_engine lib) t)) db)
       (\<lambda>rows db. Some (postgres_metas lib t rows, db)))"

definition postgres_delete_checkpoints ::
  "'s pg_lib \<Rightarrow> string \<Rightarrow> RetentionPolicy \<Rightarrow> (nat, pg_database) store_op" where
  "postgres_delete_checkpoints lib t policy = (\<lambda>(db, y). case policy of
       KeepAll \<Rightarrow> Some (Inr 0, (db, y))
     | KeepLast n \<Rightarrow> on_table (statement (pg_engine lib) ''Failed to delete: ''
           (delete_but_last (pg_engine lib) t n)) (db, y)
     | OlderThan d \<Rightarrow>
         (let (now, y) = utc_now (pg_env lib) y in case e_from_std (pg_env lib) d of
             Inl e \<Rightarrow> Some (Inl (CheckpointError e), (db, y))
           | Inr d' \<Rightarrow>
               if now - int d' < e_min_time (pg_env lib) then None
               else on_table (statement (pg_engine lib) ''Failed to delete: ''
                      (delete_older t (now - int d'))) (db, y)))"

section \<open>The claim\<close>

text \<open>Where a claim is between its statements, and its answer.\<close>

datatype claim_state = Check_Resolved | Read_Latest | Update_Latest
  | Answered "TakelnError + ClaimResult"

text \<open>The next statement of a claim.\<close>

definition claim_check :: "'s pg_lib \<Rightarrow> string \<Rightarrow> string \<Rightarrow> pg_database \<Rightarrow> claim_state \<times> pg_database" where
  "claim_check lib t i db = (case statement (pg_engine lib) ''Failed to check interrupt resolution: ''
         (reading (resolved_exists t i)) db of
       Some (Inl e, db) \<Rightarrow> (Answered (Inl e), db)
     | Some (Inr resolved, db) \<Rightarrow> (if resolved then Answered (Inr AlreadyCompleted) else Read_Latest, db)
     | None \<Rightarrow> (Check_Resolved, db))"

definition claim_read :: "'s pg_lib \<Rightarrow> string \<Rightarrow> string \<Rightarrow> pg_database \<Rightarrow> claim_state \<times> pg_database" where
  "claim_read lib t i db = (case statement (pg_engine lib) ''Failed to read latest checkpoint: ''
         (reading (latest_row (pg_engine lib) t)) db of
       Some (Inl e, db) \<Rightarrow> (Answered (Inl e), db)
     | Some (Inr latest, db) \<Rightarrow> (case check_claim (pg_codec lib) t i latest of
           Some r \<Rightarrow> (Answered r, db)
         | None \<Rightarrow> (Update_Latest, db))
     | None \<Rightarrow> (Read_Latest, db))"

definition claim_update :: "'s pg_lib \<Rightarrow> string \<Rightarrow> string \<Rightarrow> pg_database \<Rightarrow> claim_state \<times> pg_database" where
  "claim_update lib t i db = (case statement (pg_engine lib) ''Failed to claim interrupt: ''
         (claim_latest (pg_engine lib) t i) db of
       Some (Inl e, db) \<Rightarrow> (Answered (Inl e), db)
     | Some (Inr affected, db) \<Rightarrow>
         (Answered (if affected = 1 then Inr Claimed else Inl (concurrent_claim t)), db)
     | None \<Rightarrow> (Update_Latest, db))"

fun claim_move :: "'s pg_lib \<Rightarrow> string \<Rightarrow> string \<Rightarrow> claim_state \<Rightarrow> pg_database \<Rightarrow> claim_state \<times> pg_database" where
  "claim_move lib t i Check_Resolved db = claim_check lib t i db"
| "claim_move lib t i Read_Latest db = claim_read lib t i db"
| "claim_move lib t i Update_Latest db = claim_update lib t i db"
| "claim_move lib t i (Answered r) db = (Answered r, db)"

text \<open>A claim that no other client disturbs: its three statements in turn.\<close>

definition postgres_claim_interrupt ::
  "'s pg_lib \<Rightarrow> string \<Rightarrow> string \<Rightarrow> (ClaimResult, pg_database) store_op" where
  "postgres_claim_interrupt lib t i = on_table (\<lambda>db.
     (let (c, db) = claim_move lib t i Check_Resolved db;
          (c, db) = claim_move lib t i c db;
          (c, db) = claim_move lib t i c db
      in case c of Answered r \<Rightarrow> Some (r, db) | _ \<Rightarrow> None))"

definition postgres_checkpointer :: "'s pg_lib \<Rightarrow> ('s, pg_database) checkpointer" where
  "postgres_checkpointer lib = \<lparr>
     ck_current_head = default_current_head,
     ck_save_state_bound = default_save_state_bound (postgres_save_state lib),
     ck_save_state = postgres_save_state lib,
     ck_load_state = postgres_load_state lib,
     ck_load_version = postgres_load_version lib,
     ck_list_checkpoints = postgres_list_checkpoints lib,
     ck_delete_checkpoints = postgres_delete_checkpoints lib,
     ck_claim_interrupt = postgres_claim_interrupt lib\<rparr>"

section \<open>Several clients\<close>

text \<open>
  The clients \<open>cl\<close> claim an interrupt each, \<open>cl_interrupt\<close>, of one thread. A step is one statement
  of one of them, or a save by the holder of the thread, which may go on between them.
\<close>

record client =
  cl_interrupt :: string
  cl_state :: claim_state

datatype pg_event = Claim_Step nat | Save_Step "(json, timestamp) row"

inductive pg_step :: "'s pg_lib \<Rightarrow> string \<Rightarrow> pg_event \<Rightarrow> client list \<times> pg_database \<Rightarrow>
    client list \<times> pg_database \<Rightarrow> bool" for lib t where
  claim: "k < length cs \<Longrightarrow>
      claim_move lib t (cl_interrupt (cs ! k)) (cl_state (cs ! k)) db = (c, db') \<Longrightarrow>
      pg_step lib t (Claim_Step k) (cs, db) (cs[k := (cs ! k)\<lparr>cl_state := c\<rparr>], db')"
| save: "statement (pg_engine lib) ''Failed to save: '' (insert_row (pg_engine lib) r) db = Some (Inr (), db') \<Longrightarrow>
      pg_step lib t (Save_Step r) (cs, db) (cs, db')"

inductive pg_run :: "'s pg_lib \<Rightarrow> string \<Rightarrow> pg_event list \<Rightarrow> client list \<times> pg_database \<Rightarrow>
    client list \<times> pg_database \<Rightarrow> bool" for lib t where
  finished: "pg_run lib t [] x x"
| step: "pg_step lib t e x y \<Longrightarrow> pg_run lib t es y z \<Longrightarrow> pg_run lib t (e # es) x z"

inductive_cases pg_step_claimE: "pg_step lib t (Claim_Step k) x y"
inductive_cases pg_step_saveE: "pg_step lib t (Save_Step r) x y"
inductive_cases pg_run_NilE: "pg_run lib t [] x y"
inductive_cases pg_run_ConsE: "pg_run lib t (e # es) x z"

definition claimed_by :: "client list \<Rightarrow> nat set" where
  "claimed_by cs = {k. k < length cs \<and> cl_state (cs ! k) = Answered (Inr Claimed)}"

end
