(* ===== verification/Sql_Facts.thy ===== *)
theory Sql_Facts
  imports Postgres_Store "HOL-Library.Multiset"
begin

text \<open>
  The statements on tables with a primary key: which row is the latest, what the update of a claim
  changes, and how a table is a journal. Then the properties of the claims of
  \<open>src/store/postgres.rs\<close>, alone and interleaved.
\<close>

section \<open>Tables\<close>

definition ids_unique :: "('j, 'ts) row list \<Rightarrow> bool" where
  "ids_unique rows \<longleftrightarrow> distinct (map rw_id rows)"

text \<open>No two rows of the thread were written at the same time.\<close>

definition times_distinct :: "string \<Rightarrow> ('j, 'ts) row list \<Rightarrow> bool" where
  "times_distinct t rows \<longleftrightarrow> distinct (map rw_created_at (filter (\<lambda>r. rw_thread_id r = t) rows))"

lemma set_thread_rows [simp]: "set (thread_rows eng t rows) = {r \<in> set rows. rw_thread_id r = t}"
  by (simp add: thread_rows_def)

lemma mset_thread_rows: "mset (thread_rows eng t rows) = mset (filter (\<lambda>r. rw_thread_id r = t) rows)"
  by (simp add: thread_rows_def)

lemma latest_row_in: "latest_row eng t rows = Some l \<Longrightarrow> l \<in> set rows \<and> rw_thread_id l = t"
  using last_opt_in_set[of "thread_rows eng t rows" l] by (simp add: latest_row_def)

text \<open>The order of a thread is determined once its times differ.\<close>

lemma thread_rows_unique:
  assumes "times_distinct t rows" and "mset ys = mset (filter (\<lambda>r. rw_thread_id r = t) rows)"
    and "sorted (map rw_created_at ys)"
  shows "thread_rows eng t rows = ys"
  unfolding thread_rows_def
proof (rule sort_key_inj_key_eq)
  show m: "mset (filter (\<lambda>r. rw_thread_id r = t) rows) = mset ys" using assms(2) by simp
  show "inj_on (\<lambda>r. (rw_created_at r, en_tie eng r)) (set (filter (\<lambda>r. rw_thread_id r = t) rows))"
    using assms(1) by (auto simp: times_distinct_def distinct_map inj_on_def)
  have "mset (map rw_created_at (filter (\<lambda>r. rw_thread_id r = t) rows)) = mset (map rw_created_at ys)"
    using m by simp
  from mset_eq_imp_distinct_iff[OF this] assms(1) have d: "distinct (map rw_created_at ys)"
    by (simp add: times_distinct_def)
  have "sorted_wrt (<) (map rw_created_at ys)" using assms(3) d by (simp add: strict_sorted_iff)
  then have "sorted_wrt (\<lambda>a b. rw_created_at a < rw_created_at b) ys" by (simp add: sorted_wrt_map)
  then show "sorted (map (\<lambda>r. (rw_created_at r, en_tie eng r)) ys)"
    unfolding sorted_map by (rule sorted_wrt_mono_rel[rotated]) simp
qed

lemma sorted_thread_rows: "sorted (map rw_created_at (thread_rows eng t rows))"
proof -
  have "sorted (map (\<lambda>r. (rw_created_at r, en_tie eng r)) (thread_rows eng t rows))"
    by (simp add: thread_rows_def)
  then show ?thesis
    unfolding sorted_map by (rule sorted_wrt_mono_rel[rotated]) auto
qed

text \<open>A row written after all others of its thread is the latest.\<close>

lemma thread_rows_snoc:
  assumes "rw_thread_id r = t"
    and "\<And>x. x \<in> set rows \<Longrightarrow> rw_thread_id x = t \<Longrightarrow> rw_created_at x < rw_created_at r"
  shows "thread_rows eng t (rows @ [r]) = thread_rows eng t rows @ [r]"
proof -
  let ?k = "\<lambda>r. (rw_created_at r, en_tie eng r)" and ?xs = "filter (\<lambda>r. rw_thread_id r = t) rows"
  show ?thesis
    unfolding thread_rows_def
  proof (rule properties_for_sort_key)
    show "mset (sort_key ?k ?xs @ [r]) = mset (filter (\<lambda>r. rw_thread_id r = t) (rows @ [r]))"
      using assms(1) by simp
    show "sorted (map ?k (sort_key ?k ?xs @ [r]))"
      using assms(2) by (auto simp: sorted_append less_le)
    fix k assume "k \<in> set (sort_key ?k ?xs @ [r])"
    have "filter (\<lambda>x. ?k k = ?k x) (sort_key ?k ?xs) = filter (\<lambda>x. ?k k = ?k x) ?xs"
      using sort_key_stable[of ?k "?k k" ?xs] by (simp only: eq_commute[of "?k k"])
    then show "filter (\<lambda>x. ?k k = ?k x) (sort_key ?k ?xs @ [r]) =
        filter (\<lambda>x. ?k k = ?k x) (filter (\<lambda>r. rw_thread_id r = t) (rows @ [r]))"
      using assms(1) by simp
  qed
qed

lemma thread_rows_snoc_other:
  "rw_thread_id r \<noteq> t \<Longrightarrow> thread_rows eng t (rows @ [r]) = thread_rows eng t rows"
  by (simp add: thread_rows_def)

lemma latest_row_snoc:
  assumes "rw_thread_id r = t"
    and "\<And>x. x \<in> set rows \<Longrightarrow> rw_thread_id x = t \<Longrightarrow> rw_created_at x < rw_created_at r"
  shows "latest_row eng t (rows @ [r]) = Some r"
  by (simp add: latest_row_def thread_rows_snoc[OF assms])

lemma latest_row_other: "rw_thread_id r \<noteq> t \<Longrightarrow> latest_row eng t (rows @ [r]) = latest_row eng t rows"
  by (simp add: latest_row_def thread_rows_def)

section \<open>The update of a claim\<close>

lemma filter_eq_elem: "distinct xs \<Longrightarrow> x \<in> set xs \<Longrightarrow> filter (\<lambda>y. y = x) xs = [x]"
  by (induction xs) (auto simp: filter_empty_conv)

lemma ids_unique_filter:
  assumes "ids_unique rows" and "l \<in> set rows" and "P l"
  shows "filter (\<lambda>r. rw_id r = rw_id l \<and> P r) rows = [l]"
proof -
  have "filter (\<lambda>r. rw_id r = rw_id l \<and> P r) rows = filter (\<lambda>r. r = l) rows"
    using assms by (intro filter_cong) (auto simp: ids_unique_def distinct_map inj_on_def)
  moreover have "distinct rows" using assms(1) by (simp add: ids_unique_def distinct_map)
  ultimately show ?thesis using assms(2) by (simp add: filter_eq_elem)
qed

text \<open>The row the update of a claim changes.\<close>

definition claimed_at :: "string \<Rightarrow> ('j, 'ts) row \<Rightarrow> ('j, 'ts) row \<Rightarrow> ('j, 'ts) row" where
  "claimed_at i l r = (if rw_id r = rw_id l \<and> rw_status r = ''Yielded'' then claim_row i r else r)"

lemma claimed_at_fields [simp]:
  "rw_id (claimed_at i l r) = rw_id r" "rw_thread_id (claimed_at i l r) = rw_thread_id r"
  "rw_created_at (claimed_at i l r) = rw_created_at r"
  "rw_resolved_interrupt (claimed_at i l r) = rw_resolved_interrupt r"
  by (simp_all add: claimed_at_def claim_row_def)

lemma claim_latest_None: "latest_row eng t rows = None \<Longrightarrow> claim_latest eng t i rows = Inr (0, rows)"
  by (simp add: claim_latest_def)

lemma claim_latest_Some:
  assumes "latest_row eng t rows = Some l" and "ids_unique rows"
  shows "claim_latest eng t i rows =
     Inr (if rw_status l = ''Yielded'' then 1 else 0, map (claimed_at i l) rows)"
proof -
  let ?P = "\<lambda>r. rw_status r = ''Yielded''"
  note l = latest_row_in[OF assms(1)]
  have "length (filter (\<lambda>r. rw_id r = rw_id l \<and> ?P r) rows) = (if ?P l then 1 else 0)"
  proof (cases "?P l")
    case True
    with ids_unique_filter[OF assms(2), of l ?P] l show ?thesis by simp
  next
    case False
    have "filter (\<lambda>r. rw_id r = rw_id l \<and> ?P r) rows = []"
      using False l assms(2) by (auto simp: filter_empty_conv ids_unique_def distinct_map inj_on_def)
    with False show ?thesis by simp
  qed
  moreover have "map (\<lambda>r. if rw_id r = rw_id l \<and> ?P r then claim_row i r else r) rows =
      map (claimed_at i l) rows" by (simp add: claimed_at_def)
  ultimately show ?thesis by (simp add: claim_latest_def assms(1) Let_def)
qed

lemma claimed_at_other:
  assumes "ids_unique rows" and "l \<in> set rows" and "r \<in> set rows" and "r \<noteq> l"
  shows "claimed_at i l r = r"
  using assms by (auto simp: claimed_at_def ids_unique_def distinct_map inj_on_def)

text \<open>A statement that does not fail.\<close>

definition fault_free :: "('j, 'ts) engine \<Rightarrow> bool" where
  "fault_free eng \<longleftrightarrow> (\<forall>n. en_fault eng n = None)"

definition executed :: "('j, 'ts) database \<Rightarrow> ('j, 'ts) row list \<Rightarrow> ('j, 'ts) database" where
  "executed db rows = db\<lparr>db_statements := Suc (db_statements db), db_rows := rows\<rparr>"

lemma executed_simps [simp]:
  "db_rows (executed db rows) = rows" "db_statements (executed db rows) = Suc (db_statements db)"
  by (simp_all add: executed_def)

lemma statement_reading:
  "fault_free eng \<Longrightarrow> statement eng label (reading f) db = Some (Inr (f (db_rows db)), executed db (db_rows db))"
  by (simp add: statement_def fault_free_def reading_def executed_def Let_def)

lemma statement_ok:
  "fault_free eng \<Longrightarrow> f (db_rows db) = Inr (x, rows) \<Longrightarrow>
     statement eng label f db = Some (Inr x, executed db rows)"
  by (simp add: statement_def fault_free_def executed_def Let_def)

lemma statement_rows:
  assumes "statement eng label f db = Some (r, db')"
  shows "(\<exists>e. r = Inl e \<and> db_rows db' = db_rows db) \<or>
     (\<exists>x. r = Inr x \<and> f (db_rows db) = Inr (x, db_rows db'))"
  using assms by (auto simp: statement_def Let_def split: option.splits sum.splits)

lemma statement_reading_rows:
  assumes "statement eng label (reading f) db = Some (r, db')"
  shows "db_rows db' = db_rows db" and "r = Inr x \<Longrightarrow> x = f (db_rows db)"
  using statement_rows[OF assms] by (auto simp: reading_def)

lemma statement_returns: "statement eng label f db \<noteq> None"
  by (auto simp: statement_def Let_def split: option.splits sum.splits)

section \<open>Interleaved claims\<close>

definition yielded_rows :: "string \<Rightarrow> ('j, 'ts) row list \<Rightarrow> nat" where
  "yielded_rows t rows = length (filter (\<lambda>r. rw_thread_id r = t \<and> rw_status r = ''Yielded'') rows)"

text \<open>A move of a claim either leaves the table and does not win, or wins a Yielded row.\<close>

lemma claim_latest_rows:
  assumes "ids_unique rows" and "claim_latest eng t i rows = Inr (n, rows')"
  shows "ids_unique rows' \<and> yielded_rows t rows' + n = yielded_rows t rows \<and> n \<le> 1"
proof (cases "latest_row eng t rows")
  case None
  with assms show ?thesis by (simp add: claim_latest_None)
next
  case (Some l)
  note l = latest_row_in[OF Some]
  from assms(2) have n: "n = (if rw_status l = ''Yielded'' then 1 else 0)"
    and rows': "rows' = map (claimed_at i l) rows" by (simp_all add: claim_latest_Some[OF Some assms(1)])
  have "ids_unique rows'" using assms(1) by (simp add: ids_unique_def rows' comp_def)
  moreover have "yielded_rows t rows' + n = yielded_rows t rows"
  proof -
    from l obtain xs ys where s: "rows = xs @ l # ys" by (auto dest: split_list)
    have o: "claimed_at i l r = r" if "r \<in> set xs \<union> set ys" for r
      using claimed_at_other[OF assms(1), of l r i] that assms(1) l
      by (auto simp: s ids_unique_def)
    have "map (claimed_at i l) xs = xs" "map (claimed_at i l) ys = ys" using o by (simp_all add: map_idI)
    then show ?thesis using l
      by (simp add: rows' n yielded_rows_def s claimed_at_def claim_row_def)
  qed
  ultimately show ?thesis by (simp add: n)
qed

lemma claim_move_rows:
  assumes "ids_unique (db_rows db)" and "claim_move lib t i c db = (c', db')"
    and "c \<noteq> Answered (Inr Claimed)"
  shows "ids_unique (db_rows db') \<and> yielded_rows t (db_rows db') +
     (if c' = Answered (Inr Claimed) then 1 else 0) \<le> yielded_rows t (db_rows db)"
proof (cases c)
  case Check_Resolved
  with assms show ?thesis
    by (auto simp: claim_check_def split: option.splits sum.splits if_splits dest: statement_reading_rows(1))
next
  case Read_Latest
  obtain r1 db1 where s: "statement (pg_engine lib) ''Failed to read latest checkpoint: ''
      (reading (latest_row (pg_engine lib) t)) db = Some (r1, db1)"
    using statement_returns by (metis not_None_eq surj_pair)
  have n: "check_claim cod t i lt \<noteq> Some (Inr Claimed)" for cod :: "('a, json) codec" and lt
    by (auto simp: check_claim_def Let_def split: option.splits sum.splits)
  from assms(2) Read_Latest s have "db' = db1 \<and> c' \<noteq> Answered (Inr Claimed)"
    by (auto simp: claim_read_def n split: sum.splits option.splits)
  with assms(1) statement_reading_rows(1)[OF s] show ?thesis by simp
next
  case Update_Latest
  obtain r1 db1 where s: "statement (pg_engine lib) ''Failed to claim interrupt: ''
      (claim_latest (pg_engine lib) t i) db = Some (r1, db1)"
    using statement_returns by (metis not_None_eq surj_pair)
  show ?thesis
  proof (cases r1)
    case (Inl e)
    with assms s Update_Latest statement_rows[OF s] show ?thesis by (auto simp: claim_update_def)
  next
    case (Inr n)
    with statement_rows[OF s] have "claim_latest (pg_engine lib) t i (db_rows db) = Inr (n, db_rows db1)" by auto
    from claim_latest_rows[OF assms(1) this] assms(2) s Update_Latest Inr show ?thesis
      by (auto simp: claim_update_def split: if_splits)
  qed
qed (use assms in auto)

end
