(* ===== verification/Sql_Properties.thy ===== *)
theory Sql_Properties
  imports Sql_Facts
begin

text \<open>
  The properties of the SQL stores: how often a yielded checkpoint can be claimed when several
  clients interleave on PostgreSQL, the stale claim that the update does not detect, and that
  undisturbed claims and saves are those of the journal that every store implements.
\<close>

section \<open>Interleaved claims\<close>

fun yielding_save :: "string \<Rightarrow> pg_event \<Rightarrow> bool" where
  "yielding_save t (Save_Step r) = (rw_thread_id r = t \<and> rw_status r = ''Yielded'')"
| "yielding_save t (Claim_Step k) = False"

lemma claimed_by_update:
  assumes "k < length cs" and "cl_state (cs ! k) \<noteq> Answered (Inr Claimed)"
  shows "card (claimed_by (cs[k := (cs ! k)\<lparr>cl_state := c\<rparr>])) =
     card (claimed_by cs) + (if c = Answered (Inr Claimed) then 1 else 0)"
proof -
  have f: "finite (claimed_by cs)" by (simp add: claimed_by_def)
  have n: "k \<notin> claimed_by cs" using assms by (simp add: claimed_by_def)
  have "claimed_by (cs[k := (cs ! k)\<lparr>cl_state := c\<rparr>]) =
      (if c = Answered (Inr Claimed) then insert k (claimed_by cs) else claimed_by cs)"
    using assms by (auto simp: claimed_by_def nth_list_update split: if_splits)
  with f n show ?thesis by simp
qed

lemma claimed_by_same:
  assumes "k < length cs" and "cl_state (cs ! k) = Answered r"
  shows "cs[k := (cs ! k)\<lparr>cl_state := Answered r\<rparr>] = cs"
proof -
  have "(cs ! k)\<lparr>cl_state := Answered r\<rparr> = cs ! k" using assms(2) by (cases "cs ! k") simp
  then show ?thesis using assms(1) by simp
qed

lemma pg_step_bound:
  assumes "pg_step lib t e (cs, db) (cs', db')" and "ids_unique (db_rows db)"
  shows "ids_unique (db_rows db') \<and> card (claimed_by cs') + yielded_rows t (db_rows db') \<le>
     card (claimed_by cs) + yielded_rows t (db_rows db) + (if yielding_save t e then 1 else 0)"
  using assms(1)
proof cases
  case (claim k c)
  show ?thesis
  proof (cases "cl_state (cs ! k) = Answered (Inr Claimed)")
    case True
    with claim claimed_by_same[OF claim(3) True] assms(2) show ?thesis by simp
  next
    case False
    from claim_move_rows[OF assms(2) claim(4) False] claimed_by_update[OF claim(3) False, of c] claim
    show ?thesis by (auto split: if_splits)
  qed
next
  case (save r)
  from statement_rows[OF save(3)] have "rw_id r \<notin> set (map rw_id (db_rows db))"
    and rows: "db_rows db' = db_rows db @ [r]"
    by (auto simp: insert_row_def split: if_splits)
  with assms(2) have "ids_unique (db_rows db')" by (simp add: ids_unique_def)
  with save rows show ?thesis by (simp add: yielded_rows_def)
qed

lemma pg_run_bound:
  "pg_run lib t es (cs, db) (cs', db') \<Longrightarrow> ids_unique (db_rows db) \<Longrightarrow>
     card (claimed_by cs') + yielded_rows t (db_rows db') \<le>
       card (claimed_by cs) + yielded_rows t (db_rows db) + length (filter (yielding_save t) es)"
proof (induction es "(cs, db)" "(cs', db')" arbitrary: cs db rule: pg_run.induct)
  case (step e y es)
  obtain cs1 db1 where y: "y = (cs1, db1)" by fastforce
  from pg_step_bound[OF step(1)[unfolded y] step(4)] step(3)[OF y] show ?case by auto
qed simp

text \<open>C32: however the statements of the claims of several clients interleave with each other and with
  saves, every Yielded checkpoint of the thread is claimed at most once: the number of claims that win
  is at most the number of checkpoints that were Yielded at first or have been saved as Yielded.\<close>

theorem pg_claims_bounded:
  assumes "pg_run lib t es (cs, db) (cs', db')" and "ids_unique (db_rows db)" and "claimed_by cs = {}"
  shows "card (claimed_by cs') \<le> yielded_rows t (db_rows db) + length (filter (yielding_save t) es)"
  using pg_run_bound[OF assms(1,2)] assms(3) by simp

section \<open>A stale claim\<close>

lemma claim_move_check:
  assumes "fault_free (pg_engine lib)" and "\<not> resolved_exists t i (db_rows db)"
  shows "claim_move lib t i Check_Resolved db = (Read_Latest, executed db (db_rows db))"
  using assms by (simp add: claim_check_def statement_reading)

lemma claim_move_read:
  assumes "fault_free (pg_engine lib)"
    and "check_claim (pg_codec lib) t i (latest_row (pg_engine lib) t (db_rows db)) = None"
  shows "claim_move lib t i Read_Latest db = (Update_Latest, executed db (db_rows db))"
  using assms by (simp add: claim_read_def statement_reading)

lemma claim_move_update:
  assumes "fault_free (pg_engine lib)" and "ids_unique (db_rows db)"
    and "latest_row (pg_engine lib) t (db_rows db) = Some l" and "rw_status l = ''Yielded''"
  shows "claim_move lib t i Update_Latest db =
     (Answered (Inr Claimed), executed db (map (claimed_at i l) (db_rows db)))"
proof -
  have "claim_latest (pg_engine lib) t i (db_rows db) = Inr (1, map (claimed_at i l) (db_rows db))"
    using assms(4) by (simp add: claim_latest_Some[OF assms(3,2)])
  from statement_ok[where f = "claim_latest (pg_engine lib) t i", OF assms(1) this] show ?thesis
    by (simp add: claim_update_def)
qed

text \<open>A row whose interrupt is \<open>i\<close> waits for it.\<close>

definition waits_for :: "'s pg_lib \<Rightarrow> string \<Rightarrow> (json, timestamp) row \<Rightarrow> bool" where
  "waits_for lib i r \<longleftrightarrow> rw_status r = ''Yielded'' \<and>
     (\<exists>v q. rw_yield_request r = Some v \<and> cd_read_request (pg_codec lib) v = Inr q \<and> yr_interrupt_id q = i)"

lemma waits_for_check: "waits_for lib i r \<Longrightarrow> check_claim (pg_codec lib) t i (Some r) = None"
  by (auto simp: waits_for_def check_claim_def)

text \<open>Two clients claim the same interrupt, the second wins and the thread goes on: its next
  checkpoint resolves the interrupt, the one after it yields with another one.\<close>

definition stale_schedule :: "(json, timestamp) row \<Rightarrow> (json, timestamp) row \<Rightarrow> pg_event list" where
  "stale_schedule r1 r2 = [Claim_Step 0, Claim_Step 0, Claim_Step 1, Claim_Step 1, Claim_Step 1,
     Save_Step r1, Save_Step r2, Claim_Step 0]"

definition two_clients :: "string \<Rightarrow> claim_state \<Rightarrow> claim_state \<Rightarrow> client list" where
  "two_clients i c0 c1 = [\<lparr>cl_interrupt = i, cl_state = c0\<rparr>, \<lparr>cl_interrupt = i, cl_state = c1\<rparr>]"

lemma client_step:
  assumes "claim_move lib t i c0 db = (c, db')"
  shows "pg_step lib t (Claim_Step 0) (two_clients i c0 c1, db) (two_clients i c c1, db')"
  using pg_step.claim[of 0 "two_clients i c0 c1" lib t db c db'] assms by (simp add: two_clients_def)

lemma client_step1:
  assumes "claim_move lib t i c1 db = (c, db')"
  shows "pg_step lib t (Claim_Step 1) (two_clients i c0 c1, db) (two_clients i c0 c, db')"
  using pg_step.claim[of 1 "two_clients i c0 c1" lib t db c db'] assms by (simp add: two_clients_def)

lemma save_step:
  assumes "fault_free (pg_engine lib)" and "rw_id r \<notin> set (map rw_id (db_rows db))"
  shows "pg_step lib t (Save_Step r) (cs, db) (cs, executed db (db_rows db @ [r]))"
proof (rule pg_step.save)
  have "insert_row (pg_engine lib) r (db_rows db) = Inr ((), db_rows db @ [r])"
    using assms(2) by (simp add: insert_row_def)
  from statement_ok[where f = "insert_row (pg_engine lib) r", OF assms(1) this]
  show "statement (pg_engine lib) ''Failed to save: '' (insert_row (pg_engine lib) r) db =
      Some (Inr (), executed db (db_rows db @ [r]))" .
qed

text \<open>The row saved last is the latest one, and after a claim of it the claimed one is.\<close>

lemma stale_latest:
  assumes "\<And>r. r \<in> set rows \<Longrightarrow> rw_created_at r < rw_created_at r2" and "rw_created_at r1 < rw_created_at r2"
    and "rw_thread_id r2 = t" and "rw_status r2 = ''Yielded''"
  shows "latest_row eng t (map (claimed_at i l) rows @ [r1, r2]) = Some r2"
    and "latest_row eng t (map (claimed_at i r2) (map (claimed_at i l) rows @ [r1, r2])) = Some (claim_row i r2)"
proof -
  let ?R = "map (claimed_at i l) rows"
  have "latest_row eng t ((?R @ [r1]) @ [r2]) = Some r2"
    by (rule latest_row_snoc) (use assms in auto)
  then show "latest_row eng t (?R @ [r1, r2]) = Some r2" by simp
  have "map (claimed_at i r2) (?R @ [r1, r2]) = map (claimed_at i r2) (?R @ [r1]) @ [claim_row i r2]"
    by (simp add: claimed_at_def assms(4))
  moreover have "latest_row eng t (map (claimed_at i r2) (?R @ [r1]) @ [claim_row i r2]) = Some (claim_row i r2)"
    by (rule latest_row_snoc) (use assms in \<open>auto simp: claim_row_def\<close>)
  ultimately show "latest_row eng t (map (claimed_at i r2) (?R @ [r1, r2])) = Some (claim_row i r2)" by simp
qed

lemma stale_run:
  assumes "fault_free (pg_engine lib)" and "ids_unique (db_rows db)"
    and "latest_row (pg_engine lib) t (db_rows db) = Some l" and "waits_for lib i l"
    and "\<not> resolved_exists t i (db_rows db)"
    and "rw_thread_id r1 = t" and "rw_resolved_interrupt r1 = Some i"
    and "rw_thread_id r2 = t" and "waits_for lib i' r2"
    and "distinct [rw_id r1, rw_id r2]" and "set [rw_id r1, rw_id r2] \<inter> set (map rw_id (db_rows db)) = {}"
    and "\<And>r. r \<in> set (db_rows db) \<Longrightarrow> rw_created_at r < rw_created_at r2"
    and "rw_created_at r1 < rw_created_at r2"
  shows "\<exists>cs' db' l'. pg_run lib t (stale_schedule r1 r2) (two_clients i Check_Resolved Check_Resolved, db)
       (cs', db') \<and> claimed_by cs' = {0, 1} \<and> resolved_exists t i (db_rows db') \<and>
     latest_row (pg_engine lib) t (db_rows db') = Some l' \<and> rw_claimed_interrupt l' = Some i \<and>
     rw_yield_request l' = rw_yield_request r2"
proof -
  let ?eng = "pg_engine lib" and ?rows = "db_rows db"
  let ?d1 = "executed db ?rows" let ?d2 = "executed ?d1 ?rows" let ?d3 = "executed ?d2 ?rows"
  let ?d4 = "executed ?d3 ?rows"
  let ?rows1 = "map (claimed_at i l) ?rows"
  let ?d5 = "executed ?d4 ?rows1" let ?d6 = "executed ?d5 (?rows1 @ [r1])"
  let ?R = "?rows1 @ [r1, r2]"
  let ?d7 = "executed ?d6 ?R" let ?d8 = "executed ?d7 (map (claimed_at i r2) ?R)"
  note ff = assms(1)
  have wl: "check_claim (pg_codec lib) t i (latest_row ?eng t ?rows) = None"
    using waits_for_check[OF assms(4)] by (simp add: assms(3))
  have ids1: "map rw_id ?rows1 = map rw_id ?rows" by simp
  have uR: "ids_unique ?R" using assms(2,10,11) by (auto simp: ids_unique_def comp_def)
  have y2: "rw_status r2 = ''Yielded''" and yl: "rw_status l = ''Yielded''"
    using assms(4,9) by (simp_all add: waits_for_def)
  note latest = stale_latest[OF assms(12,13,8) y2, of _ ?eng i l]
  have s12: "pg_step lib t (Claim_Step 0) (two_clients i Check_Resolved Check_Resolved, db)
        (two_clients i Read_Latest Check_Resolved, ?d1)"
      "pg_step lib t (Claim_Step 0) (two_clients i Read_Latest Check_Resolved, ?d1)
        (two_clients i Update_Latest Check_Resolved, ?d2)"
    by (rule client_step, use claim_move_check[OF ff, of t i db] claim_move_read[OF ff, of t i ?d1]
        assms(5) wl in simp)+
  have s345: "pg_step lib t (Claim_Step 1) (two_clients i Update_Latest Check_Resolved, ?d2)
        (two_clients i Update_Latest Read_Latest, ?d3)"
      "pg_step lib t (Claim_Step 1) (two_clients i Update_Latest Read_Latest, ?d3)
        (two_clients i Update_Latest Update_Latest, ?d4)"
      "pg_step lib t (Claim_Step 1) (two_clients i Update_Latest Update_Latest, ?d4)
        (two_clients i Update_Latest (Answered (Inr Claimed)), ?d5)"
    by (rule client_step1, use claim_move_check[OF ff, of t i ?d2] claim_move_read[OF ff, of t i ?d3]
        claim_move_update[OF ff, of ?d4 t l i] assms(2,3,5) wl yl in simp)+
  have s6: "pg_step lib t (Save_Step r1) (cs, ?d5) (cs, ?d6)" for cs
    using save_step[OF ff, of r1 ?d5] assms(11) ids1 by (simp add: image_image)
  have s7: "pg_step lib t (Save_Step r2) (cs, ?d6) (cs, ?d7)" for cs
    using save_step[OF ff, of r2 ?d6] assms(10,11) ids1 by (simp add: image_image)
  have s8: "pg_step lib t (Claim_Step 0) (two_clients i Update_Latest (Answered (Inr Claimed)), ?d7)
        (two_clients i (Answered (Inr Claimed)) (Answered (Inr Claimed)), ?d8)"
    by (rule client_step) (use claim_move_update[OF ff, of ?d7 t r2 i] uR latest(1)[of ?rows] y2 in simp)
  have run: "pg_run lib t (stale_schedule r1 r2) (two_clients i Check_Resolved Check_Resolved, db)
      (two_clients i (Answered (Inr Claimed)) (Answered (Inr Claimed)), ?d8)"
    unfolding stale_schedule_def
    by (intro pg_run.step[OF s12(1)] pg_run.step[OF s12(2)] pg_run.step[OF s345(1)] pg_run.step[OF s345(2)]
        pg_run.step[OF s345(3)] pg_run.step[OF s6] pg_run.step[OF s7] pg_run.step[OF s8] pg_run.finished)
  have won: "claimed_by (two_clients i (Answered (Inr Claimed)) (Answered (Inr Claimed))) = {0, 1}"
    by (auto simp: claimed_by_def two_clients_def less_Suc_eq)
  have lat: "latest_row ?eng t (db_rows ?d8) = Some (claim_row i r2)" using latest(2)[of ?rows] by simp
  have "resolved_exists t i (db_rows ?d8)" using assms(6,7) by (auto simp: resolved_exists_def)
  with run won lat show ?thesis
    by (intro exI[of _ "two_clients i (Answered (Inr Claimed)) (Answered (Inr Claimed))"] exI[of _ ?d8]
        exI[of _ "claim_row i r2"]) (simp add: claim_row_def)
qed

text \<open>C33: the update of a PostgreSQL claim does not look at the interrupt again, so a claim can win
  after its interrupt was resolved: two clients claim the same interrupt, the second one wins, its
  resumption resolves the interrupt and yields with another one, and the update of the first client
  then succeeds too: both have won the same interrupt, and the first holds a checkpoint that waits for
  another one.\<close>

theorem pg_stale_claim_wins:
  assumes "fault_free (pg_engine lib)" and "ids_unique (db_rows db)"
    and "latest_row (pg_engine lib) t (db_rows db) = Some l" and "waits_for lib i l"
    and "\<not> resolved_exists t i (db_rows db)"
    and "rw_thread_id r1 = t" and "rw_resolved_interrupt r1 = Some i"
    and "rw_thread_id r2 = t" and "waits_for lib i' r2"
    and "distinct [rw_id r1, rw_id r2]" and "set [rw_id r1, rw_id r2] \<inter> set (map rw_id (db_rows db)) = {}"
    and "\<And>r. r \<in> set (db_rows db) \<Longrightarrow> rw_created_at r < rw_created_at r2"
    and "rw_created_at r1 < rw_created_at r2"
  shows "\<exists>cs' db' l'. pg_run lib t (stale_schedule r1 r2) (two_clients i Check_Resolved Check_Resolved, db)
       (cs', db') \<and> claimed_by cs' = {0, 1} \<and> resolved_exists t i (db_rows db') \<and>
     latest_row (pg_engine lib) t (db_rows db') = Some l' \<and> rw_claimed_interrupt l' = Some i \<and>
     rw_yield_request l' = rw_yield_request r2"
  by (rule stale_run[OF assms])

section \<open>The table as a journal\<close>

definition readable :: "(string + 'a) \<Rightarrow> 'a option" where
  "readable r = (case r of Inl _ \<Rightarrow> None | Inr x \<Rightarrow> Some x)"

definition row_entry :: "('s, 'j) codec \<Rightarrow> ('ts \<Rightarrow> timestamp) \<Rightarrow> ('j, 'ts) row \<Rightarrow> 'j journal_entry" where
  "row_entry cod tm r = \<lparr>je_checkpoint_id = rw_id r, je_state = rw_state r,
     je_next_node = rw_next_node r, je_dag = Option.bind (rw_dag r) (readable \<circ> cd_read_dag cod),
     je_status = parse_status (rw_status r), je_created_at = tm (rw_created_at r),
     je_yield_request = Option.bind (rw_yield_request r) (readable \<circ> cd_read_request cod),
     je_claimed_interrupt = rw_claimed_interrupt r, je_resolved_interrupt = rw_resolved_interrupt r\<rparr>"

definition table_journal :: "('s, 'j) codec \<Rightarrow> ('ts \<Rightarrow> timestamp) \<Rightarrow> ('j, 'ts :: linorder) engine \<Rightarrow>
    ('j, 'ts) row list \<Rightarrow> string \<Rightarrow> 'j journal_entry list" where
  "table_journal cod tm eng rows t = map (row_entry cod tm) (thread_rows eng t rows)"

lemma row_entry_claim: "row_entry cod tm (claim_row i r) = claim_entry i (row_entry cod tm r)"
  by (simp add: row_entry_def claim_row_def claim_entry_def parse_status.simps)

lemma last_table_journal: "last_opt (table_journal cod tm eng rows t) =
    map_option (row_entry cod tm) (latest_row eng t rows)"
  by (simp add: table_journal_def latest_row_def last_opt_def last_map)

lemma resolved_table_journal: "resolved_in i (table_journal cod tm eng rows t) \<longleftrightarrow> resolved_exists t i rows"
  by (auto simp: resolved_in_def table_journal_def resolved_exists_def row_entry_def)

lemma thread_rows_claimed:
  assumes "latest_row eng t rows = Some l" and "ids_unique rows" and "times_distinct t rows"
    and "rw_status l = ''Yielded''"
  shows "thread_rows eng t (map (claimed_at i l) rows) = butlast (thread_rows eng t rows) @ [claim_row i l]"
proof -
  let ?f = "claimed_at i l" and ?T = "thread_rows eng t rows"
  have "thread_rows eng t (map ?f rows) = map ?f ?T"
  proof (rule thread_rows_unique)
    show "times_distinct t (map ?f rows)" using assms(3) by (simp add: times_distinct_def filter_map comp_def)
    show "mset (map ?f ?T) = mset (filter (\<lambda>r. rw_thread_id r = t) (map ?f rows))"
      by (simp add: mset_thread_rows filter_map comp_def)
    show "sorted (map rw_created_at (map ?f ?T))" using sorted_thread_rows[of eng t rows] by (simp add: comp_def)
  qed
  moreover from assms(1) have T: "?T = butlast ?T @ [l]"
    by (auto simp: latest_row_def last_opt_def split: if_splits)
  moreover have "map ?f (butlast ?T) = butlast ?T"
  proof (rule map_idI)
    fix r assume r: "r \<in> set (butlast ?T)"
    have "distinct ?T"
      using assms(2) mset_eq_imp_distinct_iff[OF mset_thread_rows[of eng t rows]]
      by (simp add: ids_unique_def distinct_map)
    then have "distinct (butlast ?T @ [l])" using T by simp
    with r have "r \<noteq> l" by auto
    moreover have "r \<in> set rows" using in_set_butlastD[OF r] by simp
    ultimately show "?f r = r" using claimed_at_other[OF assms(2)] latest_row_in[OF assms(1)] by blast
  qed
  ultimately have "thread_rows eng t (map ?f rows) = butlast ?T @ [?f l]" by (metis map_append list.map)
  then show ?thesis by (simp add: claimed_at_def assms(4))
qed

lemma thread_rows_unclaimed:
  assumes "latest_row eng t rows = Some l" and "ids_unique rows" and "u \<noteq> t"
  shows "thread_rows eng u (map (claimed_at i l) rows) = thread_rows eng u rows"
proof -
  have "filter (\<lambda>r. rw_thread_id r = u) (map (claimed_at i l) rows) =
      map (claimed_at i l) (filter (\<lambda>r. rw_thread_id r = u) rows)" by (simp add: filter_map comp_def)
  also have "\<dots> = filter (\<lambda>r. rw_thread_id r = u) rows"
    by (rule map_idI) (use assms latest_row_in[OF assms(1)] claimed_at_other[OF assms(2)] in fastforce)
  finally show ?thesis by (simp add: thread_rows_def)
qed

lemma table_journal_claimed:
  assumes "latest_row eng t rows = Some l" and "ids_unique rows" and "times_distinct t rows"
    and "rw_status l = ''Yielded''"
  shows "table_journal cod tm eng (map (claimed_at i l) rows) =
     (table_journal cod tm eng rows)(t := butlast (table_journal cod tm eng rows t) @
        [claim_entry i (row_entry cod tm l)])"
  by (rule ext) (simp add: table_journal_def thread_rows_claimed[OF assms] row_entry_claim map_butlast
      thread_rows_unclaimed[OF assms(1,2)])

text \<open>What the two reads of a claim decide is what the journal decides.\<close>

lemma check_claim_journal:
  assumes "\<not> resolved_exists t i rows"
  shows "case check_claim cod t i (latest_row eng t rows) of
     Some r \<Rightarrow> verdict_of r = fst (journal_claim i (table_journal cod tm eng rows t)) \<and>
       snd (journal_claim i (table_journal cod tm eng rows t)) = table_journal cod tm eng rows t
   | None \<Rightarrow> (\<exists>l. latest_row eng t rows = Some l \<and> rw_status l = ''Yielded'' \<and>
       journal_claim i (table_journal cod tm eng rows t) = (Won, butlast (table_journal cod tm eng rows t) @
         [claim_entry i (row_entry cod tm l)]))"
proof (cases "latest_row eng t rows")
  case None
  then show ?thesis
    by (simp add: check_claim_def journal_claim_def resolved_table_journal assms last_table_journal)
next
  case (Some l)
  have r: "je_status (row_entry cod tm l) = parse_status (rw_status l)"
    "je_claimed_interrupt (row_entry cod tm l) = rw_claimed_interrupt l"
    "je_yield_request (row_entry cod tm l) = Option.bind (rw_yield_request l) (readable \<circ> cd_read_request cod)"
    by (simp_all add: row_entry_def)
  show ?thesis
  proof (cases "rw_status l = ''Yielded''")
    case True
    then show ?thesis
      by (auto simp: Some check_claim_def journal_claim_def resolved_table_journal assms last_table_journal
          awaits_def r readable_def parse_status.simps split: option.splits sum.splits)
  next
    case False
    then show ?thesis
      by (auto simp: Some check_claim_def journal_claim_def resolved_table_journal assms last_table_journal
          awaits_def r split: option.splits sum.splits)
  qed
qed

text \<open>What a claim does to the rows: nothing, or it marks the latest row of the thread.\<close>

definition claimed_rows :: "('j, 'ts :: linorder) engine \<Rightarrow> string \<Rightarrow> string \<Rightarrow> ('j, 'ts) row list \<Rightarrow>
    ('j, 'ts) row list \<Rightarrow> bool" where
  "claimed_rows eng t i rows rows' \<longleftrightarrow> rows' = rows \<or>
     (\<exists>l. latest_row eng t rows = Some l \<and> rows' = map (claimed_at i l) rows)"

lemma postgres_claim_spec:
  assumes "fault_free (pg_engine lib)" and "ids_unique (db_rows db)" and "times_distinct t (db_rows db)"
    and "J = table_journal (pg_codec lib) id (pg_engine lib) (db_rows db)"
  shows "\<exists>r db'. postgres_claim_interrupt lib t i (db, y) = Some (r, (db', y)) \<and>
     claimed_rows (pg_engine lib) t i (db_rows db) (db_rows db') \<and>
     db_statements db \<le> db_statements db' \<and> verdict_of r = fst (journal_claim i (J t)) \<and>
     table_journal (pg_codec lib) id (pg_engine lib) (db_rows db') = J(t := snd (journal_claim i (J t)))"
proof (cases "resolved_exists t i (db_rows db)")
  case True
  then have "claim_move lib t i Check_Resolved db =
      (Answered (Inr AlreadyCompleted), executed db (db_rows db))"
    using assms(1) by (simp add: claim_check_def statement_reading)
  moreover have "journal_claim i (J t) = (Settled, J t)"
    using True by (simp add: journal_claim_def assms(4) resolved_table_journal)
  ultimately show ?thesis
    by (simp add: postgres_claim_interrupt_def on_table_def assms(4) claimed_rows_def)
next
  case False
  let ?d1 = "executed db (db_rows db)"
  let ?l = "latest_row (pg_engine lib) t (db_rows db)"
  note c1 = claim_move_check[OF assms(1) False]
  note j = check_claim_journal[OF False, where cod = "pg_codec lib" and eng = "pg_engine lib" and tm = id]
  show ?thesis
  proof (cases "check_claim (pg_codec lib) t i ?l")
    case (Some r)
    then have "claim_move lib t i Read_Latest ?d1 = (Answered r, executed ?d1 (db_rows db))"
      using assms(1) by (simp add: claim_read_def statement_reading)
    with c1 j Some show ?thesis
      by (simp add: postgres_claim_interrupt_def on_table_def assms(4) claimed_rows_def)
  next
    case None
    with j obtain l where l: "?l = Some l" "rw_status l = ''Yielded''"
      and jc: "journal_claim i (J t) = (Won, butlast (J t) @ [claim_entry i (row_entry (pg_codec lib) id l)])"
      by (auto simp: assms(4))
    have c2: "claim_move lib t i Read_Latest ?d1 = (Update_Latest, executed ?d1 (db_rows db))"
      using claim_move_read[OF assms(1), of t i ?d1] None by simp
    let ?d2 = "executed ?d1 (db_rows db)"
    have c3: "claim_move lib t i Update_Latest ?d2 =
        (Answered (Inr Claimed), executed ?d2 (map (claimed_at i l) (db_rows db)))"
      using claim_move_update[OF assms(1), of ?d2 t l i] assms(2) l by simp
    show ?thesis
      using c1 c2 c3 jc table_journal_claimed[OF l(1) assms(2,3) l(2), where cod = "pg_codec lib" and tm = id and i = i]
      by (simp add: postgres_claim_interrupt_def on_table_def assms(4) claimed_rows_def l(1))
  qed
qed

text \<open>C34: a PostgreSQL claim whose three statements no other client disturbs is the compare-and-swap of
  the journal that every store implements: it wins, finds the claim in progress or the interrupt completed, or
  is refused, as \<open>journal_claim\<close> decides (the errors of a refusal are one verdict), and changes the threads as it does.\<close>

theorem postgres_claim_refines:
  assumes "fault_free (pg_engine lib)" and "ids_unique (db_rows db)" and "times_distinct t (db_rows db)"
    and "J = table_journal (pg_codec lib) id (pg_engine lib) (db_rows db)"
  shows "\<exists>r db'. postgres_claim_interrupt lib t i (db, y) = Some (r, (db', y)) \<and>
     verdict_of r = fst (journal_claim i (J t)) \<and>
     table_journal (pg_codec lib) id (pg_engine lib) (db_rows db') = J(t := snd (journal_claim i (J t)))"
  using postgres_claim_spec[OF assms] by blast

section \<open>Samples\<close>

definition sample_pg :: "nat pg_lib" where
  "sample_pg = \<lparr>pg_env = sample_env, pg_engine = \<lparr>en_fault = (\<lambda>_. None), en_tie = (\<lambda>_. 0),
       en_duplicate_id = ''duplicate key'', en_bad_limit = ''LIMIT must not be negative''\<rparr>,
     pg_codec = \<lparr>cd_state = e_to_value sample_env, cd_read_state = e_from_value sample_env,
       cd_dag = (\<lambda>_. Inl ''no encoding''), cd_read_dag = (\<lambda>_. Inl ''no encoding''),
       cd_request = (\<lambda>q. Inr (JString (yr_interrupt_id q))),
       cd_read_request = (\<lambda>v. case v of JString i \<Rightarrow> Inr (yield_simple i) | _ \<Rightarrow> Inl ''invalid type'')\<rparr>,
     pg_now = int\<rparr>"

definition sample_row :: "string \<Rightarrow> string \<Rightarrow> timestamp \<Rightarrow> string option \<Rightarrow> string option \<Rightarrow> (json, timestamp) row" where
  "sample_row i status tm request resolved = \<lparr>rw_id = i, rw_thread_id = ''t'', rw_state = JNumber (JInt 0),
     rw_next_node = ''gate'', rw_dag = None, rw_status = status, rw_created_at = tm,
     rw_yield_request = map_option JString request, rw_claimed_interrupt = None,
     rw_resolved_interrupt = resolved\<rparr>"

abbreviation sample_row0 :: "(json, timestamp) row" where
  "sample_row0 \<equiv> sample_row ''0'' ''Yielded'' 0 (Some ''i'') None"

abbreviation sample_row1 :: "(json, timestamp) row" where
  "sample_row1 \<equiv> sample_row ''1'' ''Complete'' 1 None (Some ''i'')"

abbreviation sample_row2 :: "(json, timestamp) row" where
  "sample_row2 \<equiv> sample_row ''2'' ''Yielded'' 2 (Some ''j'') None"

definition sample_table :: pg_database where
  "sample_table = \<lparr>db_rows = [sample_row0], db_statements = 0\<rparr>"

lemma sample_row_simps [simp]:
  "rw_id (sample_row i st tm rq rs) = i" "rw_thread_id (sample_row i st tm rq rs) = ''t''"
  "rw_status (sample_row i st tm rq rs) = st" "rw_created_at (sample_row i st tm rq rs) = tm"
  "rw_resolved_interrupt (sample_row i st tm rq rs) = rs"
  "rw_yield_request (sample_row i st tm rq rs) = map_option JString rq"
  by (simp_all add: sample_row_def)

lemma sample_pg_facts:
  "fault_free (pg_engine sample_pg)" "ids_unique (db_rows sample_table)"
  "times_distinct ''t'' (db_rows sample_table)"
  "latest_row (pg_engine sample_pg) ''t'' (db_rows sample_table) = Some sample_row0"
  "waits_for sample_pg ''i'' sample_row0" "waits_for sample_pg ''j'' sample_row2"
  "\<not> resolved_exists ''t'' ''i'' (db_rows sample_table)"
  by (simp_all add: sample_pg_def fault_free_def ids_unique_def sample_table_def times_distinct_def
      latest_row_def thread_rows_def last_opt_def waits_for_def resolved_exists_def yield_simple_def)

text \<open>Two clients win, for the two checkpoints that were Yielded.\<close>

theorem pg_claims_bounded_witness:
  "\<exists>cs' db'. pg_run sample_pg ''t'' (stale_schedule sample_row1 sample_row2)
       (two_clients ''i'' Check_Resolved Check_Resolved, sample_table) (cs', db') \<and>
     card (claimed_by cs') = 2 \<and> card (claimed_by cs') \<le> 1 + 1"
proof -
  obtain cs' db' where r: "pg_run sample_pg ''t'' (stale_schedule sample_row1 sample_row2)
       (two_clients ''i'' Check_Resolved Check_Resolved, sample_table) (cs', db')"
    and c: "claimed_by cs' = {0, 1}"
    using stale_run[OF sample_pg_facts(1,2,4,5,7), of sample_row1 sample_row2 "''j''"] sample_pg_facts(6)
    by (auto simp: sample_table_def)
  have e: "claimed_by (two_clients ''i'' Check_Resolved Check_Resolved) = {}"
    by (auto simp: claimed_by_def two_clients_def nth_Cons')
  from pg_claims_bounded[OF r sample_pg_facts(2) e] c r show ?thesis
    by (intro exI[of _ cs'] exI[of _ db']) (simp add: sample_table_def yielded_rows_def stale_schedule_def)
qed

theorem pg_stale_claim_wins_witness:
  "\<exists>cs' db' l'. pg_run sample_pg ''t'' (stale_schedule sample_row1 sample_row2)
       (two_clients ''i'' Check_Resolved Check_Resolved, sample_table) (cs', db') \<and> claimed_by cs' = {0, 1} \<and>
     latest_row (pg_engine sample_pg) ''t'' (db_rows db') = Some l' \<and> rw_claimed_interrupt l' = Some ''i'' \<and>
     rw_yield_request l' = Some (JString ''j'')"
  using pg_stale_claim_wins[OF sample_pg_facts(1,2,4,5,7), of sample_row1 sample_row2 "''j''"] sample_pg_facts(6)
  by (auto simp: sample_table_def)

theorem postgres_claim_refines_witness:
  "\<exists>r db'. postgres_claim_interrupt sample_pg ''t'' ''i'' (sample_table, sample_sys) =
       Some (r, (db', sample_sys)) \<and> verdict_of r = Won"
proof -
  let ?J = "table_journal (pg_codec sample_pg) id (pg_engine sample_pg) (db_rows sample_table)"
  have "fst (journal_claim ''i'' (?J ''t'')) = Won"
    using sample_pg_facts(4,7) by (simp add: journal_claim_def resolved_table_journal last_table_journal
        awaits_def row_entry_def readable_def sample_pg_def yield_simple_def parse_status.simps)
  with postgres_claim_refines[OF sample_pg_facts(1-3) refl, of "''i''" sample_sys] show ?thesis by metis
qed

end
