(* ===== verification/Sqlite_Store.thy ===== *)
theory Sqlite_Store
  imports Sql "HOL-Library.List_Lexorder" "HOL-Library.Char_ord"
begin

text \<open>
  \<open>src/store/sqlite.rs\<close>. The connection is behind a mutex held for a whole operation, in a task of
  its own: a panic there poisons the mutex and comes back as the error of the join. Times are texts,
  compared byte by byte; a text that does not parse is replaced by the current time.
\<close>

record 's sqlite_lib =
  sl_env :: "'s env"
  sl_engine :: "(string, string) engine"
  sl_codec :: "('s, string) codec"
  sl_rfc3339 :: "timestamp \<Rightarrow> string"               \<comment> \<open>\<open>DateTime::to_rfc3339\<close>\<close>
  sl_parse_rfc3339 :: "string \<Rightarrow> timestamp option"  \<comment> \<open>\<open>DateTime::parse_from_rfc3339\<close>\<close>
  sl_join_error :: string                          \<comment> \<open>\<open>JoinError::to_string\<close> of a panic\<close>

record sqlite =
  sq_db :: "(string, string) database"
  sq_poisoned :: bool

section \<open>Connecting\<close>

text \<open>\<open>connection\<close> is what \<open>Connection::open\<close> gives; a failed migration is ignored.\<close>

definition sqlite_new :: "'s sqlite_lib \<Rightarrow> string + (string, string) database \<Rightarrow>
    (TakelnError + sqlite) option" where
  "sqlite_new lib connection = (case connection of
       Inl e \<Rightarrow> Some (Inl (CheckpointError (''Failed to open SQLite: '' @ e)))
     | Inr db \<Rightarrow> (case statement (sl_engine lib) ''Failed to create table: '' (reading (\<lambda>_. ())) db of
           None \<Rightarrow> None
         | Some (Inl e, _) \<Rightarrow> Some (Inl e)
         | Some (Inr _, db) \<Rightarrow> Some (Inr \<lparr>sq_db = db\<lparr>db_statements := db_statements db + 3\<rparr>,
             sq_poisoned = False\<rparr>)))"

section \<open>Operations\<close>

text \<open>What \<open>spawn_blocking\<close> runs: an operation on the connection under the lock.\<close>

definition locked :: "((string, string) database \<Rightarrow> (TakelnError, 'a, (string, string) database) outcome) \<Rightarrow>
    ('a, sqlite) store_op" where
  "locked f = (\<lambda>(st, y).
     if sq_poisoned st then Some (Inl mutex_poisoning, (st, y))
     else (case f (sq_db st) of
         None \<Rightarrow> None
       | Some (r, db) \<Rightarrow> Some (r, (st\<lparr>sq_db := db\<rparr>, y))))"

definition sqlite_save_state :: "'s sqlite_lib \<Rightarrow> 's save_args \<Rightarrow> (string, sqlite) store_op" where
  "sqlite_save_state lib a = (\<lambda>(st, y).
     (let (u, y) = new_v4 (sl_env lib) y; checkpoint_id = e_uuid_text (sl_env lib) u; cod = sl_codec lib in
      case cd_state cod (sa_state a) of
        Inl e \<Rightarrow> Some (Inl (SerializationError e), (st, y))
      | Inr state_json \<Rightarrow> (case transpose_map (cd_dag cod) (sa_dag a) of
          Inl e \<Rightarrow> Some (Inl (SerializationError e), (st, y))
        | Inr dag_json \<Rightarrow> (case transpose_map (cd_request cod) (sa_yield_request a) of
            Inl e \<Rightarrow> Some (Inl (SerializationError e), (st, y))
          | Inr request_json \<Rightarrow>
              (let (now, y) = utc_now (sl_env lib) y;
                   r = \<lparr>rw_id = checkpoint_id, rw_thread_id = sa_thread_id a, rw_state = state_json,
                     rw_next_node = sa_next_node a, rw_dag = dag_json,
                     rw_status = debug_status (sa_status a), rw_created_at = sl_rfc3339 lib now,
                     rw_yield_request = request_json, rw_claimed_interrupt = sa_claimed_interrupt a,
                     rw_resolved_interrupt = sa_resolved_interrupt a\<rparr>
               in locked (\<lambda>db. then_ok (statement (sl_engine lib) ''Failed to save: ''
                     (insert_row (sl_engine lib) r) db) (\<lambda>_ db. Some (Inr checkpoint_id, db))) (st, y))))))"

text \<open>\<open>conn.prepare\<close>, then the query.\<close>

definition prepared :: "'s sqlite_lib \<Rightarrow> string \<Rightarrow> ((string, string) row list \<Rightarrow> 'a) \<Rightarrow>
    (string, string) database \<Rightarrow> (TakelnError, 'a, (string, string) database) outcome" where
  "prepared lib label f db =
     then_ok (statement (sl_engine lib) ''Failed to prepare: '' (reading (\<lambda>_. ())) db)
       (\<lambda>_ db. statement (sl_engine lib) label (reading f) db)"

definition created_time :: "'s sqlite_lib \<Rightarrow> string \<Rightarrow> sys \<Rightarrow> timestamp \<times> sys" where
  "created_time lib text y = (case sl_parse_rfc3339 lib text of
       Some t \<Rightarrow> (t, y)
     | None \<Rightarrow> utc_now (sl_env lib) y)"

definition sqlite_found :: "'s sqlite_lib \<Rightarrow> string \<Rightarrow> (string, string) row option \<Rightarrow> sys \<Rightarrow>
    (TakelnError + 's loaded) \<times> sys" where
  "sqlite_found lib t ro y = (let cod = sl_codec lib in case ro of
       None \<Rightarrow> (Inr None, y)
     | Some r \<Rightarrow> (case cd_read_state cod (rw_state r) of
           Inl e \<Rightarrow> (Inl (DeserializationError e), y)
         | Inr s \<Rightarrow> (case transpose_map (cd_read_dag cod) (rw_dag r) of
               Inl e \<Rightarrow> (Inl (DeserializationError e), y)
             | Inr d \<Rightarrow>
                 (let (created_at, y) = created_time lib (rw_created_at r) y in
                  case transpose_map (cd_read_request cod) (rw_yield_request r) of
                    Inl e \<Rightarrow> (Inl (DeserializationError e), y)
                  | Inr q \<Rightarrow> (Inr (Some (s, row_meta t created_at q r, d)), y)))))"

text \<open>After the task, on the row it found.\<close>

definition after_row :: "('a, sqlite) store_op \<Rightarrow> ('a \<Rightarrow> sys \<Rightarrow> (TakelnError + 'b) \<times> sys) \<Rightarrow> ('b, sqlite) store_op" where
  "after_row op f = (\<lambda>w. then_ok (op w) (\<lambda>x (st, y). let (r, y) = f x y in Some (r, (st, y))))"

definition sqlite_load_state :: "'s sqlite_lib \<Rightarrow> string \<Rightarrow> ('s loaded, sqlite) store_op" where
  "sqlite_load_state lib t = after_row
     (locked (prepared lib ''Failed to load: '' (latest_row (sl_engine lib) t))) (sqlite_found lib t)"

definition sqlite_load_version :: "'s sqlite_lib \<Rightarrow> string \<Rightarrow> string \<Rightarrow> ('s loaded, sqlite) store_op" where
  "sqlite_load_version lib t checkpoint_id = after_row
     (locked (prepared lib ''Failed to load version: '' (version_row t checkpoint_id))) (sqlite_found lib t)"

fun sqlite_metas :: "'s sqlite_lib \<Rightarrow> string \<Rightarrow> (string, string) row list \<Rightarrow> sys \<Rightarrow>
    (TakelnError + CheckpointMeta list) \<times> sys" where
  "sqlite_metas lib t [] y = (Inr [], y)"
| "sqlite_metas lib t (r # rs) y =
     (let (created_at, y) = created_time lib (rw_created_at r) y in
      case transpose_map (cd_read_request (sl_codec lib)) (rw_yield_request r) of
        Inl e \<Rightarrow> (Inl (DeserializationError e), y)
      | Inr q \<Rightarrow> (case sqlite_metas lib t rs y of
            (Inl e, y) \<Rightarrow> (Inl e, y)
          | (Inr ms, y) \<Rightarrow> (Inr (row_meta t created_at q r # ms), y)))"

definition sqlite_list_checkpoints :: "'s sqlite_lib \<Rightarrow> string \<Rightarrow> (CheckpointMeta list, sqlite) store_op" where
  "sqlite_list_checkpoints lib t = after_row
     (locked (prepared lib ''Failed to list: '' (thread_rows (sl_engine lib) t))) (sqlite_metas lib t)"

definition sqlite_delete_checkpoints ::
  "'s sqlite_lib \<Rightarrow> string \<Rightarrow> RetentionPolicy \<Rightarrow> (nat, sqlite) store_op" where
  "sqlite_delete_checkpoints lib t policy = (\<lambda>(st, y).
     (let delete = (\<lambda>f. locked (statement (sl_engine lib) ''Failed to delete: '' f)) in
      if sq_poisoned st then Some (Inl mutex_poisoning, (st, y))
      else case policy of
        KeepAll \<Rightarrow> Some (Inr 0, (st, y))
      | KeepLast n \<Rightarrow> delete (delete_but_last (sl_engine lib) t n) (st, y)
      | OlderThan d \<Rightarrow>
          (let (now, y) = utc_now (sl_env lib) y in case e_from_std (sl_env lib) d of
              Inl e \<Rightarrow> Some (Inl (CheckpointError e), (st, y))
            | Inr d' \<Rightarrow>
                if now - int d' < e_min_time (sl_env lib)
                then Some (Inl (CheckpointError (''spawn_blocking join error: '' @ sl_join_error lib)),
                       (st\<lparr>sq_poisoned := True\<rparr>, y))
                else delete (delete_older t (sl_rfc3339 lib (now - int d'))) (st, y))))"

section \<open>The claim\<close>

text \<open>The body of the transaction, up to the commit.\<close>

definition sqlite_claim_body :: "'s sqlite_lib \<Rightarrow> string \<Rightarrow> string \<Rightarrow> (string, string) database \<Rightarrow>
    (TakelnError, ClaimResult, (string, string) database) outcome" where
  "sqlite_claim_body lib t i db = (let eng = sl_engine lib in
     then_ok (prepared lib ''Failed to check interrupt: '' (resolved_exists t i) db) (\<lambda>exists db.
       if exists then Some (Inr AlreadyCompleted, db)
       else then_ok (prepared lib ''Failed to read latest: '' (latest_row eng t) db) (\<lambda>latest db.
         case check_claim (sl_codec lib) t i latest of
           Some r \<Rightarrow> Some (r, db)
         | None \<Rightarrow> then_ok (statement eng ''Failed to update: '' (claim_latest eng t i) db) (\<lambda>affected db.
             if affected = 1
             then then_ok (statement eng ''Failed to commit: '' (reading (\<lambda>_. ())) db)
                    (\<lambda>_ db. Some (Inr Claimed, db))
             else Some (Inl (concurrent_claim t), db)))))"

text \<open>A transaction that is dropped before its commit is rolled back.\<close>

definition sqlite_transaction ::
  "(string, string) database \<Rightarrow> (TakelnError, ClaimResult, (string, string) database) outcome \<Rightarrow>
    (TakelnError, ClaimResult, (string, string) database) outcome" where
  "sqlite_transaction db out = (case out of
       Some (r, db') \<Rightarrow> Some (r, if r = Inr Claimed then db' else db'\<lparr>db_rows := db_rows db\<rparr>)
     | None \<Rightarrow> None)"

definition sqlite_claim_interrupt ::
  "'s sqlite_lib \<Rightarrow> string \<Rightarrow> string \<Rightarrow> (ClaimResult, sqlite) store_op" where
  "sqlite_claim_interrupt lib t i = locked (\<lambda>db.
     then_ok (statement (sl_engine lib) ''Failed to start transaction: '' (reading (\<lambda>_. ())) db)
       (\<lambda>_ db. sqlite_transaction db (sqlite_claim_body lib t i db)))"

definition sqlite_checkpointer :: "'s sqlite_lib \<Rightarrow> ('s, sqlite) checkpointer" where
  "sqlite_checkpointer lib = \<lparr>
     ck_current_head = default_current_head,
     ck_save_state_bound = default_save_state_bound (sqlite_save_state lib),
     ck_save_state = sqlite_save_state lib,
     ck_load_state = sqlite_load_state lib,
     ck_load_version = sqlite_load_version lib,
     ck_list_checkpoints = sqlite_list_checkpoints lib,
     ck_delete_checkpoints = sqlite_delete_checkpoints lib,
     ck_claim_interrupt = sqlite_claim_interrupt lib\<rparr>"

end
