(* ===== verification/Sqlite_Properties.thy ===== *)
theory Sqlite_Properties
  imports Sql_Properties Sqlite_Store
begin

text \<open>
  The properties of \<open>src/store/sqlite.rs\<close>: a saved checkpoint is read back, and a claim is the
  compare-and-swap of the journal. Then the samples of the SQL stores.
\<close>

section \<open>Saving and loading\<close>

lemma find_snoc: "(\<And>y. y \<in> set xs \<Longrightarrow> \<not> P y) \<Longrightarrow> P x \<Longrightarrow> find P (xs @ [x]) = Some x"
  by (induction xs) auto

lemma locked_ok:
  assumes "\<not> sq_poisoned st" and "f (sq_db st) = Some (r, db)"
  shows "locked f (st, y) = Some (r, (st\<lparr>sq_db := db\<rparr>, y))"
  using assms by (simp add: locked_def)

lemma prepared_ok:
  assumes "fault_free (sl_engine lib)"
  shows "prepared lib label f db =
     Some (Inr (f (db_rows db)), executed (executed db (db_rows db)) (db_rows db))"
  using assms by (simp add: prepared_def statement_reading)

lemma sqlite_found_row:
  assumes "cd_read_state (sl_codec lib) (rw_state r) = Inr s"
    and "transpose_map (cd_read_dag (sl_codec lib)) (rw_dag r) = Inr d"
    and "transpose_map (cd_read_request (sl_codec lib)) (rw_yield_request r) = Inr q"
    and "sl_parse_rfc3339 lib (rw_created_at r) = Some tm"
  shows "sqlite_found lib t (Some r) y = (Inr (Some (s, row_meta t tm q r, d)), y)"
  using assms by (simp add: sqlite_found_def created_time_def)

text \<open>A checkpoint saved to SQLite is what \<open>load_state\<close> and \<open>load_version\<close> then return: the state,
  the DAG, and every field of the metadata, the status through its text and the time through its RFC
  3339 text.\<close>

theorem sqlite_save_load:
  assumes "fault_free (sl_engine lib)" and "\<not> sq_poisoned st"
    and "cd_state (sl_codec lib) (sa_state a) = Inr v" and "cd_read_state (sl_codec lib) v = Inr (sa_state a)"
    and "transpose_map (cd_dag (sl_codec lib)) (sa_dag a) = Inr d"
    and "transpose_map (cd_read_dag (sl_codec lib)) d = Inr (sa_dag a)"
    and "transpose_map (cd_request (sl_codec lib)) (sa_yield_request a) = Inr q"
    and "transpose_map (cd_read_request (sl_codec lib)) q = Inr (sa_yield_request a)"
    and "now = e_now (sl_env lib) (now_reads y)" and "sl_parse_rfc3339 lib (sl_rfc3339 lib now) = Some now"
    and "c = e_uuid_text (sl_env lib) (e_uuid4 (sl_env lib) (uuid_draws y))"
    and "c \<notin> set (map rw_id (db_rows (sq_db st)))"
    and "\<And>r. r \<in> set (db_rows (sq_db st)) \<Longrightarrow> rw_thread_id r = sa_thread_id a \<Longrightarrow>
       rw_created_at r < sl_rfc3339 lib now"
    and "loaded = Some (sa_state a, \<lparr>cm_checkpoint_id = c, cm_thread_id = sa_thread_id a,
       cm_next_node = sa_next_node a, cm_graph_version = None, cm_state_schema_version = None,
       cm_status = sa_status a, cm_created_at = now, cm_yield_request = sa_yield_request a,
       cm_claimed_interrupt = sa_claimed_interrupt a, cm_resolved_interrupt = sa_resolved_interrupt a\<rparr>,
       sa_dag a)"
  shows "\<exists>st' st1 st2 y'. sqlite_save_state lib a (st, y) = Some (Inr c, (st', y')) \<and>
     sqlite_load_state lib (sa_thread_id a) (st', y') = Some (Inr loaded, (st1, y')) \<and>
     sqlite_load_version lib (sa_thread_id a) c (st', y') = Some (Inr loaded, (st2, y'))"
proof -
  let ?cod = "sl_codec lib" and ?eng = "sl_engine lib" and ?t = "sa_thread_id a"
  let ?y = "(y\<lparr>uuid_draws := Suc (uuid_draws y)\<rparr>)\<lparr>now_reads := Suc (now_reads y)\<rparr>"
  note v = assms(3,4) and d = assms(5,6) and q = assms(7,8)
  let ?r = "\<lparr>rw_id = c, rw_thread_id = ?t, rw_state = v, rw_next_node = sa_next_node a, rw_dag = d,
      rw_status = debug_status (sa_status a), rw_created_at = sl_rfc3339 lib now, rw_yield_request = q,
      rw_claimed_interrupt = sa_claimed_interrupt a, rw_resolved_interrupt = sa_resolved_interrupt a\<rparr>"
  let ?rows = "db_rows (sq_db st) @ [?r]"
  let ?db = "executed (sq_db st) ?rows" let ?st = "st\<lparr>sq_db := ?db\<rparr>"
  let ?db' = "executed (executed ?db ?rows) ?rows"
  have "insert_row ?eng ?r (db_rows (sq_db st)) = Inr ((), ?rows)"
    using assms(12) by (simp add: insert_row_def)
  from statement_ok[where f = "insert_row ?eng ?r", OF assms(1) this]
  have "locked (\<lambda>db. then_ok (statement ?eng ''Failed to save: '' (insert_row ?eng ?r) db)
      (\<lambda>_ db. Some (Inr c, db))) (st, ?y) = Some (Inr c, (?st, ?y))"
    by (intro locked_ok[OF assms(2)]) simp
  then have save: "sqlite_save_state lib a (st, y) = Some (Inr c, (?st, ?y))"
    by (simp add: sqlite_save_state_def new_v4_def utc_now_def v(1) d(1) q(1) Let_def assms(9,11))
  have found: "sqlite_found lib ?t (Some ?r) ?y = (Inr loaded, ?y)"
    using sqlite_found_row[of lib ?r "sa_state a" "sa_dag a" "sa_yield_request a" now ?t ?y] v d q assms(10)
    by (simp add: assms(14) row_meta_def)
  have np: "\<not> sq_poisoned ?st" using assms(2) by simp
  have latest: "latest_row ?eng ?t ?rows = Some ?r"
    by (rule latest_row_snoc) (use assms(13) in simp_all)
  have version: "version_row ?t c ?rows = Some ?r"
    unfolding version_row_def by (rule find_snoc) (use assms(12) in auto)
  have "locked (prepared lib label f) (?st, ?y) = Some (Inr (f ?rows), (?st\<lparr>sq_db := ?db'\<rparr>, ?y))"
    for label and f :: "(string, string) row list \<Rightarrow> (string, string) row option"
    by (rule locked_ok[OF np]) (simp add: prepared_ok[OF assms(1)])
  then show ?thesis
    using save by (simp add: sqlite_load_state_def sqlite_load_version_def after_row_def latest version found)
qed

section \<open>Claiming\<close>

lemma sqlite_claim_spec:
  assumes "fault_free (sl_engine lib)" and "\<not> sq_poisoned st" and "ids_unique (db_rows (sq_db st))"
    and "times_distinct t (db_rows (sq_db st))"
    and "J = table_journal (sl_codec lib) tm (sl_engine lib) (db_rows (sq_db st))"
  shows "\<exists>r st'. sqlite_claim_interrupt lib t i (st, y) = Some (r, (st', y)) \<and> \<not> sq_poisoned st' \<and>
     claimed_rows (sl_engine lib) t i (db_rows (sq_db st)) (db_rows (sq_db st')) \<and>
     verdict_of r = fst (journal_claim i (J t)) \<and>
     table_journal (sl_codec lib) tm (sl_engine lib) (db_rows (sq_db st')) =
       J(t := snd (journal_claim i (J t)))"
proof -
  let ?eng = "sl_engine lib" and ?cod = "sl_codec lib" and ?rows = "db_rows (sq_db st)"
  let ?db = "executed (sq_db st) ?rows"
  have "\<exists>r db'. sqlite_transaction ?db (sqlite_claim_body lib t i ?db) = Some (r, db') \<and>
      claimed_rows ?eng t i ?rows (db_rows db') \<and> verdict_of r = fst (journal_claim i (J t)) \<and>
      table_journal ?cod tm ?eng (db_rows db') = J(t := snd (journal_claim i (J t)))"
  proof (cases "resolved_exists t i ?rows")
    case True
    then have "journal_claim i (J t) = (Settled, J t)"
      by (simp add: journal_claim_def assms(5) resolved_table_journal)
    with True show ?thesis
      by (simp add: sqlite_claim_body_def prepared_ok[OF assms(1)] Let_def sqlite_transaction_def assms(5) claimed_rows_def)
  next
    case False
    note j = check_claim_journal[OF False, where cod = ?cod and eng = ?eng and tm = tm]
    show ?thesis
    proof (cases "check_claim ?cod t i (latest_row ?eng t ?rows)")
      case (Some r)
      have "r \<noteq> Inr Claimed"
        using Some by (auto simp: check_claim_def Let_def split: option.splits sum.splits if_splits)
      with False Some j show ?thesis
        by (simp add: sqlite_claim_body_def prepared_ok[OF assms(1)] Let_def sqlite_transaction_def assms(5) claimed_rows_def)
    next
      case None
      with j obtain l where l: "latest_row ?eng t ?rows = Some l" "rw_status l = ''Yielded''"
        and jc: "journal_claim i (J t) = (Won, butlast (J t) @ [claim_entry i (row_entry ?cod tm l)])"
        by (auto simp: assms(5))
      have cl: "claim_latest ?eng t i ?rows = Inr (1, map (claimed_at i l) ?rows)"
        using l(2) by (simp add: claim_latest_Some[OF l(1) assms(3)])
      have up: "statement ?eng label (claim_latest ?eng t i) db =
          Some (Inr 1, executed db (map (claimed_at i l) ?rows))" if "db_rows db = ?rows" for label db
        using statement_ok[where f = "claim_latest ?eng t i", OF assms(1)] cl that by simp
      show ?thesis
        using False None jc table_journal_claimed[OF l(1) assms(3,4) l(2), where cod = ?cod and tm = tm and i = i]
        by (simp add: sqlite_claim_body_def prepared_ok[OF assms(1)] Let_def up statement_reading[OF assms(1)]
            sqlite_transaction_def assms(5) claimed_rows_def l(1))
    qed
  qed
  then obtain r db' where b: "sqlite_transaction ?db (sqlite_claim_body lib t i ?db) = Some (r, db')"
    and p: "claimed_rows ?eng t i ?rows (db_rows db')" "verdict_of r = fst (journal_claim i (J t))"
      "table_journal ?cod tm ?eng (db_rows db') = J(t := snd (journal_claim i (J t)))" by blast
  have "sqlite_claim_interrupt lib t i (st, y) = Some (r, (st\<lparr>sq_db := db'\<rparr>, y))"
    unfolding sqlite_claim_interrupt_def
    by (rule locked_ok[OF assms(2)]) (simp add: statement_reading[OF assms(1)] b)
  with p assms(2) show ?thesis by (intro exI[of _ r] exI[of _ "st\<lparr>sq_db := db'\<rparr>"]) simp
qed

text \<open>C35: a SQLite claim, one transaction under the lock, is the compare-and-swap of the journal: it
  wins, finds the claim in progress or the interrupt completed, or is refused, as \<open>journal_claim\<close> decides
  (the errors of a refusal are one verdict), and changes the threads as it does.\<close>

theorem sqlite_claim_refines:
  assumes "fault_free (sl_engine lib)" and "\<not> sq_poisoned st" and "ids_unique (db_rows (sq_db st))"
    and "times_distinct t (db_rows (sq_db st))"
    and "J = table_journal (sl_codec lib) tm (sl_engine lib) (db_rows (sq_db st))"
  shows "\<exists>r st'. sqlite_claim_interrupt lib t i (st, y) = Some (r, (st', y)) \<and>
     verdict_of r = fst (journal_claim i (J t)) \<and>
     table_journal (sl_codec lib) tm (sl_engine lib) (db_rows (sq_db st')) =
       J(t := snd (journal_claim i (J t)))"
  using sqlite_claim_spec[OF assms] by blast

section \<open>Samples\<close>

text \<open>States as runs of a character, times as runs of another: both orders are kept.\<close>

definition sample_sqlite :: "nat sqlite_lib" where
  "sample_sqlite = \<lparr>sl_env = sample_env, sl_engine = \<lparr>en_fault = (\<lambda>_. None), en_tie = (\<lambda>_. 0),
       en_duplicate_id = ''UNIQUE constraint failed'', en_bad_limit = ''out of range''\<rparr>,
     sl_codec = \<lparr>cd_state = (\<lambda>s. Inr (replicate s (CHR ''i''))), cd_read_state = (\<lambda>v. Inr (length v)),
       cd_dag = (\<lambda>_. Inl ''no encoding''), cd_read_dag = (\<lambda>_. Inl ''no encoding''),
       cd_request = (\<lambda>q. Inr (yr_interrupt_id q)), cd_read_request = (\<lambda>v. Inr (yield_simple v))\<rparr>,
     sl_rfc3339 = (\<lambda>tm. replicate (nat tm) (CHR ''t'')), sl_parse_rfc3339 = (\<lambda>v. Some (int (length v))),
     sl_join_error = ''panic''\<rparr>"

definition sqlite_empty :: sqlite where
  "sqlite_empty = \<lparr>sq_db = \<lparr>db_rows = [], db_statements = 0\<rparr>, sq_poisoned = False\<rparr>"

definition sample_save :: "nat save_args" where
  "sample_save = \<lparr>sa_thread_id = ''t'', sa_state = 5, sa_next_node = ''gate'', sa_dag = None,
     sa_status = CheckpointStatus.Yielded, sa_yield_request = Some (yield_simple ''i''),
     sa_claimed_interrupt = None, sa_resolved_interrupt = Some ''h''\<rparr>"

theorem sqlite_save_load_witness:
  "\<exists>c m st' st1 y'. sqlite_save_state sample_sqlite sample_save (sqlite_empty, sample_sys) =
       Some (Inr c, (st', y')) \<and>
     sqlite_load_state sample_sqlite ''t'' (st', y') = Some (Inr (Some (5, m, None)), (st1, y')) \<and>
     cm_status m = CheckpointStatus.Yielded \<and> cm_yield_request m = Some (yield_simple ''i'')"
proof -
  let ?c = "e_uuid_text sample_env (e_uuid4 sample_env (uuid_draws sample_sys))"
  let ?now = "e_now sample_env (now_reads sample_sys)"
  let ?m = "\<lparr>cm_checkpoint_id = ?c, cm_thread_id = ''t'', cm_next_node = ''gate'', cm_graph_version = None,
      cm_state_schema_version = None, cm_status = CheckpointStatus.Yielded, cm_created_at = ?now,
      cm_yield_request = Some (yield_simple ''i''), cm_claimed_interrupt = None,
      cm_resolved_interrupt = Some ''h''\<rparr>"
  have "\<exists>st' st1 st2 y'. sqlite_save_state sample_sqlite sample_save (sqlite_empty, sample_sys) =
       Some (Inr ?c, (st', y')) \<and>
     sqlite_load_state sample_sqlite (sa_thread_id sample_save) (st', y') =
       Some (Inr (Some (5, ?m, None)), (st1, y')) \<and>
     sqlite_load_version sample_sqlite (sa_thread_id sample_save) ?c (st', y') =
       Some (Inr (Some (5, ?m, None)), (st2, y'))"
    by (rule sqlite_save_load[where v = "replicate 5 (CHR ''i'')" and d = None and q = "Some ''i''" and now = ?now])
       (simp_all add: sample_sqlite_def fault_free_def sqlite_empty_def sample_save_def transpose_map_def
          yield_simple_def sample_sys_def sample_env_def)
  then show ?thesis by (fastforce simp: sample_save_def)
qed

definition sqlite_waiting :: sqlite where
  "sqlite_waiting = \<lparr>sq_db = \<lparr>db_rows = [\<lparr>rw_id = ''0'', rw_thread_id = ''t'', rw_state = [],
       rw_next_node = ''gate'', rw_dag = None, rw_status = ''Yielded'', rw_created_at = [],
       rw_yield_request = Some ''i'', rw_claimed_interrupt = None, rw_resolved_interrupt = None\<rparr>],
     db_statements = 0\<rparr>, sq_poisoned = False\<rparr>"

theorem sqlite_claim_refines_witness:
  "\<exists>r st'. sqlite_claim_interrupt sample_sqlite ''t'' ''i'' (sqlite_waiting, sample_sys) =
       Some (r, (st', sample_sys)) \<and> verdict_of r = Won"
proof -
  let ?J = "table_journal (sl_codec sample_sqlite) (\<lambda>_. 0) (sl_engine sample_sqlite) (db_rows (sq_db sqlite_waiting))"
  have f: "fault_free (sl_engine sample_sqlite)" "\<not> sq_poisoned sqlite_waiting"
    "ids_unique (db_rows (sq_db sqlite_waiting))" "times_distinct ''t'' (db_rows (sq_db sqlite_waiting))"
    by (simp_all add: sample_sqlite_def fault_free_def sqlite_waiting_def ids_unique_def times_distinct_def)
  have "fst (journal_claim ''i'' (?J ''t'')) = Won"
    by (simp add: journal_claim_def table_journal_def thread_rows_def sqlite_waiting_def resolved_in_def
        last_opt_def awaits_def row_entry_def readable_def sample_sqlite_def yield_simple_def parse_status.simps)
  with sqlite_claim_refines[OF f refl, where tm = "\<lambda>_. 0" and i = "''i''" and y = sample_sys]
  show ?thesis by metis
qed

end
