(* ===== verification/Sql_Types.thy ===== *)
theory Sql_Types
  imports Sqlite_Properties
begin

text \<open>
  The typing of the table \<open>takeln_checkpoints\<close>: the primary key is one, every status is the text of
  a \<open>CheckpointStatus\<close> and every JSON column holds what the program can read back. Every operation
  of the SQLite store preserves it, whatever statements fail, and on a typed table no operation
  fails to decode what it finds.
\<close>

section \<open>Typed tables\<close>

text \<open>What \<open>serde\<close> promises for derived instances: what was written is read back.\<close>

definition lossless :: "('s, 'j) codec \<Rightarrow> bool" where
  "lossless cod \<longleftrightarrow>
     (\<forall>s v. cd_state cod s = Inr v \<longrightarrow> cd_read_state cod v = Inr s) \<and>
     (\<forall>d v. cd_dag cod d = Inr v \<longrightarrow> cd_read_dag cod v = Inr d) \<and>
     (\<forall>q v. cd_request cod q = Inr v \<longrightarrow> cd_read_request cod v = Inr q)"

definition typed_row :: "('s, 'j) codec \<Rightarrow> ('j, 'ts) row \<Rightarrow> bool" where
  "typed_row cod r \<longleftrightarrow> (\<exists>s. cd_read_state cod (rw_state r) = Inr s) \<and>
     (\<exists>d. transpose_map (cd_read_dag cod) (rw_dag r) = Inr d) \<and>
     (\<exists>q. transpose_map (cd_read_request cod) (rw_yield_request r) = Inr q) \<and>
     (\<exists>st. rw_status r = debug_status st)"

definition typed_table :: "('s, 'j) codec \<Rightarrow> ('j, 'ts) row list \<Rightarrow> bool" where
  "typed_table cod rows \<longleftrightarrow> ids_unique rows \<and> (\<forall>r \<in> set rows. typed_row cod r)"

definition undecodable :: "TakelnError + 'a \<Rightarrow> bool" where
  "undecodable r \<longleftrightarrow> (\<exists>e. r = Inl (DeserializationError e))"

lemma undecodable_simps [simp]:
  "\<not> undecodable (Inr x)" "undecodable (Inl (DeserializationError e))"
  "\<not> undecodable (Inl (CheckpointError e))" "\<not> undecodable (Inl (NothingToResume e))"
  "\<not> undecodable (Inl (InvalidResume e))" "\<not> undecodable (Inl (ExecutionError e))"
  by (simp_all add: undecodable_def)

lemma transpose_map_lossless:
  assumes "\<And>x v. w x = Inr v \<Longrightarrow> rd v = Inr x" and "transpose_map w x = Inr v"
  shows "transpose_map rd v = Inr x"
  using assms by (auto simp: transpose_map_def split: option.splits sum.splits)

lemma typed_insert:
  assumes "typed_table cod rows" and "typed_row cod r" and "insert_row eng r rows = Inr (x, rows')"
  shows "typed_table cod rows'"
  using assms by (auto simp: typed_table_def ids_unique_def insert_row_def split: if_splits)

lemma typed_delete:
  assumes "typed_table cod rows" and "delete_rows P rows = Inr (n, rows')"
  shows "typed_table cod rows'"
proof -
  have "distinct (map rw_id (filter (\<lambda>r. \<not> P r) rows))"
    using assms(1) by (simp add: typed_table_def ids_unique_def distinct_map_filter)
  with assms show ?thesis by (auto simp: typed_table_def ids_unique_def delete_rows_def)
qed

lemma typed_claim_row: "typed_row cod r \<Longrightarrow> typed_row cod (claim_row i r)"
proof -
  have "\<exists>st. ''Running'' = debug_status st" by (rule exI[of _ CheckpointStatus.Running]) simp
  then show "typed_row cod r \<Longrightarrow> typed_row cod (claim_row i r)"
    unfolding typed_row_def claim_row_def by auto
qed

lemma typed_claim:
  assumes "typed_table cod rows" and "claim_latest eng t i rows = Inr (n, rows')"
  shows "typed_table cod rows'"
proof (cases "latest_row eng t rows")
  case (Some l)
  let ?f = "\<lambda>r. if rw_id r = rw_id l \<and> rw_status r = ''Yielded'' then claim_row i r else r"
  have rows': "rows' = map ?f rows" using assms(2) Some by (simp add: claim_latest_def Let_def)
  have "map rw_id rows' = map rw_id rows" by (simp add: rows' claim_row_def)
  moreover have "\<forall>r \<in> set rows'. typed_row cod r"
    using assms(1) by (auto simp: typed_table_def rows' intro: typed_claim_row)
  ultimately show ?thesis using assms(1) by (simp add: typed_table_def ids_unique_def)
qed (use assms in \<open>simp add: claim_latest_None\<close>)

lemma typed_statement:
  assumes "statement eng label f db = Some (r, db')" and "typed_table cod (db_rows db)"
    and "\<And>x rows'. f (db_rows db) = Inr (x, rows') \<Longrightarrow> typed_table cod rows'"
  shows "typed_table cod (db_rows db')"
  using statement_rows[OF assms(1)] assms(2,3) by auto

lemma statement_error:
  "statement eng label f db = Some (Inl e, db') \<Longrightarrow> \<exists>msg. e = CheckpointError msg"
  by (auto simp: statement_def Let_def split: option.splits sum.splits)

section \<open>The operations of the SQLite store\<close>

text \<open>Any operation, by any caller, whatever it answers.\<close>

inductive sqlite_step :: "'s sqlite_lib \<Rightarrow> sqlite \<times> sys \<Rightarrow> sqlite \<times> sys \<Rightarrow> bool" for lib where
  save: "sqlite_save_state lib a w = Some (r, w') \<Longrightarrow> sqlite_step lib w w'"
| load: "sqlite_load_state lib t w = Some (r, w') \<Longrightarrow> sqlite_step lib w w'"
| version: "sqlite_load_version lib t c w = Some (r, w') \<Longrightarrow> sqlite_step lib w w'"
| list: "sqlite_list_checkpoints lib t w = Some (r, w') \<Longrightarrow> sqlite_step lib w w'"
| delete: "sqlite_delete_checkpoints lib t p w = Some (r, w') \<Longrightarrow> sqlite_step lib w w'"
| claim: "sqlite_claim_interrupt lib t i w = Some (r, w') \<Longrightarrow> sqlite_step lib w w'"

abbreviation sqlite_rows :: "sqlite \<times> sys \<Rightarrow> (string, string) row list" where
  "sqlite_rows w \<equiv> db_rows (sq_db (fst w))"

lemma locked_rows:
  assumes "locked f w = Some (r, w')"
  shows "(\<exists>msg. r = Inl (CheckpointError msg) \<and> w' = w) \<or>
     (\<exists>db'. f (sq_db (fst w)) = Some (r, db') \<and> sqlite_rows w' = db_rows db')"
  using assms by (cases w) (auto simp: locked_def mutex_poisoning_def split: if_splits option.splits)

lemma prepared_rows:
  assumes "prepared lib label f db = Some (r, db')"
  shows "db_rows db' = db_rows db \<and> ((\<exists>msg. r = Inl (CheckpointError msg)) \<or> r = Inr (f (db_rows db)))"
proof -
  obtain r1 db1 where s: "statement (sl_engine lib) ''Failed to prepare: '' (reading (\<lambda>_. ())) db = Some (r1, db1)"
    using statement_returns by (metis not_None_eq surj_pair)
  show ?thesis
  proof (cases r1)
    case (Inl e)
    with assms s statement_error[of _ _ _ _ e] statement_reading_rows(1)[OF s] show ?thesis
      by (auto simp: prepared_def)
  next
    case (Inr u)
    with assms s have q: "statement (sl_engine lib) label (reading f) db1 = Some (r, db')"
      by (simp add: prepared_def)
    from statement_reading_rows(1)[OF s] statement_reading_rows[OF q] statement_error q show ?thesis
      by (cases r) fastforce+
  qed
qed

lemma sqlite_found_ok:
  assumes "\<And>r. ro = Some r \<Longrightarrow> typed_row (sl_codec lib) r"
  shows "\<not> undecodable (fst (sqlite_found lib t ro y))"
  using assms
  by (cases ro) (auto simp: sqlite_found_def typed_row_def Let_def split: prod.splits)

lemma sqlite_metas_ok:
  "(\<And>r. r \<in> set rows \<Longrightarrow> typed_row (sl_codec lib) r) \<Longrightarrow> \<not> undecodable (fst (sqlite_metas lib t rows y))"
proof (induction lib t rows y rule: sqlite_metas.induct)
  case (2 lib t r rs y)
  obtain tm y1 where c: "created_time lib (rw_created_at r) y = (tm, y1)" by fastforce
  obtain q where q: "transpose_map (cd_read_request (sl_codec lib)) (rw_yield_request r) = Inr q"
    using 2(2)[of r] by (auto simp: typed_row_def)
  from 2(1)[OF c[symmetric] refl q] 2(2) show ?case
    by (auto simp: c q split: prod.splits sum.splits)
qed simp

text \<open>A read does not change the table and decodes what it found.\<close>

lemma after_prepared:
  assumes "after_row (locked (prepared lib label f)) g w = Some (r, w')"
    and "\<And>y. \<not> undecodable (fst (g (f (sqlite_rows w)) y))"
  shows "sqlite_rows w' = sqlite_rows w \<and> \<not> undecodable r"
proof -
  from assms(1) obtain r1 w1 where l: "locked (prepared lib label f) w = Some (r1, w1)"
    by (auto simp: after_row_def then_ok_def split: option.splits)
  then have rows: "sqlite_rows w1 = sqlite_rows w"
    and r1: "(\<exists>msg. r1 = Inl (CheckpointError msg)) \<or> r1 = Inr (f (sqlite_rows w))"
    using locked_rows[OF l] prepared_rows[of lib label f] by metis+
  from r1 show ?thesis
  proof
    assume "\<exists>msg. r1 = Inl (CheckpointError msg)"
    with assms(1) l rows show ?thesis by (auto simp: after_row_def)
  next
    assume "r1 = Inr (f (sqlite_rows w))"
    moreover obtain st1 y1 where "w1 = (st1, y1)" by fastforce
    ultimately show ?thesis
      using assms(1) assms(2)[of y1] l rows by (auto simp: after_row_def Let_def split: prod.splits)
  qed
qed

lemma typed_at: "typed_table cod rows \<Longrightarrow> r \<in> set rows \<Longrightarrow> typed_row cod r"
  by (simp add: typed_table_def)

lemma version_row_in: "version_row t c rows = Some r \<Longrightarrow> r \<in> set rows"
  by (auto simp: version_row_def find_Some_iff)

lemma load_ok:
  "typed_table (sl_codec lib) (sqlite_rows w) \<Longrightarrow> sqlite_load_state lib t w = Some (r, w') \<Longrightarrow>
     sqlite_rows w' = sqlite_rows w \<and> \<not> undecodable r"
  unfolding sqlite_load_state_def
  by (erule after_prepared) (auto intro!: sqlite_found_ok intro: typed_at dest: latest_row_in)

lemma version_ok:
  "typed_table (sl_codec lib) (sqlite_rows w) \<Longrightarrow> sqlite_load_version lib t c w = Some (r, w') \<Longrightarrow>
     sqlite_rows w' = sqlite_rows w \<and> \<not> undecodable r"
  unfolding sqlite_load_version_def
  by (erule after_prepared) (auto intro!: sqlite_found_ok intro: typed_at dest: version_row_in)

lemma list_ok:
  "typed_table (sl_codec lib) (sqlite_rows w) \<Longrightarrow> sqlite_list_checkpoints lib t w = Some (r, w') \<Longrightarrow>
     sqlite_rows w' = sqlite_rows w \<and> \<not> undecodable r"
  unfolding sqlite_list_checkpoints_def
  by (erule after_prepared) (auto intro!: sqlite_metas_ok intro: typed_at)

lemma locked_statement:
  assumes "locked (\<lambda>db. then_ok (statement eng label f db) (\<lambda>x db. Some (k x, db))) w = Some (r, w')"
    and "typed_table cod (sqlite_rows w)"
    and "\<And>x rows'. f (sqlite_rows w) = Inr (x, rows') \<Longrightarrow> typed_table cod rows'"
  shows "typed_table cod (sqlite_rows w')"
  using locked_rows[OF assms(1)] assms(2)
proof (elim disjE exE conjE)
  fix db'
  assume t: "then_ok (statement eng label f (sq_db (fst w))) (\<lambda>x db. Some (k x, db)) = Some (r, db')"
    and rows: "sqlite_rows w' = db_rows db'"
  then obtain r1 where "statement eng label f (sq_db (fst w)) = Some (r1, db')"
    by (auto simp: then_ok_Some)
  from typed_statement[OF this assms(2,3)] rows show ?thesis by simp
qed simp

lemma save_ok:
  assumes "lossless (sl_codec lib)" and "typed_table (sl_codec lib) (sqlite_rows w)"
    and "sqlite_save_state lib a w = Some (r, w')"
  shows "typed_table (sl_codec lib) (sqlite_rows w')"
proof -
  let ?cod = "sl_codec lib"
  obtain st y where w: "w = (st, y)" by fastforce
  show ?thesis
  proof (cases "cd_state ?cod (sa_state a)"; cases "transpose_map (cd_dag ?cod) (sa_dag a)";
      cases "transpose_map (cd_request ?cod) (sa_yield_request a)")
    fix v d q
    assume v: "cd_state ?cod (sa_state a) = Inr v" and d: "transpose_map (cd_dag ?cod) (sa_dag a) = Inr d"
      and q: "transpose_map (cd_request ?cod) (sa_yield_request a) = Inr q"
    obtain c now y' where l: "locked (\<lambda>db. then_ok (statement (sl_engine lib) ''Failed to save: ''
        (insert_row (sl_engine lib) \<lparr>rw_id = c, rw_thread_id = sa_thread_id a, rw_state = v,
           rw_next_node = sa_next_node a, rw_dag = d, rw_status = debug_status (sa_status a),
           rw_created_at = sl_rfc3339 lib now, rw_yield_request = q,
           rw_claimed_interrupt = sa_claimed_interrupt a,
           rw_resolved_interrupt = sa_resolved_interrupt a\<rparr>) db)
        (\<lambda>_ db. Some (Inr c, db))) (st, y') = Some (r, w')" (is "locked (\<lambda>db. then_ok (statement _ _ (insert_row _ ?r) db) _) _ = _")
      using assms(3) v d q by (auto simp: w sqlite_save_state_def Let_def split: prod.splits)
    have "typed_row ?cod ?r"
      using assms(1) v transpose_map_lossless[OF _ d, of "cd_read_dag ?cod"]
        transpose_map_lossless[OF _ q, of "cd_read_request ?cod"]
      by (auto simp: typed_row_def lossless_def)
    then show ?thesis
      using locked_statement[OF l, of ?cod] typed_insert[of ?cod _ ?r] assms(2) by (simp add: w)
  qed (use assms(2,3) in \<open>auto simp: w sqlite_save_state_def Let_def split: prod.splits\<close>)
qed

lemma delete_ok:
  assumes "typed_table cod (sqlite_rows w)" and "sqlite_delete_checkpoints lib t p w = Some (r, w')"
  shows "typed_table cod (sqlite_rows w')"
proof -
  have run: "typed_table cod (sqlite_rows w')"
    if l: "locked (statement (sl_engine lib) label f) (st, y) = Some (r, w')" and st: "st = fst w"
      and f: "\<And>n rows'. f (sqlite_rows w) = Inr (n, rows') \<Longrightarrow> typed_table cod rows'"
    for st y label and f :: "(string, string) row list \<Rightarrow> string + nat \<times> (string, string) row list"
    using locked_rows[OF l] assms(1) typed_statement[of "sl_engine lib" label f "sq_db st"] f st by fastforce
  have last: "typed_table cod rows'" if "delete_but_last (sl_engine lib) t n (sqlite_rows w) = Inr (m, rows')" for n m rows'
    using that typed_delete[OF assms(1)] by (auto simp: delete_but_last_def Let_def split: if_splits)
  have older: "typed_table cod rows'" if "delete_older t cutoff (sqlite_rows w) = Inr (m, rows')" for cutoff m rows'
    using that typed_delete[OF assms(1)] by (auto simp: delete_older_def)
  obtain st y where w: "w = (st, y)" by fastforce
  show ?thesis
  proof (cases p)
    case (KeepLast n)
    with assms run last show ?thesis
      by (auto simp: w sqlite_delete_checkpoints_def split: if_splits)
  next
    case (OlderThan d)
    with assms run older show ?thesis
      by (auto simp: w sqlite_delete_checkpoints_def Let_def split: if_splits prod.splits sum.splits)
  qed (use assms in \<open>auto simp: w sqlite_delete_checkpoints_def split: if_splits\<close>)
qed

lemma check_claim_ok:
  assumes "\<And>r. latest = Some r \<Longrightarrow> typed_row cod r" and "check_claim cod t i latest = Some r"
  shows "\<not> undecodable r"
proof -
  have "\<exists>q. cd_read_request cod v = Inr q" if "latest = Some l" "rw_yield_request l = Some v" for l v
    using assms(1)[OF that(1)] that(2)
    by (auto simp: typed_row_def transpose_map_def split: sum.splits)
  with assms(2) show ?thesis
    by (force simp: check_claim_def Let_def already_running_def not_yielded_def no_yield_metadata_def
        wrong_interrupt_def split: option.splits if_splits sum.splits)
qed

lemma prepared_returns: "\<exists>r db'. prepared lib label f db = Some (r, db')"
  by (auto simp: prepared_def then_ok_def statement_def reading_def Let_def split: option.splits)

lemma claim_update_ok:
  assumes "typed_table cod (db_rows db)"
    and "then_ok (statement eng ''Failed to update: '' (claim_latest eng t i) db) (\<lambda>affected db.
       if affected = 1
       then then_ok (statement eng ''Failed to commit: '' (reading (\<lambda>_. ())) db) (\<lambda>_ db. Some (Inr Claimed, db))
       else Some (Inl (concurrent_claim t), db)) = Some (r, db')"
  shows "\<not> undecodable r \<and> typed_table cod (db_rows db')"
proof -
  obtain r3 db3 where up: "statement eng ''Failed to update: '' (claim_latest eng t i) db = Some (r3, db3)"
    using statement_returns by (metis not_None_eq surj_pair)
  have typed: "typed_table cod (db_rows db3)"
    by (rule typed_statement[OF up assms(1)]) (use assms(1) in \<open>auto intro: typed_claim\<close>)
  obtain r4 db4 where commit: "statement eng ''Failed to commit: '' (reading (\<lambda>_. ())) db3 = Some (r4, db4)"
    using statement_returns by (metis not_None_eq surj_pair)
  have e3: "\<exists>msg. e = CheckpointError msg" if "r3 = Inl e" for e using statement_error up that by blast
  have e4: "\<exists>msg. e = CheckpointError msg" if "r4 = Inl e" for e using statement_error commit that by blast
  show ?thesis
    using assms(2) up commit typed statement_reading_rows(1)[OF commit]
    by (cases r3; cases r4) (auto simp: concurrent_claim_def split: if_splits dest!: e3 e4)
qed

lemma claim_body_ok:
  assumes "typed_table (sl_codec lib) (db_rows db)" and "sqlite_claim_body lib t i db = Some (r, db')"
  shows "\<not> undecodable r \<and> typed_table (sl_codec lib) (db_rows db')"
proof -
  obtain r1 db1 where exists: "prepared lib ''Failed to check interrupt: '' (resolved_exists t i) db = Some (r1, db1)"
    using prepared_returns by blast
  obtain r2 db2 where read: "prepared lib ''Failed to read latest: '' (latest_row (sl_engine lib) t) db1 = Some (r2, db2)"
    using prepared_returns by blast
  note p1 = prepared_rows[OF exists] and p2 = prepared_rows[OF read]
  then have rows: "db_rows db1 = db_rows db" "db_rows db2 = db_rows db" by simp_all
  have claim: "check_claim (sl_codec lib) t i latest = Some answer \<Longrightarrow> \<not> undecodable answer"
    if "r2 = Inr latest" for latest answer
    by (rule check_claim_ok) (use that p2 rows assms(1) in \<open>auto intro: typed_at dest: latest_row_in\<close>)
  show ?thesis
  proof (cases "r1 = Inr False \<and> (\<exists>latest. r2 = Inr latest \<and> check_claim (sl_codec lib) t i latest = None)")
    case True
    then show ?thesis
      using assms exists read rows claim_update_ok[of "sl_codec lib" db2 "sl_engine lib" t i r db']
      by (auto simp: sqlite_claim_body_def Let_def)
  next
    case False
    then show ?thesis
      using assms exists read rows p1 p2 claim
      by (cases r1; cases r2) (auto simp: sqlite_claim_body_def Let_def split: if_splits option.splits)
  qed
qed

lemma claim_ok:
  assumes "typed_table (sl_codec lib) (sqlite_rows w)" and "sqlite_claim_interrupt lib t i w = Some (r, w')"
  shows "\<not> undecodable r \<and> typed_table (sl_codec lib) (sqlite_rows w')"
  using locked_rows[OF assms(2)[unfolded sqlite_claim_interrupt_def]] assms(1)
proof (elim disjE exE conjE)
  fix db'
  let ?db = "sq_db (fst w)"
  assume t: "then_ok (statement (sl_engine lib) ''Failed to start transaction: '' (reading (\<lambda>_. ())) ?db)
      (\<lambda>_ db. sqlite_transaction db (sqlite_claim_body lib t i db)) = Some (r, db')"
    and rows: "sqlite_rows w' = db_rows db'"
  obtain r1 db1 where s: "statement (sl_engine lib) ''Failed to start transaction: '' (reading (\<lambda>_. ())) ?db = Some (r1, db1)"
    using statement_returns by (metis not_None_eq surj_pair)
  note same = statement_reading_rows(1)[OF s]
  show ?thesis
  proof (cases r1)
    case (Inl e)
    with s obtain msg where "e = CheckpointError msg" using statement_error by blast
    with t s same rows assms(1) Inl show ?thesis by auto
  next
    case (Inr u)
    with t s obtain db2 where "sqlite_claim_body lib t i db1 = Some (r, db2)"
      and "db_rows db' = (if r = Inr Claimed then db_rows db2 else db_rows db1)"
      by (auto simp: sqlite_transaction_def split: option.splits if_splits)
    with claim_body_ok[of lib db1 t i r db2] same rows assms(1) show ?thesis by simp
  qed
qed auto

section \<open>Soundness\<close>

lemma sqlite_step_typed:
  assumes "lossless (sl_codec lib)" and "sqlite_step lib w w'" and "typed_table (sl_codec lib) (sqlite_rows w)"
  shows "typed_table (sl_codec lib) (sqlite_rows w')"
  using assms(2)
proof cases
  case (save a r)
  with save_ok[OF assms(1,3)] show ?thesis by blast
next
  case (delete t p r)
  with delete_ok[OF assms(3)] show ?thesis by blast
next
  case (claim t i r)
  with claim_ok[OF assms(3)] show ?thesis by blast
next
  case (load t r)
  with load_ok[OF assms(3)] assms(3) show ?thesis by metis
next
  case (version t c r)
  with version_ok[OF assms(3)] assms(3) show ?thesis by metis
next
  case (list t r)
  with list_ok[OF assms(3)] assms(3) show ?thesis by metis
qed

text \<open>C36: the SQLite store is type sound: from a typed table, a new one for instance, any sequence of
  operations leads to a typed table, whatever statements fail and whatever is deleted or claimed, and
  there no load, listing or claim fails to decode a row.\<close>

theorem sqlite_type_sound:
  assumes "lossless (sl_codec lib)" and "typed_table (sl_codec lib) (sqlite_rows w0)"
    and "(sqlite_step lib)\<^sup>*\<^sup>* w0 w"
  shows "typed_table (sl_codec lib) (sqlite_rows w) \<and>
     (\<forall>t r w'. sqlite_load_state lib t w = Some (r, w') \<longrightarrow> \<not> undecodable r) \<and>
     (\<forall>t c r w'. sqlite_load_version lib t c w = Some (r, w') \<longrightarrow> \<not> undecodable r) \<and>
     (\<forall>t r w'. sqlite_list_checkpoints lib t w = Some (r, w') \<longrightarrow> \<not> undecodable r) \<and>
     (\<forall>t i r w'. sqlite_claim_interrupt lib t i w = Some (r, w') \<longrightarrow> \<not> undecodable r)"
proof -
  have t: "typed_table (sl_codec lib) (sqlite_rows w)"
    using assms(3,2) by (induction rule: rtranclp_induct) (auto intro: sqlite_step_typed[OF assms(1)])
  then show ?thesis using load_ok[OF t] version_ok[OF t] list_ok[OF t] claim_ok[OF t] by blast
qed

text \<open>The codec of the samples cannot encode a DAG and loses most of a request; this one is lossless.\<close>

definition sound_sqlite :: "nat sqlite_lib" where
  "sound_sqlite = sample_sqlite\<lparr>sl_codec := (sl_codec sample_sqlite)\<lparr>cd_request := (\<lambda>q.
     if q = yield_simple (yr_interrupt_id q) then Inr (yr_interrupt_id q) else Inl ''not simple'')\<rparr>\<rparr>"

lemma prepared_not_None: "prepared lib label f db \<noteq> None"
  using prepared_returns[of lib label f db] by auto

lemma sqlite_save_returns: "sqlite_save_state lib a w \<noteq> None"
  by (cases w)
     (auto simp: sqlite_save_state_def locked_def then_ok_eq_None statement_returns Let_def
       split: prod.splits sum.splits option.splits)

lemma sqlite_claim_returns: "sqlite_claim_interrupt lib t i w \<noteq> None"
proof -
  have "sqlite_claim_body lib t i db \<noteq> None" for db
    unfolding sqlite_claim_body_def Let_def
    by (auto simp: then_ok_eq_None prepared_not_None statement_returns iff del: not_None_eq
        split: option.splits if_splits)
  then have "sqlite_transaction db (sqlite_claim_body lib t i db) \<noteq> None" for db
    by (auto simp: sqlite_transaction_def split: option.splits)
  then show ?thesis
    by (cases w) (auto simp: sqlite_claim_interrupt_def locked_def then_ok_eq_None statement_returns
        iff del: not_None_eq split: option.splits)
qed

theorem sqlite_type_sound_witness:
  "\<exists>r w c w'. sqlite_save_state sound_sqlite sample_save (sqlite_empty, sample_sys) = Some (r, w) \<and>
     sqlite_claim_interrupt sound_sqlite ''t'' ''i'' w = Some (c, w') \<and>
     (\<forall>t r w''. sqlite_load_state sound_sqlite t w' = Some (r, w'') \<longrightarrow> \<not> undecodable r)"
proof -
  have l: "lossless (sl_codec sound_sqlite)"
    by (auto simp: lossless_def sound_sqlite_def sample_sqlite_def split: if_splits)
  have t: "typed_table (sl_codec sound_sqlite) (sqlite_rows (sqlite_empty, sample_sys))"
    by (simp add: typed_table_def ids_unique_def sqlite_empty_def)
  obtain r w where s: "sqlite_save_state sound_sqlite sample_save (sqlite_empty, sample_sys) = Some (r, w)"
    using sqlite_save_returns[of sound_sqlite sample_save] by (metis not_None_eq surj_pair)
  obtain c w' where c: "sqlite_claim_interrupt sound_sqlite ''t'' ''i'' w = Some (c, w')"
    using sqlite_claim_returns[of sound_sqlite "''t''" "''i''" w] by (metis not_None_eq surj_pair)
  have "(sqlite_step sound_sqlite)\<^sup>*\<^sup>* (sqlite_empty, sample_sys) w'"
    using sqlite_step.save[OF s] sqlite_step.claim[OF c] by auto
  from sqlite_type_sound[OF l t this] s c show ?thesis by blast
qed

end
