(* ===== verification/Sql_Journals.thy ===== *)
theory Sql_Journals
  imports Store_Runs Dag_Recovery Sql_Types "HOL-Library.Countable"
begin

text \<open>
  The SQL stores keep the contract of a checkpointer, and so everything that is proved in the
  interfaces holds of runs that are saved to SQLite or PostgreSQL. What it takes of the surroundings
  is stated once: an engine without failures, a \<open>serde\<close> that loses nothing, new identifiers, and a
  clock that moves on between saves. Of PostgreSQL it is the claims of one client at a time; what
  interleaved claims do is in theory \<open>Sql_Properties\<close>.
\<close>

section \<open>Tables as journals\<close>

text \<open>What derived \<open>Serialize\<close> instances of plain data do: they do not fail.\<close>

definition serde_total :: "('s, 'j) codec \<Rightarrow> bool" where
  "serde_total cod \<longleftrightarrow> (\<forall>d. \<exists>v. cd_dag cod d = Inr v) \<and> (\<forall>q. \<exists>v. cd_request cod q = Inr v)"

definition sql_enc :: "('s, 'j) codec \<Rightarrow> 's \<Rightarrow> TakelnError + 'j" where
  "sql_enc cod s = (case cd_state cod s of Inl e \<Rightarrow> Inl (SerializationError e) | Inr v \<Rightarrow> Inr v)"

definition sql_dec :: "('s, 'j) codec \<Rightarrow> 'j \<Rightarrow> TakelnError + 's" where
  "sql_dec cod v = (case cd_read_state cod v of Inl e \<Rightarrow> Inl (DeserializationError e) | Inr s \<Rightarrow> Inr s)"

lemma sql_enc_Inr [simp]: "sql_enc cod s = Inr v \<longleftrightarrow> cd_state cod s = Inr v"
  by (simp add: sql_enc_def split: sum.splits)

lemma lossless_dec: "lossless cod \<Longrightarrow> cd_state cod s = Inr v \<Longrightarrow> sql_dec cod v = Inr s"
  by (simp add: lossless_def sql_dec_def)

lemma lossless_option:
  assumes "lossless cod"
  shows "transpose_map (cd_dag cod) d = Inr x \<Longrightarrow> transpose_map (cd_read_dag cod) x = Inr d"
    and "transpose_map (cd_request cod) q = Inr z \<Longrightarrow> transpose_map (cd_read_request cod) z = Inr q"
proof -
  have d: "\<And>x v. cd_dag cod x = Inr v \<Longrightarrow> cd_read_dag cod v = Inr x"
    and q: "\<And>x v. cd_request cod x = Inr v \<Longrightarrow> cd_read_request cod v = Inr x"
    using assms by (simp_all add: lossless_def)
  show "transpose_map (cd_dag cod) d = Inr x \<Longrightarrow> transpose_map (cd_read_dag cod) x = Inr d"
    by (rule transpose_map_lossless[of "cd_dag cod"]) (use d in simp_all)
  show "transpose_map (cd_request cod) q = Inr z \<Longrightarrow> transpose_map (cd_read_request cod) z = Inr q"
    by (rule transpose_map_lossless[of "cd_request cod"]) (use q in simp_all)
qed

lemma total_option:
  assumes "serde_total cod"
  shows "\<exists>x. transpose_map (cd_dag cod) d = Inr x" and "\<exists>x. transpose_map (cd_request cod) q = Inr x"
proof -
  have "\<exists>v. cd_dag cod d = Inr v" "\<exists>v. cd_request cod q = Inr v" for d q
    using assms by (auto simp: serde_total_def)
  then show "\<exists>x. transpose_map (cd_dag cod) d = Inr x" "\<exists>x. transpose_map (cd_request cod) q = Inr x"
    by (auto simp: transpose_map_def split: option.splits) (metis sum.case(2))+
qed

lemma bind_readable: "transpose_map rd x = Inr y \<Longrightarrow> Option.bind x (readable \<circ> rd) = y"
  by (auto simp: transpose_map_def readable_def split: option.splits sum.splits)

text \<open>The row of a save.\<close>

definition saved_row :: "'s save_args \<Rightarrow> string \<Rightarrow> 'j \<Rightarrow> 'j option \<Rightarrow> 'j option \<Rightarrow> 'ts \<Rightarrow> ('j, 'ts) row" where
  "saved_row a c v d q created = \<lparr>rw_id = c, rw_thread_id = sa_thread_id a, rw_state = v,
     rw_next_node = sa_next_node a, rw_dag = d, rw_status = debug_status (sa_status a),
     rw_created_at = created, rw_yield_request = q, rw_claimed_interrupt = sa_claimed_interrupt a,
     rw_resolved_interrupt = sa_resolved_interrupt a\<rparr>"

lemma saved_row_sel [simp]:
  "rw_id (saved_row a c v d q created) = c" "rw_thread_id (saved_row a c v d q created) = sa_thread_id a"
  "rw_created_at (saved_row a c v d q created) = created"
  by (simp_all add: saved_row_def)

lemma saved_row_entry:
  assumes "lossless cod" and "transpose_map (cd_dag cod) (sa_dag a) = Inr d"
    and "transpose_map (cd_request cod) (sa_yield_request a) = Inr q"
  shows "row_entry cod tm (saved_row a c v d q created) = entry_of a v c (tm created)"
  using lossless_option[OF assms(1), THEN bind_readable] assms(2,3)
  by (simp add: row_entry_def saved_row_def entry_of_def)

lemma saved_row_typed:
  assumes "lossless cod" and "cd_state cod (sa_state a) = Inr v"
    and "transpose_map (cd_dag cod) (sa_dag a) = Inr d"
    and "transpose_map (cd_request cod) (sa_yield_request a) = Inr q"
  shows "typed_row cod (saved_row a c v d q created)"
  using lossless_option[OF assms(1)] assms by (auto simp: typed_row_def saved_row_def lossless_def)

text \<open>A table in which every row can be read and every thread has an order.\<close>

definition table_ready :: "('s, 'j) codec \<Rightarrow> ('j, 'ts) row list \<Rightarrow> bool" where
  "table_ready cod rows \<longleftrightarrow> typed_table cod rows \<and> (\<forall>t. times_distinct t rows)"

lemma table_ready_parts:
  assumes "table_ready cod rows"
  shows "ids_unique rows" and "times_distinct t rows" and "r \<in> set rows \<Longrightarrow> typed_row cod r"
  using assms by (auto simp: table_ready_def typed_table_def)

lemma table_ready_snoc:
  assumes "table_ready cod rows" and "typed_row cod r" and "rw_id r \<notin> set (map rw_id rows)"
    and "\<And>x. x \<in> set rows \<Longrightarrow> rw_created_at x < (rw_created_at r :: 'ts :: linorder)"
  shows "table_ready cod (rows @ [r])"
  using assms by (fastforce simp: table_ready_def typed_table_def ids_unique_def times_distinct_def)

lemma table_ready_claimed:
  assumes "table_ready cod rows" and "claimed_rows eng t i rows rows'"
  shows "table_ready cod rows' \<and> map rw_id rows' = map rw_id rows \<and>
     map rw_created_at rows' = map rw_created_at rows"
proof (cases "rows' = rows")
  case False
  with assms(2) obtain l where l: "latest_row eng t rows = Some l" and rows': "rows' = map (claimed_at i l) rows"
    by (auto simp: claimed_rows_def)
  have "typed_table cod rows'"
    using typed_claim[of cod rows eng t i, OF _ claim_latest_Some[OF l table_ready_parts(1)[OF assms(1)]]]
      assms(1) by (simp add: rows' table_ready_def)
  moreover have "times_distinct u rows'" for u
    using table_ready_parts(2)[OF assms(1), of u] by (simp add: times_distinct_def rows' filter_map comp_def)
  ultimately show ?thesis by (simp add: table_ready_def rows' comp_def)
qed (use assms(1) in simp)

lemma table_journal_snoc:
  assumes "\<And>x. x \<in> set rows \<Longrightarrow> rw_created_at x < rw_created_at r"
  shows "table_journal cod tm eng (rows @ [r]) = (table_journal cod tm eng rows)
     (rw_thread_id r := table_journal cod tm eng rows (rw_thread_id r) @ [row_entry cod tm r])"
  by (rule ext) (simp add: table_journal_def thread_rows_snoc[OF refl assms] thread_rows_snoc_other)

text \<open>What both stores make of the row they found.\<close>

lemma typed_row_loads:
  assumes "typed_row cod r"
  obtains s d q where "cd_read_state cod (rw_state r) = Inr s"
    and "transpose_map (cd_read_dag cod) (rw_dag r) = Inr d"
    and "transpose_map (cd_read_request cod) (rw_yield_request r) = Inr q"
    and "load_entry (sql_dec cod) t (Some (row_entry cod tm r)) =
      Inr (Some (s, row_meta t (tm (rw_created_at r)) q r, d))"
proof -
  from assms obtain s d q where p: "cd_read_state cod (rw_state r) = Inr s"
    "transpose_map (cd_read_dag cod) (rw_dag r) = Inr d"
    "transpose_map (cd_read_request cod) (rw_yield_request r) = Inr q"
    by (auto simp: typed_row_def)
  have "load_entry (sql_dec cod) t (Some (row_entry cod tm r)) =
      Inr (Some (s, row_meta t (tm (rw_created_at r)) q r, d))"
    using p bind_readable[OF p(2)] bind_readable[OF p(3)]
    by (simp add: load_entry_def sql_dec_def row_entry_def meta_of_def row_meta_def)
  with p that show thesis by blast
qed

lemma same_columns:
  assumes "map rw_id rows' = map rw_id rows" and "map rw_created_at rows' = map rw_created_at rows"
    and "r \<in> set rows'"
  shows "\<exists>x \<in> set rows. rw_id x = rw_id r \<and> rw_created_at x = rw_created_at r"
proof -
  from assms(3) obtain k where k': "k < length rows'" "r = rows' ! k" by (metis in_set_conv_nth)
  moreover from this have k: "k < length rows" using map_eq_imp_length_eq[OF assms(1)] by simp
  ultimately show ?thesis
    using nth_map[of k rows rw_id] nth_map[of k rows' rw_id] nth_map[of k rows rw_created_at]
      nth_map[of k rows' rw_created_at] assms(1,2) nth_mem[OF k] by metis
qed

section \<open>SQLite\<close>

definition sqlite_time :: "'s sqlite_lib \<Rightarrow> string \<Rightarrow> timestamp" where
  "sqlite_time lib text = (case sl_parse_rfc3339 lib text of None \<Rightarrow> 0 | Some tm \<Rightarrow> tm)"

text \<open>The text of the n-th reading of the clock.\<close>

definition now_text :: "'s sqlite_lib \<Rightarrow> nat \<Rightarrow> string" where
  "now_text lib n = sl_rfc3339 lib (e_now (sl_env lib) n)"

definition sqlite_sound :: "'s sqlite_lib \<Rightarrow> bool" where
  "sqlite_sound lib \<longleftrightarrow> fault_free (sl_engine lib) \<and> lossless (sl_codec lib) \<and> serde_total (sl_codec lib) \<and>
     uuids_fresh (sl_env lib) \<and> (\<forall>m n. m < n \<longrightarrow> now_text lib m < now_text lib n) \<and>
     (\<forall>n. sl_parse_rfc3339 lib (now_text lib n) = Some (e_now (sl_env lib) n))"

abbreviation nth_id :: "'s env \<Rightarrow> nat \<Rightarrow> string" where
  "nth_id env n \<equiv> e_uuid_text env (e_uuid4 env n)"

text \<open>
  The connection is good, and everything in the table is readable and was written before now: no
  identifier and no time that is still to come is in it.
\<close>

definition sqlite_usable :: "'s sqlite_lib \<Rightarrow> sqlite \<times> sys \<Rightarrow> bool" where
  "sqlite_usable lib p \<longleftrightarrow> sqlite_sound lib \<and> \<not> sq_poisoned (fst p) \<and>
     table_ready (sl_codec lib) (sqlite_rows p) \<and>
     (\<forall>r \<in> set (sqlite_rows p). sl_parse_rfc3339 lib (rw_created_at r) \<noteq> None \<and>
        (\<forall>n \<ge> uuid_draws (snd p). rw_id r \<noteq> nth_id (sl_env lib) n) \<and>
        (\<forall>n \<ge> now_reads (snd p). rw_created_at r < now_text lib n))"

abbreviation sqlite_journal :: "'s sqlite_lib \<Rightarrow> sqlite \<Rightarrow> string \<Rightarrow> string journal_entry list" where
  "sqlite_journal lib st \<equiv> table_journal (sl_codec lib) (sqlite_time lib) (sl_engine lib) (db_rows (sq_db st))"

lemma sqlite_usable_later: "sqlite_usable lib (st, y) \<Longrightarrow> later y y' \<Longrightarrow> sqlite_usable lib (st, y')"
  by (fastforce simp: sqlite_usable_def later_def)

lemma sqlite_usable_rows:
  assumes "sqlite_usable lib (st, y)" and "\<not> sq_poisoned st'" and "table_ready (sl_codec lib) (db_rows (sq_db st'))"
    and "map rw_id (db_rows (sq_db st')) = map rw_id (db_rows (sq_db st))"
    and "map rw_created_at (db_rows (sq_db st')) = map rw_created_at (db_rows (sq_db st))"
  shows "sqlite_usable lib (st', y)"
  using assms(1-3) same_columns[OF assms(4,5)] unfolding sqlite_usable_def fst_conv snd_conv by metis

lemma sqlite_save_spec:
  assumes "sqlite_usable lib (st, y)" and "cd_state (sl_codec lib) (sa_state a) = Inr v"
  shows "\<exists>i t st' y'. sqlite_save_state lib a (st, y) = Some (Inr i, (st', y')) \<and> sqlite_usable lib (st', y') \<and>
     sqlite_journal lib st' = (sqlite_journal lib st)
       (sa_thread_id a := sqlite_journal lib st (sa_thread_id a) @ [entry_of a v i t])"
proof -
  let ?cod = "sl_codec lib" and ?eng = "sl_engine lib" and ?rows = "db_rows (sq_db st)"
  let ?c = "nth_id (sl_env lib) (uuid_draws y)" and ?tx = "now_text lib (now_reads y)"
  let ?y = "(y\<lparr>uuid_draws := Suc (uuid_draws y)\<rparr>)\<lparr>now_reads := Suc (now_reads y)\<rparr>"
  from assms(1) have snd: "fault_free ?eng" "lossless ?cod" "serde_total ?cod" "uuids_fresh (sl_env lib)"
    "\<And>m n. m < n \<Longrightarrow> now_text lib m < now_text lib n"
    "\<And>n. sl_parse_rfc3339 lib (now_text lib n) = Some (e_now (sl_env lib) n)"
    and np: "\<not> sq_poisoned st" and ready: "table_ready ?cod ?rows"
    by (simp_all add: sqlite_usable_def sqlite_sound_def)
  from assms(1) have old: "\<And>r. r \<in> set ?rows \<Longrightarrow> sl_parse_rfc3339 lib (rw_created_at r) \<noteq> None"
    "\<And>r n. r \<in> set ?rows \<Longrightarrow> uuid_draws y \<le> n \<Longrightarrow> rw_id r \<noteq> nth_id (sl_env lib) n"
    "\<And>r n. r \<in> set ?rows \<Longrightarrow> now_reads y \<le> n \<Longrightarrow> rw_created_at r < now_text lib n"
    unfolding sqlite_usable_def fst_conv snd_conv by blast+
  obtain d q where d: "transpose_map (cd_dag ?cod) (sa_dag a) = Inr d"
    and q: "transpose_map (cd_request ?cod) (sa_yield_request a) = Inr q"
    using total_option[OF snd(3)] by blast
  let ?r = "saved_row a ?c v d q ?tx" let ?db = "executed (sq_db st) (?rows @ [?r])"
  have new: "?c \<notin> set (map rw_id ?rows)" using old(2) by force
  then have "insert_row ?eng ?r ?rows = Inr ((), ?rows @ [?r])" by (simp add: insert_row_def)
  from statement_ok[where f = "insert_row ?eng ?r", OF snd(1) this]
  have "locked (\<lambda>db. then_ok (statement ?eng ''Failed to save: '' (insert_row ?eng ?r) db)
      (\<lambda>_ db. Some (Inr ?c, db))) (st, ?y) = Some (Inr ?c, (st\<lparr>sq_db := ?db\<rparr>, ?y))"
    by (intro locked_ok[OF np]) simp
  then have save: "sqlite_save_state lib a (st, y) = Some (Inr ?c, (st\<lparr>sq_db := ?db\<rparr>, ?y))"
    by (simp add: sqlite_save_state_def new_v4_def utc_now_def assms(2) d q Let_def saved_row_def now_text_def)
  have r: "table_ready ?cod (?rows @ [?r])"
    by (rule table_ready_snoc[OF ready saved_row_typed[OF snd(2) assms(2) d q]]) (use new old(3) in auto)
  have ids: "nth_id (sl_env lib) m \<noteq> nth_id (sl_env lib) n" if "m \<noteq> n" for m n
    using snd(4) that by (auto simp: uuids_fresh_def dest: injD)
  have "sqlite_usable lib (st\<lparr>sq_db := ?db\<rparr>, ?y)"
    using assms(1) r snd(5,6) ids old by (auto simp: sqlite_usable_def)
  moreover have "sqlite_journal lib (st\<lparr>sq_db := ?db\<rparr>) = (sqlite_journal lib st)
       (sa_thread_id a := sqlite_journal lib st (sa_thread_id a) @ [entry_of a v ?c (sqlite_time lib ?tx)])"
    using table_journal_snoc[of ?rows ?r ?cod "sqlite_time lib" ?eng] old(3)
    by (simp add: saved_row_entry[OF snd(2) d q])
  ultimately show ?thesis using save by blast
qed

lemma sqlite_save_refused:
  assumes "cd_state (sl_codec lib) (sa_state a) = Inl e"
  shows "\<exists>y'. sqlite_save_state lib a (st, y) = Some (Inl (SerializationError e), (st, y')) \<and> later y y'"
  using assms by (simp add: sqlite_save_state_def new_v4_def later_def Let_def)

lemma sqlite_load_spec:
  assumes "sqlite_usable lib (st, y)"
  shows "\<exists>st'. sqlite_load_state lib t (st, y) =
       Some (load_entry (sql_dec (sl_codec lib)) t (last_opt (sqlite_journal lib st t)), (st', y)) \<and>
     sqlite_usable lib (st', y) \<and> sqlite_journal lib st' = sqlite_journal lib st"
proof -
  let ?cod = "sl_codec lib" and ?eng = "sl_engine lib" and ?rows = "db_rows (sq_db st)"
  from assms have ff: "fault_free ?eng" and np: "\<not> sq_poisoned st" and ready: "table_ready ?cod ?rows"
    by (simp_all add: sqlite_usable_def sqlite_sound_def)
  let ?st = "st\<lparr>sq_db := executed (executed (sq_db st) ?rows) ?rows\<rparr>"
  have l: "locked (prepared lib ''Failed to load: '' (latest_row ?eng t)) (st, y) =
      Some (Inr (latest_row ?eng t ?rows), (?st, y))"
    by (rule locked_ok[OF np]) (simp add: prepared_ok[OF ff])
  have found: "sqlite_found lib t (latest_row ?eng t ?rows) y =
      (load_entry (sql_dec ?cod) t (last_opt (sqlite_journal lib st t)), y)"
  proof (cases "latest_row ?eng t ?rows")
    case None
    then show ?thesis by (simp add: sqlite_found_def last_table_journal load_entry_def)
  next
    case (Some r)
    then have r: "r \<in> set ?rows" using latest_row_in by blast
    with assms obtain tm where tm: "sl_parse_rfc3339 lib (rw_created_at r) = Some tm"
      by (fastforce simp: sqlite_usable_def)
    from table_ready_parts(3)[OF ready r] obtain s d q where p: "cd_read_state ?cod (rw_state r) = Inr s"
      "transpose_map (cd_read_dag ?cod) (rw_dag r) = Inr d"
      "transpose_map (cd_read_request ?cod) (rw_yield_request r) = Inr q"
      and e: "load_entry (sql_dec ?cod) t (Some (row_entry ?cod (sqlite_time lib) r)) =
        Inr (Some (s, row_meta t (sqlite_time lib (rw_created_at r)) q r, d))"
      by (rule typed_row_loads)
    show ?thesis
      using sqlite_found_row[OF p tm, of t y] e by (simp add: Some last_table_journal sqlite_time_def tm)
  qed
  have "sqlite_usable lib (?st, y)"
    by (rule sqlite_usable_rows[OF assms]) (use np ready in simp_all)
  then show ?thesis using l found by (simp add: sqlite_load_state_def after_row_def)
qed

lemma sqlite_claim_journal:
  assumes "sqlite_usable lib (st, y)"
  shows "\<exists>r st'. sqlite_claim_interrupt lib t i (st, y) = Some (r, (st', y)) \<and> sqlite_usable lib (st', y) \<and>
     verdict_of r = fst (journal_claim i (sqlite_journal lib st t)) \<and>
     sqlite_journal lib st' = (sqlite_journal lib st)(t := snd (journal_claim i (sqlite_journal lib st t)))"
proof -
  from assms have ff: "fault_free (sl_engine lib)" and np: "\<not> sq_poisoned st"
    and ready: "table_ready (sl_codec lib) (db_rows (sq_db st))"
    by (simp_all add: sqlite_usable_def sqlite_sound_def)
  from sqlite_claim_spec[OF ff np table_ready_parts(1,2)[OF ready] refl, where t = t and tm = "sqlite_time lib" and i = i and y = y]
  obtain r st' where c: "sqlite_claim_interrupt lib t i (st, y) = Some (r, (st', y))" "\<not> sq_poisoned st'"
    "claimed_rows (sl_engine lib) t i (db_rows (sq_db st)) (db_rows (sq_db st'))"
    and j: "verdict_of r = fst (journal_claim i (sqlite_journal lib st t))"
      "sqlite_journal lib st' = (sqlite_journal lib st)(t := snd (journal_claim i (sqlite_journal lib st t)))"
    by blast
  from table_ready_claimed[OF ready c(3)] sqlite_usable_rows[OF assms c(2)] c j show ?thesis by blast
qed

interpretation sqlite: checkpoint_journal "sqlite_save_state lib" "sqlite_load_state lib"
    "sqlite_claim_interrupt lib" "sqlite_journal lib" "sqlite_usable lib" "sql_enc (sl_codec lib)"
    "sql_dec (sl_codec lib)"
  for lib :: "'s sqlite_lib"
proof unfold_locales
  fix p :: "sqlite \<times> sys" and a :: "'s save_args" and v
  assume "sqlite_usable lib p" "sql_enc (sl_codec lib) (sa_state a) = Inr v"
  then show "\<exists>i t p'. sqlite_save_state lib a p = Some (Inr i, p') \<and> sqlite_usable lib p' \<and>
      sqlite_journal lib (fst p') = (sqlite_journal lib (fst p))
        (sa_thread_id a := sqlite_journal lib (fst p) (sa_thread_id a) @ [entry_of a v i t])"
    by (cases p) (force dest: sqlite_save_spec)
next
  fix p :: "sqlite \<times> sys" and a :: "'s save_args" and e
  assume u: "sqlite_usable lib p" and "sql_enc (sl_codec lib) (sa_state a) = Inl e"
  then obtain e' where "cd_state (sl_codec lib) (sa_state a) = Inl e'" "e = SerializationError e'"
    by (auto simp: sql_enc_def split: sum.splits)
  with u sqlite_save_refused[of lib a e' "fst p" "snd p"] sqlite_usable_later[of lib "fst p" "snd p"]
  show "\<exists>p'. sqlite_save_state lib a p = Some (Inl e, p') \<and> sqlite_usable lib p' \<and>
      sqlite_journal lib (fst p') = sqlite_journal lib (fst p)" by (cases p) auto
next
  fix p :: "sqlite \<times> sys" and t
  assume "sqlite_usable lib p"
  then show "\<exists>p'. sqlite_load_state lib t p = Some (load_entry (sql_dec (sl_codec lib)) t
        (last_opt (sqlite_journal lib (fst p) t)), p') \<and> sqlite_usable lib p' \<and>
      sqlite_journal lib (fst p') = sqlite_journal lib (fst p)"
    by (cases p) (force dest: sqlite_load_spec)
next
  fix p :: "sqlite \<times> sys" and t i
  assume "sqlite_usable lib p"
  then show "\<exists>r p'. sqlite_claim_interrupt lib t i p = Some (r, p') \<and> sqlite_usable lib p' \<and>
      verdict_of r = fst (journal_claim i (sqlite_journal lib (fst p) t)) \<and>
      sqlite_journal lib (fst p') =
        (sqlite_journal lib (fst p))(t := snd (journal_claim i (sqlite_journal lib (fst p) t)))"
    by (cases p) (force dest: sqlite_claim_journal)
qed (rule sqlite_usable_later)

interpretation sqlite_run: journal_runner "sqlite_save_state lib" "sqlite_load_state lib"
    "sqlite_claim_interrupt lib" "sqlite_journal lib" "sqlite_usable lib" "sql_enc (sl_codec lib)"
    "sql_dec (sl_codec lib)" "sqlite_checkpointer lib"
  for lib
  by unfold_locales (simp_all add: sqlite_checkpointer_def)

section \<open>PostgreSQL\<close>

definition pg_sound :: "'s pg_lib \<Rightarrow> bool" where
  "pg_sound lib \<longleftrightarrow> fault_free (pg_engine lib) \<and> lossless (pg_codec lib) \<and> serde_total (pg_codec lib) \<and>
     uuids_fresh (pg_env lib) \<and> (\<forall>m n. m < n \<longrightarrow> pg_now lib m < pg_now lib n)"

text \<open>The times are those of the database, which counts its statements.\<close>

definition pg_usable :: "'s pg_lib \<Rightarrow> pg_database \<times> sys \<Rightarrow> bool" where
  "pg_usable lib p \<longleftrightarrow> pg_sound lib \<and> table_ready (pg_codec lib) (db_rows (fst p)) \<and>
     (\<forall>r \<in> set (db_rows (fst p)). (\<forall>n \<ge> uuid_draws (snd p). rw_id r \<noteq> nth_id (pg_env lib) n) \<and>
        (\<forall>n \<ge> db_statements (fst p). rw_created_at r < pg_now lib n))"

abbreviation pg_journal :: "'s pg_lib \<Rightarrow> pg_database \<Rightarrow> string \<Rightarrow> json journal_entry list" where
  "pg_journal lib db \<equiv> table_journal (pg_codec lib) id (pg_engine lib) (db_rows db)"

lemma pg_usable_later: "pg_usable lib (db, y) \<Longrightarrow> later y y' \<Longrightarrow> pg_usable lib (db, y')"
  by (fastforce simp: pg_usable_def later_def)

lemma pg_usable_rows:
  assumes "pg_usable lib (db, y)" and "table_ready (pg_codec lib) (db_rows db')"
    and "db_statements db \<le> db_statements db'" and "map rw_id (db_rows db') = map rw_id (db_rows db)"
    and "map rw_created_at (db_rows db') = map rw_created_at (db_rows db)"
  shows "pg_usable lib (db', y)"
  using assms(1-3) same_columns[OF assms(4,5)] unfolding pg_usable_def fst_conv snd_conv
  by (metis order_trans)

lemma pg_save_spec:
  assumes "pg_usable lib (db, y)" and "cd_state (pg_codec lib) (sa_state a) = Inr v"
  shows "\<exists>i t db' y'. postgres_save_state lib a (db, y) = Some (Inr i, (db', y')) \<and> pg_usable lib (db', y') \<and>
     pg_journal lib db' = (pg_journal lib db)
       (sa_thread_id a := pg_journal lib db (sa_thread_id a) @ [entry_of a v i t])"
proof -
  let ?cod = "pg_codec lib" and ?eng = "pg_engine lib" and ?rows = "db_rows db"
  let ?c = "nth_id (pg_env lib) (uuid_draws y)" and ?tm = "pg_now lib (db_statements db)"
  let ?y = "y\<lparr>uuid_draws := Suc (uuid_draws y)\<rparr>"
  from assms(1) have snd: "fault_free ?eng" "lossless ?cod" "serde_total ?cod" "uuids_fresh (pg_env lib)"
    "\<And>m n. m < n \<Longrightarrow> pg_now lib m < pg_now lib n" and ready: "table_ready ?cod ?rows"
    by (simp_all add: pg_usable_def pg_sound_def)
  from assms(1) have old: "\<And>r n. r \<in> set ?rows \<Longrightarrow> uuid_draws y \<le> n \<Longrightarrow> rw_id r \<noteq> nth_id (pg_env lib) n"
    "\<And>r n. r \<in> set ?rows \<Longrightarrow> db_statements db \<le> n \<Longrightarrow> rw_created_at r < pg_now lib n"
    unfolding pg_usable_def fst_conv snd_conv by blast+
  obtain d q where d: "transpose_map (cd_dag ?cod) (sa_dag a) = Inr d"
    and q: "transpose_map (cd_request ?cod) (sa_yield_request a) = Inr q"
    using total_option[OF snd(3)] by blast
  let ?r = "saved_row a ?c v d q ?tm" let ?db = "executed db (?rows @ [?r])"
  have new: "?c \<notin> set (map rw_id ?rows)" using old(1) by force
  then have "insert_row ?eng ?r ?rows = Inr ((), ?rows @ [?r])" by (simp add: insert_row_def)
  from statement_ok[where f = "insert_row ?eng ?r", OF snd(1) this]
  have save: "postgres_save_state lib a (db, y) = Some (Inr ?c, (?db, ?y))"
    by (simp add: postgres_save_state_def new_v4_def assms(2) d q Let_def saved_row_def on_table_def)
  have r: "table_ready ?cod (?rows @ [?r])"
    by (rule table_ready_snoc[OF ready saved_row_typed[OF snd(2) assms(2) d q]]) (use new old(2) in auto)
  have ids: "nth_id (pg_env lib) m \<noteq> nth_id (pg_env lib) n" if "m \<noteq> n" for m n
    using snd(4) that by (auto simp: uuids_fresh_def dest: injD)
  have "pg_usable lib (?db, ?y)"
    using assms(1) r snd(5) ids old by (auto simp: pg_usable_def)
  moreover have "pg_journal lib ?db = (pg_journal lib db)
       (sa_thread_id a := pg_journal lib db (sa_thread_id a) @ [entry_of a v ?c ?tm])"
    using table_journal_snoc[of ?rows ?r ?cod id ?eng] old(2)
    by (simp add: saved_row_entry[OF snd(2) d q])
  ultimately show ?thesis using save by blast
qed

lemma pg_save_refused:
  assumes "cd_state (pg_codec lib) (sa_state a) = Inl e"
  shows "\<exists>y'. postgres_save_state lib a (db, y) = Some (Inl (SerializationError e), (db, y')) \<and> later y y'"
  using assms by (simp add: postgres_save_state_def new_v4_def later_def Let_def)

lemma pg_load_spec:
  assumes "pg_usable lib (db, y)"
  shows "\<exists>db'. postgres_load_state lib t (db, y) =
       Some (load_entry (sql_dec (pg_codec lib)) t (last_opt (pg_journal lib db t)), (db', y)) \<and>
     pg_usable lib (db', y) \<and> pg_journal lib db' = pg_journal lib db"
proof -
  let ?cod = "pg_codec lib" and ?eng = "pg_engine lib" and ?rows = "db_rows db"
  from assms have ff: "fault_free ?eng" and ready: "table_ready ?cod ?rows"
    by (simp_all add: pg_usable_def pg_sound_def)
  have found: "postgres_found lib t (latest_row ?eng t ?rows) =
      load_entry (sql_dec ?cod) t (last_opt (pg_journal lib db t))"
  proof (cases "latest_row ?eng t ?rows")
    case None
    then show ?thesis by (simp add: postgres_found_def last_table_journal load_entry_def)
  next
    case (Some r)
    then have r: "r \<in> set ?rows" using latest_row_in by blast
    from table_ready_parts(3)[OF ready r] obtain s d q where "cd_read_state ?cod (rw_state r) = Inr s"
      "transpose_map (cd_read_dag ?cod) (rw_dag r) = Inr d"
      "transpose_map (cd_read_request ?cod) (rw_yield_request r) = Inr q"
      and "load_entry (sql_dec ?cod) t (Some (row_entry ?cod id r)) =
        Inr (Some (s, row_meta t (id (rw_created_at r)) q r, d))"
      by (rule typed_row_loads)
    then show ?thesis by (simp add: Some last_table_journal postgres_found_def)
  qed
  let ?db = "executed db ?rows"
  have "pg_usable lib (?db, y)" by (rule pg_usable_rows[OF assms]) (use ready in simp_all)
  then show ?thesis
    using found by (simp add: postgres_load_state_def on_table_def statement_reading[OF ff])
qed

lemma pg_claim_journal:
  assumes "pg_usable lib (db, y)"
  shows "\<exists>r db'. postgres_claim_interrupt lib t i (db, y) = Some (r, (db', y)) \<and> pg_usable lib (db', y) \<and>
     verdict_of r = fst (journal_claim i (pg_journal lib db t)) \<and>
     pg_journal lib db' = (pg_journal lib db)(t := snd (journal_claim i (pg_journal lib db t)))"
proof -
  from assms have ff: "fault_free (pg_engine lib)" and ready: "table_ready (pg_codec lib) (db_rows db)"
    by (simp_all add: pg_usable_def pg_sound_def)
  from postgres_claim_spec[OF ff table_ready_parts(1,2)[OF ready] refl, where t = t and i = i and y = y]
  obtain r db' where c: "postgres_claim_interrupt lib t i (db, y) = Some (r, (db', y))"
    "claimed_rows (pg_engine lib) t i (db_rows db) (db_rows db')" "db_statements db \<le> db_statements db'"
    and j: "verdict_of r = fst (journal_claim i (pg_journal lib db t))"
      "pg_journal lib db' = (pg_journal lib db)(t := snd (journal_claim i (pg_journal lib db t)))" by blast
  from table_ready_claimed[OF ready c(2)] pg_usable_rows[OF assms _ c(3)] c(1) j show ?thesis by blast
qed

interpretation postgres: checkpoint_journal "postgres_save_state lib" "postgres_load_state lib"
    "postgres_claim_interrupt lib" "pg_journal lib" "pg_usable lib" "sql_enc (pg_codec lib)"
    "sql_dec (pg_codec lib)"
  for lib :: "'s pg_lib"
proof unfold_locales
  fix p :: "pg_database \<times> sys" and a :: "'s save_args" and v
  assume "pg_usable lib p" "sql_enc (pg_codec lib) (sa_state a) = Inr v"
  then show "\<exists>i t p'. postgres_save_state lib a p = Some (Inr i, p') \<and> pg_usable lib p' \<and>
      pg_journal lib (fst p') = (pg_journal lib (fst p))
        (sa_thread_id a := pg_journal lib (fst p) (sa_thread_id a) @ [entry_of a v i t])"
    by (cases p) (force dest: pg_save_spec)
next
  fix p :: "pg_database \<times> sys" and a :: "'s save_args" and e
  assume u: "pg_usable lib p" and "sql_enc (pg_codec lib) (sa_state a) = Inl e"
  then obtain e' where "cd_state (pg_codec lib) (sa_state a) = Inl e'" "e = SerializationError e'"
    by (auto simp: sql_enc_def split: sum.splits)
  with u pg_save_refused[of lib a e' "fst p" "snd p"] pg_usable_later[of lib "fst p" "snd p"]
  show "\<exists>p'. postgres_save_state lib a p = Some (Inl e, p') \<and> pg_usable lib p' \<and>
      pg_journal lib (fst p') = pg_journal lib (fst p)" by (cases p) auto
next
  fix p :: "pg_database \<times> sys" and t
  assume "pg_usable lib p"
  then show "\<exists>p'. postgres_load_state lib t p = Some (load_entry (sql_dec (pg_codec lib)) t
        (last_opt (pg_journal lib (fst p) t)), p') \<and> pg_usable lib p' \<and>
      pg_journal lib (fst p') = pg_journal lib (fst p)"
    by (cases p) (force dest: pg_load_spec)
next
  fix p :: "pg_database \<times> sys" and t i
  assume "pg_usable lib p"
  then show "\<exists>r p'. postgres_claim_interrupt lib t i p = Some (r, p') \<and> pg_usable lib p' \<and>
      verdict_of r = fst (journal_claim i (pg_journal lib (fst p) t)) \<and>
      pg_journal lib (fst p') = (pg_journal lib (fst p))(t := snd (journal_claim i (pg_journal lib (fst p) t)))"
    by (cases p) (force dest: pg_claim_journal)
qed (rule pg_usable_later)

interpretation postgres_run: journal_runner "postgres_save_state lib" "postgres_load_state lib"
    "postgres_claim_interrupt lib" "pg_journal lib" "pg_usable lib" "sql_enc (pg_codec lib)"
    "sql_dec (pg_codec lib)" "postgres_checkpointer lib"
  for lib
  by unfold_locales (simp_all add: postgres_checkpointer_def)

end
