(* ===== verification/Sql_Runs.thy ===== *)
theory Sql_Runs
  imports Sql_Journals "HOL-Library.Countable"
begin

text \<open>
  Runs whose checkpoints are rows of a database: crash recovery over SQLite, human in the loop and
  crash recovery of a DAG over PostgreSQL. First an instance of the surroundings of both stores for
  which all of their conditions hold.
\<close>

section \<open>An instance\<close>

text \<open>
  The columns hold any text that tells values apart; here it is the number of the value, in unary in
  SQLite and as a JSON number in PostgreSQL.
\<close>

instance f64 :: countable
  by countable_datatype

instance json_number :: countable
  by countable_datatype

instance json :: countable
  by countable_datatype

instance ResumeMode :: countable
  by countable_datatype

instance NodeStatus :: countable
  by countable_datatype

type_synonym dag_fields = "nat \<times> (nat \<times> string \<times> nat list \<times> NodeStatus) list \<times> int"
type_synonym request_fields = "string \<times> string \<times> json option \<times> ResumeMode \<times> string option"

definition dag_fields :: "DAG \<Rightarrow> dag_fields" where
  "dag_fields d = (dag_id d, map (\<lambda>n. (dn_id n, dn_step_type n, dn_depends_on n, dn_status n)) (dag_nodes d),
     dag_created_at d)"

definition dag_of_fields :: "dag_fields \<Rightarrow> DAG" where
  "dag_of_fields = (\<lambda>(i, ns, tm). \<lparr>dag_id = i, dag_nodes = map (\<lambda>(k, n, ds, st). \<lparr>dn_id = k,
     dn_step_type = n, dn_depends_on = ds, dn_status = st\<rparr>) ns, dag_created_at = tm\<rparr>)"

definition request_fields :: "YieldRequest \<Rightarrow> request_fields" where
  "request_fields q = (yr_interrupt_id q, yr_message q, yr_schema q, yr_resume_mode q, yr_payload_ref q)"

definition request_of_fields :: "request_fields \<Rightarrow> YieldRequest" where
  "request_of_fields = (\<lambda>(i, m, s, mode, p). \<lparr>yr_interrupt_id = i, yr_message = m, yr_schema = s,
     yr_resume_mode = mode, yr_payload_ref = p\<rparr>)"

lemma dag_of_fields [simp]: "dag_of_fields (dag_fields d) = d"
  by (cases d) (auto simp: dag_of_fields_def dag_fields_def intro!: map_idI)

lemma request_of_fields [simp]: "request_of_fields (request_fields q) = q"
  by (simp add: request_of_fields_def request_fields_def)

definition unary_text :: "'a :: countable \<Rightarrow> string" where
  "unary_text x = replicate (to_nat x) (CHR ''x'')"

definition of_unary_text :: "string \<Rightarrow> 'a :: countable" where
  "of_unary_text t = from_nat (length t)"

lemma of_unary_text [simp]: "of_unary_text (unary_text x) = x"
  by (simp add: of_unary_text_def unary_text_def)

definition durable_sqlite :: "nat sqlite_lib" where
  "durable_sqlite = sample_sqlite\<lparr>sl_codec := \<lparr>cd_state = (\<lambda>s. Inr (unary_text s)),
     cd_read_state = (\<lambda>v. Inr (of_unary_text v)), cd_dag = (\<lambda>d. Inr (unary_text (dag_fields d))),
     cd_read_dag = (\<lambda>v. Inr (dag_of_fields (of_unary_text v))),
     cd_request = (\<lambda>q. Inr (unary_text (request_fields q))),
     cd_read_request = (\<lambda>v. Inr (request_of_fields (of_unary_text v)))\<rparr>\<rparr>"

fun json_to_nat :: "json \<Rightarrow> nat" where
  "json_to_nat (JNumber (JInt i)) = nat i"
| "json_to_nat _ = 0"

definition durable_pg :: "nat pg_lib" where
  "durable_pg = sample_pg\<lparr>pg_codec := \<lparr>cd_state = e_to_value sample_env, cd_read_state = e_from_value sample_env,
     cd_dag = (\<lambda>d. Inr (JNumber (JInt (int (to_nat (dag_fields d)))))),
     cd_read_dag = (\<lambda>v. Inr (dag_of_fields (from_nat (json_to_nat v)))),
     cd_request = (\<lambda>q. Inr (JNumber (JInt (int (to_nat (request_fields q)))))),
     cd_read_request = (\<lambda>v. Inr (request_of_fields (from_nat (json_to_nat v))))\<rparr>\<rparr>"

lemma replicate_less:
  assumes "m < n"
  shows "replicate m (c :: char) < replicate n c"
proof -
  have "replicate n c = replicate m c @ c # replicate (n - Suc m) c"
    using assms by (metis Suc_diff_Suc replicate_Suc replicate_add le_add_diff_inverse less_imp_le)
  moreover have "xs < xs @ c # ys" for xs ys :: string
    by (simp add: list_less_def lexord_append_rightI)
  ultimately show ?thesis by simp
qed

lemma durable_sqlite_sound: "sqlite_sound durable_sqlite"
proof -
  have "now_text durable_sqlite n = replicate n (CHR ''t'')" for n
    by (simp add: now_text_def durable_sqlite_def sample_sqlite_def sample_env_def)
  moreover have "sl_env durable_sqlite = sample_env"
    by (simp add: durable_sqlite_def sample_sqlite_def)
  ultimately show ?thesis
    using sample_env_fresh replicate_less
    by (simp add: sqlite_sound_def fault_free_def lossless_def serde_total_def durable_sqlite_def
        sample_sqlite_def sample_env_def)
qed

lemma durable_pg_sound: "pg_sound durable_pg"
  using sample_env_fresh
  by (auto simp: pg_sound_def fault_free_def lossless_def serde_total_def durable_pg_def sample_pg_def sample_env_def)

lemma sqlite_empty_usable: "sqlite_sound lib \<Longrightarrow> sqlite_usable lib (sqlite_empty, y)"
  by (simp add: sqlite_usable_def sqlite_empty_def table_ready_def typed_table_def ids_unique_def times_distinct_def)

definition pg_empty :: pg_database where
  "pg_empty = \<lparr>db_rows = [], db_statements = 0\<rparr>"

lemma pg_empty_usable: "pg_sound lib \<Longrightarrow> pg_usable lib (pg_empty, y)"
  by (simp add: pg_usable_def pg_empty_def table_ready_def typed_table_def ids_unique_def times_distinct_def)

lemma states_read_back:
  assumes "lossless cod" and "\<forall>n. \<forall>s \<in> S n. \<exists>v. cd_state cod s = Inr v"
  shows "\<forall>n. \<forall>s \<in> S n. \<exists>v. sql_enc cod s = Inr v \<and> sql_dec cod v = Inr s"
  using assms(2) lossless_dec[OF assms(1)] by fastforce

section \<open>Crash recovery over SQLite\<close>

text \<open>C4: a run over SQLite that is cut after any of its checkpoints, and resumed from the database, ends in
  the same state as the run that was not cut, and inserts exactly the checkpoints that were missing.\<close>

theorem sqlite_crash_resume:
  assumes "sqlite_usable lib (store_at w)" and "plain_graph env g N S F"
    and "\<forall>n. \<forall>s \<in> S n. \<exists>v. cd_state (sl_codec lib) s = Inr v"
    and "start \<in> insert end_node N" and "s \<in> S start"
    and "ref_run (plain_hop g F) (max_sequential_steps (g_resource_limits g)) start s = (Some final, hops)"
    and "k < length hops" and "last_opt (sqlite_journal lib (w_store w) t) = Some e"
    and "journal_hop (sql_enc (sl_codec lib)) e (hops ! k)"
  shows "\<exists>w' es. resume env g (sqlite_checkpointer lib) t None w = Some (Inr (Some final), w') \<and>
     sqlite_usable lib (store_at w') \<and>
     sqlite_journal lib (w_store w') = (sqlite_journal lib (w_store w))
       (t := sqlite_journal lib (w_store w) t @ es) \<and>
     list_all2 (journal_hop (sql_enc (sl_codec lib))) es (drop (Suc k) hops)"
proof -
  have "lossless (sl_codec lib)" using assms(1) by (simp add: sqlite_usable_def sqlite_sound_def)
  note states_read_back[OF this assms(3)]
  from sqlite_run.resume_journal[OF assms(1,2) this assms(4-9)] show ?thesis .
qed

text \<open>What a run saves after a hop, and what it saves when a node yields.\<close>

definition hop_args :: "nat \<Rightarrow> string \<Rightarrow> nat save_args" where
  "hop_args s n = \<lparr>sa_thread_id = ''t'', sa_state = s, sa_next_node = n, sa_dag = None,
     sa_status = CheckpointStatus.Complete, sa_yield_request = None, sa_claimed_interrupt = None,
     sa_resolved_interrupt = None\<rparr>"

definition yield_args :: "nat \<Rightarrow> string \<Rightarrow> YieldRequest \<Rightarrow> nat save_args" where
  "yield_args s n q = (hop_args s n)\<lparr>sa_status := CheckpointStatus.Yielded, sa_yield_request := Some q\<rparr>"

lemma saved_args_sel [simp]:
  "sa_thread_id (hop_args s n) = ''t''" "sa_thread_id (yield_args s n q) = ''t''"
  "sa_next_node (hop_args s n) = n" "sa_next_node (yield_args s n q) = n"
  "sa_state (hop_args s n) = s" "sa_state (yield_args s n q) = s"
  by (simp_all add: hop_args_def yield_args_def)

theorem sqlite_crash_resume_witness:
  "\<exists>i st y w'. sqlite_save_state durable_sqlite (hop_args 1 ''b'') (sqlite_empty, sample_sys) =
       Some (Inr i, (st, y)) \<and>
     resume sample_env (sample_graph 3) (sqlite_checkpointer durable_sqlite) ''t'' None
       (sample_world 0 st\<lparr>w_sys := y\<rparr>) = Some (Inr (Some 2), w')"
proof -
  let ?cod = "sl_codec durable_sqlite" and ?a = "hop_args 1 ''b''"
  have enc: "\<exists>v. cd_state ?cod s = Inr v" for s by (simp add: durable_sqlite_def)
  then obtain v where v: "sql_enc ?cod (sa_state ?a) = Inr v" by fastforce
  from sqlite.save_ok[OF sqlite_empty_usable[OF durable_sqlite_sound, of sample_sys] v]
  obtain i tm st y where s: "sqlite_save_state durable_sqlite ?a (sqlite_empty, sample_sys) =
      Some (Inr i, (st, y))" and u: "sqlite_usable durable_sqlite (st, y)"
    and j: "sqlite_journal durable_sqlite st = (sqlite_journal durable_sqlite sqlite_empty)
      (sa_thread_id ?a := sqlite_journal durable_sqlite sqlite_empty (sa_thread_id ?a) @ [entry_of ?a v i tm])"
    by fastforce
  let ?w = "sample_world 0 st\<lparr>w_sys := y\<rparr>"
  have w: "sqlite_usable durable_sqlite (store_at ?w)" using u by (simp add: sample_world_def)
  have l: "last_opt (sqlite_journal durable_sqlite (w_store ?w) ''t'') = Some (entry_of (hop_args 1 ''b'') v i tm)"
    by (simp add: j sample_world_def)
  have h: "journal_hop (sql_enc ?cod) (entry_of (hop_args 1 ''b'') v i tm) ([(1, ''b''), (2, end_node)] ! 0)"
    using v by (simp add: journal_hop_def entry_of_def hop_args_def)
  have r: "ref_run (plain_hop (sample_graph 3) sample_output)
      (max_sequential_steps (g_resource_limits (sample_graph 3))) ''a'' 0 =
      (Some 2, [(1, ''b''), (2, end_node)])" by (simp add: sample_ref)
  have "\<exists>w'. resume sample_env (sample_graph 3) (sqlite_checkpointer durable_sqlite) ''t'' None ?w =
      Some (Inr (Some 2), w')"
    using sqlite_crash_resume[OF w sample_graph_plain _ _ _ r _ l h] enc by auto
  with s show ?thesis by blast
qed

section \<open>Human in the loop over PostgreSQL\<close>

text \<open>C15: an answer to a thread that waits in PostgreSQL for a re-entry (the default mode of a request), with
  no other client at work, marks the waiting row as claimed, calls the node again with the answer and runs
  on to the end; every row it inserts is a hop of the abstract run and resolves the interrupt. The same call again, from any process that has the database, returns the final state
  and leaves the journal as it is.\<close>

theorem postgres_answer_completes:
  assumes "pg_usable lib (store_at w)" and "last_opt (pg_journal lib (w_store w) t) = Some e"
    and "entry_waits i request e" and "\<not> resolved_in i (pg_journal lib (w_store w) t)"
    and "yr_resume_mode request = ReEntry" and "input_ok env i input request"
    and "cd_read_state (pg_codec lib) (je_state e) = Inr s"
    and "answers g (je_next_node e) (Some input) s (Inr out)"
    and "effective_node_budget g (je_next_node e) = None"
    and "je_next_node e \<notin> g_interrupt_after g" and "je_next_node e \<noteq> end_node"
    and "plain_graph env g N S F" and "\<forall>n. \<forall>s \<in> S n. \<exists>v. cd_state (pg_codec lib) s = Inr v"
    and "no_state out \<in> S n" and "n = resolve_next_node g (je_next_node e) out" and "n \<in> insert end_node N"
    and "max_sequential_steps (g_resource_limits g) = Suc fuel"
    and "ref_run (plain_hop g F) fuel n (no_state out) = (Some final, hops)"
  shows "\<exists>w' es. resume_with_input env g (postgres_checkpointer lib) t i input rctx None w =
       Some (Inr (Some final), w') \<and>
     pg_journal lib (w_store w') = (pg_journal lib (w_store w))(t :=
        butlast (pg_journal lib (w_store w) t) @ claim_entry i e # es) \<and>
     list_all2 (journal_hop (sql_enc (pg_codec lib))) es ((no_state out, n) # hops) \<and>
     (\<forall>e \<in> set es. je_resolved_interrupt e = Some i) \<and>
     (\<forall>g' input' rctx' token'. \<exists>w''.
        resume_with_input env g' (postgres_checkpointer lib) t i input' rctx' token' w' =
          Some (Inr (Some final), w'') \<and>
        pg_journal lib (w_store w'') = pg_journal lib (w_store w'))"
proof -
  have "lossless (pg_codec lib)" using assms(1) by (simp add: pg_usable_def pg_sound_def)
  note read = states_read_back[OF this assms(13)]
  have "sql_dec (pg_codec lib) (je_state e) = Inr s" using assms(7) by (simp add: sql_dec_def)
  from postgres_run.answer_completes[OF assms(1-6) this assms(8-12) read assms(14-18)] show ?thesis .
qed

text \<open>The first save into an empty database.\<close>

lemma durable_pg_cod: "cd_state (pg_codec durable_pg) = e_to_value sample_env"
  "cd_read_state (pg_codec durable_pg) = e_from_value sample_env"
  by (simp_all add: durable_pg_def)

lemma pg_first_save:
  assumes "cd_state (pg_codec durable_pg) (sa_state a) = Inr v"
  obtains i tm db y where "postgres_save_state durable_pg a (pg_empty, sample_sys) = Some (Inr i, (db, y))"
    "pg_usable durable_pg (db, y)" "pg_journal durable_pg db (sa_thread_id a) = [entry_of a v i tm]"
proof -
  have "pg_journal durable_pg pg_empty = (\<lambda>_. [])"
    by (simp add: fun_eq_iff pg_empty_def table_journal_def thread_rows_def)
  with postgres.save_ok[OF pg_empty_usable[OF durable_pg_sound, of sample_sys], of a v] assms that
  show thesis by fastforce
qed

theorem postgres_answer_completes_witness:
  "\<exists>i db y w' w''. postgres_save_state durable_pg (yield_args 0 ''gate'' (sample_request ReEntry None))
       (pg_empty, sample_sys) = Some (Inr i, (db, y)) \<and>
     resume_with_input sample_env gate_graph (postgres_checkpointer durable_pg) ''t'' ''i'' JNull
       (resume_context_new ''me'') None (sample_world 0 db\<lparr>w_sys := y\<rparr>) = Some (Inr (Some 3), w') \<and>
     resume_with_input sample_env gate_graph (postgres_checkpointer durable_pg) ''t'' ''i'' (JBool True)
       (resume_context_new ''you'') None w' = Some (Inr (Some 3), w'')"
proof -
  let ?cod = "pg_codec durable_pg" and ?q = "sample_request ReEntry None" and ?out = "sample_output ''gate'' 0"
  let ?a = "yield_args 0 ''gate'' ?q" and ?v = "JNumber (JInt 0)"
  have v: "cd_state ?cod (sa_state ?a) = Inr ?v" by (simp add: durable_pg_cod sample_env_def)
  obtain i tm db y where s: "postgres_save_state durable_pg ?a (pg_empty, sample_sys) = Some (Inr i, (db, y))"
    and u: "pg_usable durable_pg (db, y)" and j: "pg_journal durable_pg db ''t'' = [entry_of ?a ?v i tm]"
    by (rule pg_first_save[OF v, unfolded saved_args_sel])
  let ?e = "entry_of ?a ?v i tm" let ?w = "sample_world 0 db\<lparr>w_sys := y\<rparr>"
  have w: "pg_usable durable_pg (store_at ?w)" "last_opt (pg_journal durable_pg (w_store ?w) ''t'') = Some ?e"
    "\<not> resolved_in ''i'' (pg_journal durable_pg (w_store ?w) ''t'')"
    using u j by (simp_all add: sample_world_def last_opt_def resolved_in_def entry_of_def yield_args_def hop_args_def)
  have e: "je_next_node ?e = ''gate''" "je_state ?e = ?v" and q: "entry_waits ''i'' ?q ?e"
    by (simp_all add: entry_waits_def entry_of_def yield_args_def hop_args_def sample_request_def)
  have d: "cd_read_state ?cod (je_state ?e) = Inr 0" by (simp add: durable_pg_cod e)
  have n: "''a'' = resolve_next_node gate_graph (je_next_node ?e) ?out"
    by (simp add: e resolve_next_node_def edge_target_def sample_output_def node_output_bare_def)
  have r: "ref_run (plain_hop gate_graph sample_output) 4 ''a'' (no_state ?out) =
      (Some 3, [(2, ''b''), (3, end_node)])"
    using gate_hops by (simp add: sample_output_def node_output_bare_def)
  have a: "answers gate_graph (je_next_node ?e) (Some JNull) 0 (Inr ?out)"
    using gate_answers(2)[of JNull 0] by (simp add: e)
  have b: "effective_node_budget gate_graph (je_next_node ?e) = None"
    by (simp add: effective_node_budget_def)
  have k: "input_ok sample_env ''i'' JNull ?q" by (simp add: input_ok_def)
  have m: "max_sequential_steps (g_resource_limits gate_graph) = Suc 4" by simp
  have states: "\<forall>n. \<forall>s \<in> {..100}. \<exists>v. cd_state ?cod s = Inr v" by (simp add: durable_pg_cod sample_env_def)
  have o: "yr_resume_mode ?q = ReEntry" "je_next_node ?e \<notin> g_interrupt_after gate_graph"
    "je_next_node ?e \<noteq> end_node" "no_state ?out \<in> {..100}" "''a'' \<in> insert end_node {''a'', ''b''}"
    by (simp_all add: e end_node_def sample_output_def node_output_bare_def)
  from postgres_answer_completes[OF w(1,2) q w(3) o(1) k d a b o(2,3) gate_graph_plain states o(4) n o(5) m r,
      where rctx = "resume_context_new ''me''"]
  obtain w' where "resume_with_input sample_env gate_graph (postgres_checkpointer durable_pg) ''t'' ''i'' JNull
       (resume_context_new ''me'') None ?w = Some (Inr (Some 3), w')"
    and "\<exists>w''. resume_with_input sample_env gate_graph (postgres_checkpointer durable_pg) ''t'' ''i''
       (JBool True) (resume_context_new ''you'') None w' = Some (Inr (Some 3), w'')" by blast
  with s show ?thesis by blast
qed

section \<open>Crash recovery of a DAG over PostgreSQL\<close>

text \<open>C25: a DAG run over PostgreSQL that is cut after any of its waves, and resumed with \<open>resume_dag\<close> on a
  DAG of the same nodes in whatever statuses, ends in the same state and DAG as the run that was not
  cut, whatever the scheduling, and inserts exactly the rows of the waves that were missing.\<close>

theorem postgres_dag_resume:
  assumes "dj_ck j = postgres_checkpointer lib" and "dj_token j = None" and "pg_usable lib (store_at w)"
    and "plain_dag (dj_env j) (dj_graph j) (dj_merge j) W F"
    and "\<forall>(d, s) \<in> W. \<exists>v. cd_state (pg_codec lib) s = Inr v"
    and "permutes_tasks (dj_sched j)" and "depth \<le> 8"
    and "length (dag_nodes d) \<le> max_dag_nodes (g_resource_limits (dj_graph j))"
    and "(d, s) \<in> W" and "distinct (map dn_id (dag_nodes d))"
    and "waves = ref_waves (dj_merge j) (\<lambda>n s. no_state (F n s)) (length (dag_nodes d)) d s"
    and "(s', d') = last ((s, d) # waves)" and "k < length waves"
    and "last_opt (pg_journal lib (w_store w) (dj_thread_id j)) = Some e"
    and "wave_entry (sql_enc (pg_codec lib)) e (waves ! k)" and "same_dag d0 d"
  shows "\<exists>w' es. resume_dag j depth (w, d0) =
       Some (case ref_outcome s' d' of Inl e \<Rightarrow> Inl e | Inr s \<Rightarrow> Inr (Some s), (w', d')) \<and>
     pg_journal lib (w_store w') = (pg_journal lib (w_store w))
       (dj_thread_id j := pg_journal lib (w_store w) (dj_thread_id j) @ es) \<and>
     list_all2 (wave_entry (sql_enc (pg_codec lib))) es (drop (Suc k) waves)"
proof -
  have "lossless (pg_codec lib)" using assms(3) by (simp add: pg_usable_def pg_sound_def)
  then have read: "\<forall>(d, s) \<in> W. \<exists>v. sql_enc (pg_codec lib) s = Inr v \<and> sql_dec (pg_codec lib) v = Inr s"
    using assms(5) lossless_dec by fastforce
  from postgres_run.resume_dag_journal[OF assms(1-4) read assms(6-16)] show ?thesis by blast
qed

definition pg_wave_job :: "(nat, nat, pg_database) dag_job" where
  "pg_wave_job = \<lparr>dj_env = sample_env, dj_graph = sample_graph 3, dj_ck = postgres_checkpointer durable_pg,
     dj_thread_id = ''t'', dj_token = None, dj_merge = sample_merge, dj_sched = reversing\<rparr>"

theorem postgres_dag_resume_witness:
  "\<exists>i db y w' d'. postgres_save_state durable_pg ((hop_args 2 ''a'')\<lparr>sa_dag := Some first_wave_done\<rparr>)
       (pg_empty, sample_sys) = Some (Inr i, (db, y)) \<and>
     resume_dag pg_wave_job 0 (sample_world 0 db\<lparr>w_sys := y\<rparr>, sample_dag) = Some (Inr (Some 5), (w', d'))"
proof -
  let ?a = "(hop_args 2 ''a'')\<lparr>sa_dag := Some first_wave_done\<rparr>" and ?v = "JNumber (JInt 2)"
  let ?j = pg_wave_job and ?waves = "[(2 :: nat, first_wave_done), (5, all_waves_done)]"
  have j: "dj_ck ?j = postgres_checkpointer durable_pg" "dj_token ?j = None" "dj_env ?j = sample_env"
    "dj_graph ?j = sample_graph 3" "dj_merge ?j = sample_merge" "dj_sched ?j = reversing" "dj_thread_id ?j = ''t''"
    by (simp_all add: pg_wave_job_def)
  have a: "sa_thread_id ?a = ''t''" "cd_state (pg_codec durable_pg) (sa_state ?a) = Inr ?v"
    by (simp_all add: durable_pg_cod sample_env_def)
  obtain i tm db y where s: "postgres_save_state durable_pg ?a (pg_empty, sample_sys) = Some (Inr i, (db, y))"
    and u: "pg_usable durable_pg (db, y)" and l: "pg_journal durable_pg db ''t'' = [entry_of ?a ?v i tm]"
    by (rule pg_first_save[OF a(2), unfolded a(1)])
  let ?w = "sample_world 0 db\<lparr>w_sys := y\<rparr>"
  have w: "pg_usable durable_pg (store_at ?w)"
    "last_opt (pg_journal durable_pg (w_store ?w) (dj_thread_id ?j)) = Some (entry_of ?a ?v i tm)"
    using u l by (simp_all add: sample_world_def last_opt_def j)
  have e: "wave_entry (sql_enc (pg_codec durable_pg)) (entry_of ?a ?v i tm) (?waves ! 0)"
    by (simp add: wave_entry_def entry_of_def hop_args_def durable_pg_cod sample_env_def sample_cut(4))
  have enc: "\<forall>(d, s) \<in> sample_runs. \<exists>v. cd_state (pg_codec durable_pg) s = Inr v"
    by (auto simp: durable_pg_cod sample_env_def)
  have k: "(0 :: 8 word) \<le> 8" "0 < length ?waves" by simp_all
  from postgres_dag_resume[OF j(1,2) w(1) _ enc _ k(1) _ sample_cut(7,5) _ sample_cut(2) k(2) w(2) e sample_cut(6),
      where F = sample_output, unfolded j, OF sample_plain_dag reversing_permutes sample_dag_limits(1) sample_cut(1)]
  obtain w' where "resume_dag pg_wave_job 0 (?w, sample_dag) = Some (Inr (Some 5), (w', all_waves_done))"
    unfolding sample_cut(3) by auto
  with s show ?thesis by blast
qed

end
