(* ===== verification/Spec2Isabelle.thy ===== *)
theory Spec2Isabelle
  imports Dag_Examples Run_Failures Sql_Runs
begin

text \<open>
  \<^bold>\<open>Takeln, a durable runner for graphs of nodes\<close>

  The program executes graphs whose nodes are asynchronous user functions from a state to a state.
  A node is called under a timeout and a cancellation token, its failures are retried with backoff,
  its cost is charged to a budget, and after every node (or every wave of a DAG) the state is saved
  as a checkpoint, from which a crashed run is resumed. A node may suspend the run and ask a person
  for input; the answer resumes it. Checkpoints live in memory, in SQLite or in PostgreSQL. This
  library models all of that code, and proves what it guarantees and, where it does not do what its
  documentation says, what it does instead.

  \<^bold>\<open>How the parts of the program interact\<close>

  A runner (\<open>Graph::run\<close>, \<open>run_dag\<close>) asks the graph's node functions for outputs, charges their
  cost, tells emitter, event channel and metrics hook what happens, appends to the bounded history
  and calls the operations of a \<open>Checkpointer\<close>. \<open>resume\<close>, \<open>resume_with_input\<close> and \<open>resume_dag\<close>
  load the last checkpoint of a thread and enter the same loops; \<open>resume_with_input\<close> first claims
  the pending interrupt, a compare-and-swap in the store, and gives it back if the run fails. A
  dynamic node calls other nodes of the graph through the child runner. In the model these are
  functions on one record, the \<open>world\<close> of theory \<open>Exec\<close>: the outside the nodes act on, the store,
  the clock and the counters of random draws, the history, and the trace of what the observers were
  told. Each operation gives an \<open>outcome\<close>: \<open>None\<close> when the code does not return (it runs for ever or
  unwinds), an error with the world that is left, or a value with the world that is left. The world
  comes back with errors too, so that what a failed operation leaves behind can be stated.

  \<^bold>\<open>Theories and source files\<close> (paths are relative to the repository)

  The data and the surroundings:
  \<^item> \<open>Prelude\<close>: outcomes and the \<open>?\<close> operator, saturating \<open>u64\<close> arithmetic, text and list lemmas, the
    collection \<open>outcome_simps\<close>.
  \<^item> \<open>Runtime\<close>: JSON values, durations, the clock, cancellation tokens, the environment record
    \<open>env\<close> of third party functions and the record \<open>sys\<close> of what was drawn so far.
  \<^item> \<open>F64\<close>, \<open>F64_Bounds\<close>: binary64 as the program uses it (addition, products with literals,
    comparison, \<open>{:.4}\<close>), with rounding to nearest even, and how far a rounded value is off.
  \<^item> \<open>Hitl\<close> (\<open>src/hitl.rs\<close>), \<open>Errors\<close> (\<open>src/error.rs\<close>), \<open>Dag\<close> (\<open>src/dag.rs\<close>), \<open>Checkpoint\<close>
    (\<open>src/checkpoint.rs\<close>, \<open>src/checkpoint_meta.rs\<close>), \<open>Graph_Config\<close> (\<open>src/resource_limits.rs\<close>,
    \<open>src/context.rs\<close>, \<open>src/history.rs\<close>, the data of \<open>src/emitter.rs\<close> and \<open>src/dynamic.rs\<close>, and the
    types and setters of \<open>src/graph.rs\<close>).

  The operations:
  \<^item> \<open>Memory_Store\<close> (\<open>src/store/memory.rs\<close>), and \<open>Sql\<close>, \<open>Sqlite_Store\<close>, \<open>Postgres_Store\<close>
    (\<open>src/store/sqlite.rs\<close>, \<open>src/store/postgres.rs\<close>): rows, statements and the operations of the
    three stores. A PostgreSQL claim is three statements without a transaction, so it is also a
    step relation, \<open>pg_step\<close>, in which clients interleave.
  \<^item> \<open>Exec\<close> (\<open>src/graph.rs\<close>, \<open>src/dynamic.rs\<close>): the call of a node under timeout and token
    (\<open>call_once\<close>), \<open>retry_loop\<close>, the child runner, the history, the bounded save.
  \<^item> \<open>Sequential\<close>: \<open>run\<close> and \<open>run_inner\<close>, one pass of the loop being \<open>seq_step\<close>. \<open>Resume\<close>:
    \<open>resume\<close>, \<open>resume_with\<close>, \<open>resume_with_input\<close>, validation of an answer, \<open>revert_to_yielded\<close>.
  \<^item> \<open>Dag_Run\<close>: \<open>run_dag\<close> and \<open>resume_dag\<close>, one pass of the loop being \<open>wave_step\<close>; also the
    merge of \<open>src/merge.rs\<close>.
  \<^item> \<open>Graph_Builder\<close> (\<open>GraphBuilder\<close> of \<open>src/graph.rs\<close>) and \<open>Observe\<close> (\<open>src/safe_error.rs\<close>, the emitters
    of \<open>src/emitter.rs\<close>, the hooks of \<open>src/metrics.rs\<close>).
  \<^item> \<open>Examples\<close>, \<open>Dag_Examples\<close>: the ten programs of \<open>examples/\<close>, node by node, run on the model.

  \<^bold>\<open>Interfaces\<close>

  \<^item> \<open>checkpoint_journal\<close> (theory \<open>Checkpoint\<close>) is the contract of a checkpointer: the store is a
    journal of entries per thread, a save appends one, a load reads the last, and a claim is the
    function \<open>journal_claim\<close>. It holds where the store is \<open>usable\<close>, a property of the store and of the
    counters of what was drawn so far, which the operations keep and which survives further draws
    (\<open>later\<close>). Its lemmas are the single winner of concurrent claims, that what was saved is loaded, and
    that a resolved interrupt stays resolved. It is interpreted on the operations of all three stores:
    \<open>mem\<close> (in-memory, usable when its mutex is not poisoned), \<open>sqlite\<close> and \<open>postgres\<close>. Their
    conditions \<open>sqlite_sound\<close> and \<open>pg_sound\<close> are that statements do not fail, that \<open>serde\<close> encodes what
    it is given and reads back what it wrote, that identifiers are new and that the times written into
    rows increase; PostgreSQL has one client at a time there. What several clients and equal times
    do is stated of the operations and steps themselves.
  \<^item> \<open>journal_runner\<close> (theory \<open>Seq_Facts\<close>) extends it by the trait's default methods: the interface
    in which the lemmas about runs, sequential and DAG, are proved. It is interpreted as \<open>mem_run\<close>,
    \<open>sqlite_run\<close> and \<open>postgres_run\<close>. The lemmas ask of a dynamic node that it does not
    take draws back (\<open>forward\<close>, and part of \<open>answers\<close>).

  \<^bold>\<open>What the lemmas show\<close>

  \<^item> \<open>Call_Facts\<close>: the backoff between attempts is between the bounds the code computes, the retry
    loop makes at most the configured number of attempts, each with its own identifier, and returns
    when the calls return; the history never exceeds its limit.
  \<^item> \<open>Seq_Facts\<close>, \<open>Seq_Spec\<close>, \<open>Run_Properties\<close>: a run appends to the journal of its own thread only,
    whatever its nodes do; a run whose nodes answer implements the abstract run \<open>ref_run\<close>, a chain of
    hops, checkpoint by checkpoint; a run cut after any checkpoint and resumed ends as the run that was
    not cut. Dynamic nodes, costs and retries are covered. \<open>Step_Properties\<close>: budgets, declared
    interrupts, what each policy of crash recovery makes of the node that was running. \<open>Run_Failures\<close>: runs that a failing node or the budget
    stops, what the thread holds then and what a resumption does.
  \<^item> \<open>Hitl_Properties\<close>: yielding, claiming, answering, a refused answer, rollback of a failed answer
    in both modes of a request.
  \<^item> \<open>Dag_Build\<close>: the check for cycles is right, and what \<open>DAGBuilder::build\<close> accepts is exactly the
    well-formed acyclic declarations. \<open>Dag_Facts\<close>, \<open>Dag_Properties\<close>: a DAG run implements the abstract
    waves \<open>ref_waves\<close>, whatever order the scheduler chooses, and an acyclic DAG is run to its end.
    \<open>Dag_Order\<close>: no node starts before its dependencies are done, errors included. \<open>Dag_Starts\<close>: a run
    starts only nodes that were pending when it began, counted by the start events of its trace.
    \<open>Dag_Suspend\<close>: yields in a wave, and that a resumption leaves a Yielded node and what waits for it. \<open>Dag_Recovery\<close>: a run cut after a wave and resumed, waves with failures.
    \<open>Dag_Names\<close>: the result of a DAG run depends on the names of the builder's nodes, not on the
    identifiers it drew.
  \<^item> \<open>Memory_Store\<close>, \<open>Sql_Facts\<close>, \<open>Sql_Properties\<close>, \<open>Sqlite_Properties\<close>, \<open>Sql_Types\<close>: round trips of the
    stores, the refinement of \<open>journal_claim\<close>, how many interleaved claims can win, and a typing of
    the SQLite table that every operation preserves and under which nothing fails to decode.
  \<^item> \<open>Store_Runs\<close>, \<open>Sql_Journals\<close>, \<open>Sql_Runs\<close>: runs, crash recovery and answers over any store that keeps
    the contract; the interpretations on the SQL stores; crash recovery over SQLite, human in the loop
    and crash recovery of a DAG over PostgreSQL, with surroundings for which all conditions of the
    stores hold. (The DAG lemmas over any store are in \<open>Dag_Facts\<close> and \<open>Dag_Recovery\<close>.)
  \<^item> \<open>Observe\<close>: the text of a node's error reaches the log of the tracing emitter only as a bounded
    fingerprint.

  The properties are the theorems whose text begins with \<open>C\<close> and a number, each with a witness
  where it has hypotheses.

  \<^bold>\<open>Bounds, loops and fuel\<close>

  Counters that the code keeps in machine words are words here (attempts \<open>u8\<close>, limits and delays
  \<open>u64\<close>, the event counter \<open>u64\<close>), with saturating or wrapping operations as in the source.
  \<open>seq_loop\<close> terminates because the step limit bounds its passes, \<open>wave_loop\<close> because each pass
  launches a pending node. \<open>retry_loop\<close>, \<open>kahn\<close> and \<open>evict\<close> are partial functions in the option type:
  not to return is the value \<open>None\<close>, and that they return is proved where they do (with a history
  limit of 0, \<open>evict\<close> does not). The abstract runs \<open>ref_run\<close> and \<open>ref_waves\<close> take a fuel: the number
  of passes the step limit allows, and the number of pending nodes, each wave finishing at least
  one; more changes nothing (\<open>ref_waves_fuel\<close>).

  \<^bold>\<open>Assumptions of the model\<close>

  \<^item> Nodes, routing closures, emitters and hooks are arguments of the definitions: any
    function of the outside world. \<open>serde\<close>, \<open>uuid\<close>, \<open>sha2\<close>, \<open>rand\<close>, \<open>chrono\<close>, the clock and the database
    engines are fields of records that the definitions take; what a theorem needs of them is a
    hypothesis of the theorem.
  \<^item> The two zeros of \<open>f64\<close> are one value. Vectors are shorter than \<open>2 ^ 64\<close>.
  \<^item> A node call is one step: it gives a result after a time, panics after a time, or does not end;
    cancellation and timeout are decided from that, and what the node did to the outside stays done. The tasks of a wave are steps of
    which the order of starting and the order of arrival are arguments. A task that never ends
    keeps its permit. That every step type of a wave is known is checked before any of its tasks runs.
  \<^item> Observers only observe: an emitter that panics or calls back into the graph is not modelled. The
    messages that the runners pass to \<open>tracing\<close> directly are not part of the trace.
  \<^item> A statement of an SQL engine is atomic, and changes nothing if it fails; failures are an argument.
    Rows with one \<open>created_at\<close> are ordered as the engine likes. A row that cannot be decoded by the
    driver is a failure of its statement. A commit whose acknowledgement is lost is not modelled.
  \<^item> What the example programs print is not modelled. \<open>to_uppercase\<close> is that of ASCII, which
    is all the programs contain.

  \<^bold>\<open>Not modelled\<close>

  \<^item> \<open>src/lib.rs\<close>, \<open>src/store/mod.rs\<close>: module declarations and re-exports only.
  \<^item> Delivery through the broadcast channel of \<open>Graph::subscribe\<close> (a channel of the tokio crate): what
    is sent is in the trace, what a slow receiver misses is not.
  \<^item> \<open>benches/\<close> (timing harnesses) and the tests, whose expectations informed the theorems.
\<close>

end
